(* ===== verification/Prelude.thy ===== *)
theory Prelude
  imports Main "HOL-Library.Word" "HOL-Library.Sublist"
begin

text \<open>
  Shared vocabulary of the development: the machine integers of the Rust code, the outcome
  types (a Rust value or a panic, a Rust \<open>Result\<close> or a panic), the \<open>?\<close> operator over
  explicit state, the \<open>named_theorems\<close> collections the component theories fill, and
  generic lemmas on lists and maps.
\<close>

subsection \<open>Collections\<close>

named_theorems str_simps \<open>evaluation rules of the string functions of the Rust library\<close>
named_theorems outcome_simps \<open>unfolding rules of the outcome combinators\<close>

subsection \<open>Machine integers\<close>

type_synonym u16 = "16 word"
type_synonym u32 = "32 word"
type_synonym u64 = "64 word"

text \<open>Characters are bytes: a Rust \<open>str\<close> is its UTF-8 encoding, and lengths and offsets
  count bytes, as \<open>str::len\<close> and \<open>str::find\<close> do.\<close>

abbreviation squote :: char where "squote \<equiv> CHR 0x27"
abbreviation bslash :: char where "bslash \<equiv> CHR 0x5C"
abbreviation backtick :: char where "backtick \<equiv> CHR 0x60"
abbreviation slash :: char where "slash \<equiv> CHR 0x2F"

definition byte :: "char \<Rightarrow> nat" where
  "byte c = of_char c"

subsection \<open>Outcomes\<close>

text \<open>A call of a function that may panic: its value, or the panic.\<close>

datatype 'a run = Panic | Done 'a

text \<open>A call of a function that returns a \<open>Result\<close> and may panic.\<close>

datatype ('e, 'a) res = Ok 'a | Err 'e | Panicked

text \<open>\<open>let v = call?; rest\<close> over explicit state: the rest runs on \<open>Ok\<close> only.\<close>

definition try_res ::
  "('e, 'a) res \<times> 's \<Rightarrow> ('a \<Rightarrow> 's \<Rightarrow> ('e, 'b) res \<times> 's) \<Rightarrow> ('e, 'b) res \<times> 's" where
  "try_res r k = (case r of
     (Ok a, s) \<Rightarrow> k a s
   | (Err e, s) \<Rightarrow> (Err e, s)
   | (Panicked, s) \<Rightarrow> (Panicked, s))"

text \<open>\<open>call.map_err(f)\<close>.\<close>

definition map_err_res :: "('e \<Rightarrow> 'f) \<Rightarrow> ('e, 'a) res \<times> 's \<Rightarrow> ('f, 'a) res \<times> 's" where
  "map_err_res f r = (case r of
     (Ok a, s) \<Rightarrow> (Ok a, s)
   | (Err e, s) \<Rightarrow> (Err (f e), s)
   | (Panicked, s) \<Rightarrow> (Panicked, s))"

fun run_bind :: "'a run \<Rightarrow> ('a \<Rightarrow> 'b run) \<Rightarrow> 'b run" where
  "run_bind Panic f = Panic"
| "run_bind (Done a) f = f a"

lemma try_res_simps [simp, outcome_simps]:
  "try_res (Ok a, s) k = k a s"
  "try_res (Err e, s) k = (Err e, s)"
  "try_res (Panicked, s) k = (Panicked, s)"
  by (simp_all add: try_res_def)

lemma map_err_res_simps [simp, outcome_simps]:
  "map_err_res f (Ok a, s) = (Ok a, s)"
  "map_err_res f (Err e, s) = (Err (f e), s)"
  "map_err_res f (Panicked, s) = (Panicked, s)"
  by (simp_all add: map_err_res_def)

lemma try_res_Ok_iff:
  "try_res r k = (Ok b, s') \<longleftrightarrow> (\<exists>a s. r = (Ok a, s) \<and> k a s = (Ok b, s'))"
  by (cases r; cases "fst r") (auto simp: try_res_def)

lemma try_res_Err_iff:
  "try_res r k = (Err e, s') \<longleftrightarrow>
     r = (Err e, s') \<or> (\<exists>a s. r = (Ok a, s) \<and> k a s = (Err e, s'))"
  by (cases r; cases "fst r") (auto simp: try_res_def)

lemma try_res_snd:
  assumes "P (snd r)" and "\<And>a s. r = (Ok a, s) \<Longrightarrow> P (snd (k a s))"
  shows "P (snd (try_res r k))"
  using assms by (cases r; cases "fst r") auto

lemma try_res_fst_Ok:
  "fst (try_res r k) = Ok b \<longleftrightarrow> (\<exists>a. fst r = Ok a \<and> fst (k a (snd r)) = Ok b)"
  by (cases r; cases "fst r") (auto simp: try_res_def)

lemma map_err_res_snd [simp]: "snd (map_err_res f r) = snd r"
  by (cases r; cases "fst r") (auto simp: map_err_res_def)

lemma map_err_res_fst_Ok [simp]: "fst (map_err_res f r) = Ok a \<longleftrightarrow> fst r = Ok a"
  by (cases r; cases "fst r") (auto simp: map_err_res_def)

lemma fst_eq_iff_ex: "fst r = a \<longleftrightarrow> (\<exists>b. r = (a, b))"
  by (cases r) auto

lemma map_err_res_Ok_iff [simp]: "map_err_res f r = (Ok a, s) \<longleftrightarrow> r = (Ok a, s)"
  by (cases r; cases "fst r") (auto simp: map_err_res_def)

text \<open>
  What holds after a call: \<open>Q\<close> of the value and the state on \<open>Ok\<close>, \<open>R\<close> of the error and the
  state on \<open>Err\<close>. A panic promises nothing.
\<close>

definition post ::
  "('e, 'a) res \<times> 's \<Rightarrow> ('a \<Rightarrow> 's \<Rightarrow> bool) \<Rightarrow> ('e \<Rightarrow> 's \<Rightarrow> bool) \<Rightarrow> bool" where
  "post r Q R = (case r of (Ok a, s) \<Rightarrow> Q a s | (Err e, s) \<Rightarrow> R e s | (Panicked, s) \<Rightarrow> True)"

lemma post_simps [simp, outcome_simps]:
  "post (Ok a, s) Q R = Q a s" "post (Err e, s) Q R = R e s" "post (Panicked, s) Q R"
  by (simp_all add: post_def)

lemma post_iff: "post r Q R \<longleftrightarrow>
    (\<forall>a s. r = (Ok a, s) \<longrightarrow> Q a s) \<and> (\<forall>e s. r = (Err e, s) \<longrightarrow> R e s)"
  by (cases r; cases "fst r") (auto simp: post_def)

lemma post_try [intro]:
  assumes "post r (\<lambda>a s. post (k a s) Q R) R"
  shows "post (try_res r k) Q R"
  using assms by (cases r; cases "fst r") auto

lemma post_map_err [simp, outcome_simps]: "post (map_err_res f r) Q R = post r Q (\<lambda>e. R (f e))"
  by (cases r; cases "fst r") auto

lemma post_mono:
  "post r Q R \<Longrightarrow> (\<And>a s. Q a s \<Longrightarrow> Q' a s) \<Longrightarrow> (\<And>e s. R e s \<Longrightarrow> R' e s) \<Longrightarrow> post r Q' R'"
  by (simp add: post_iff)

lemma post_conj: "post r Q R \<Longrightarrow> post r Q' R' \<Longrightarrow> post r (\<lambda>a s. Q a s \<and> Q' a s) (\<lambda>e s. R e s \<and> R' e s)"
  by (simp add: post_iff)

subsection \<open>Lists and maps\<close>

lemma take_append_length [simp]: "take (length xs) (xs @ ys) = xs"
  by simp

lemma map_upd_Some_same [simp]: "m k = Some v \<Longrightarrow> m(k \<mapsto> v) = m"
  by (auto simp: fun_eq_iff)

lemma in_fst_image: "k \<in> fst ` S \<longleftrightarrow> (\<exists>v. (k, v) \<in> S)"
  by force

text \<open>Two maps that are inverse to each other.\<close>

definition inverse_maps :: "('a \<Rightarrow> 'b option) \<Rightarrow> ('b \<Rightarrow> 'a option) \<Rightarrow> bool" where
  "inverse_maps f g = (\<forall>a b. f a = Some b \<longleftrightarrow> g b = Some a)"

lemma inverse_mapsD: "inverse_maps f g \<Longrightarrow> f a = Some b \<longleftrightarrow> g b = Some a"
  by (simp add: inverse_maps_def)

lemma inverse_maps_insert:
  "inverse_maps f g \<Longrightarrow> f a = None \<Longrightarrow> g b = None \<Longrightarrow> inverse_maps (f(a \<mapsto> b)) (g(b \<mapsto> a))"
  by (simp add: inverse_maps_def) (metis option.distinct(1))

lemma inverse_maps_remove:
  "inverse_maps f g \<Longrightarrow> f a = Some b \<Longrightarrow> inverse_maps (f(a := None)) (g(b := None))"
  by (simp add: inverse_maps_def) (metis option.sel)

lemma word_less_Suc: "n \<noteq> - 1 \<Longrightarrow> n < n + (1 :: 'a::len word)"
  by (metis add_eq_0_iff2 lessI linorder_not_less word_less_nat_alt unatSuc add.commute)

end
