(* ===== verification/RustStr.thy ===== *)
theory RustStr
  imports Prelude
begin

text \<open>
  The functions of the Rust standard library on strings that the program calls, on the bytes
  of a \<open>str\<close>: searching and splitting, trimming, replacing, decimal and octal numbers,
  lines, lossy UTF-8 decoding, and slicing with its panic off a character boundary.
\<close>

subsection \<open>Searching\<close>

text \<open>\<open>str::find(&str)\<close>: the byte offset of the first occurrence.\<close>

fun find_sub :: "string \<Rightarrow> string \<Rightarrow> nat option" where
  "find_sub p [] = (if p = [] then Some 0 else None)"
| "find_sub p (c # cs) =
     (if prefix p (c # cs) then Some 0 else map_option Suc (find_sub p cs))"

text \<open>\<open>str::find(char)\<close> and \<open>str::rfind(char)\<close> for an ASCII character.\<close>

fun find_char :: "char \<Rightarrow> string \<Rightarrow> nat option" where
  "find_char x [] = None"
| "find_char x (c # cs) = (if c = x then Some 0 else map_option Suc (find_char x cs))"

fun rfind_char :: "char \<Rightarrow> string \<Rightarrow> nat option" where
  "rfind_char x [] = None"
| "rfind_char x (c # cs) =
     (case rfind_char x cs of Some i \<Rightarrow> Some (Suc i) | None \<Rightarrow> if c = x then Some 0 else None)"

text \<open>\<open>str::contains(&str)\<close>.\<close>

definition contains_sub :: "string \<Rightarrow> string \<Rightarrow> bool" where
  "contains_sub s p = (find_sub p s \<noteq> None)"

lemma find_sub_SomeD:
  "find_sub p s = Some i \<Longrightarrow> i + length p \<le> length s \<and> prefix p (drop i s)"
proof (induction s arbitrary: i)
  case Nil
  then show ?case by (auto split: if_splits)
next
  case (Cons c cs)
  then show ?case by (auto split: if_splits dest: prefix_length_le)
qed

lemma find_sub_first:
  "find_sub p s = Some i \<Longrightarrow> j < i \<Longrightarrow> \<not> prefix p (drop j s)"
proof (induction s arbitrary: i j)
  case Nil
  then show ?case by (auto split: if_splits)
next
  case (Cons c cs)
  then show ?case by (cases j) (auto split: if_splits)
qed

lemma find_sub_None: "find_sub p s = None \<Longrightarrow> \<not> prefix p (drop j s)"
proof (induction s arbitrary: j)
  case Nil
  then show ?case by (auto split: if_splits)
next
  case (Cons c cs)
  then show ?case by (cases j) (auto split: if_splits)
qed

lemma contains_sub_iff: "contains_sub s p \<longleftrightarrow> sublist p s"
proof
  assume "contains_sub s p"
  then obtain i where "find_sub p s = Some i" by (auto simp: contains_sub_def)
  then have "prefix p (drop i s)" by (simp add: find_sub_SomeD)
  then show "sublist p s"
    by (metis prefix_imp_sublist sublist_drop sublist_order.order.trans)
next
  assume "sublist p s"
  then obtain u v where "s = u @ p @ v" by (auto simp: sublist_def)
  then have "prefix p (drop (length u) s)" by simp
  then show "contains_sub s p"
    using find_sub_None[of p s "length u"] by (auto simp: contains_sub_def)
qed

lemma find_char_append:
  "x \<notin> set u \<Longrightarrow> find_char x (u @ x # v) = Some (length u)"
  by (induction u) auto

lemma find_char_SomeD:
  "find_char x s = Some i \<Longrightarrow> i < length s \<and> s ! i = x \<and> x \<notin> set (take i s)"
  by (induction s arbitrary: i) (auto split: if_splits)

lemma find_char_None: "find_char x s = None \<longleftrightarrow> x \<notin> set s"
  by (induction s) auto

lemma rfind_char_append: "x \<notin> set v \<Longrightarrow> rfind_char x (u @ x # v) = Some (length u)"
proof (induction u)
  case Nil
  then have "rfind_char x v = None" by (induction v) auto
  then show ?case by simp
qed simp

subsection \<open>Slicing\<close>

text \<open>A byte of the form \<open>10xxxxxx\<close> continues a character; every other byte starts one.\<close>

definition is_cont :: "char \<Rightarrow> bool" where
  "is_cont c = (128 \<le> byte c \<and> byte c < 192)"

text \<open>\<open>str::is_char_boundary\<close>.\<close>

definition is_char_boundary :: "string \<Rightarrow> nat \<Rightarrow> bool" where
  "is_char_boundary s i = (i = 0 \<or> i = length s \<or> (i < length s \<and> \<not> is_cont (s ! i)))"

text \<open>\<open>&s[i..]\<close> and \<open>&s[..i]\<close>: a panic off a character boundary.\<close>

definition slice_from :: "string \<Rightarrow> nat \<Rightarrow> string run" where
  "slice_from s i = (if is_char_boundary s i then Done (drop i s) else Panic)"

definition slice_to :: "string \<Rightarrow> nat \<Rightarrow> string run" where
  "slice_to s i = (if is_char_boundary s i then Done (take i s) else Panic)"

text \<open>\<open>&s[i..j]\<close>: a panic when the range is reversed or cuts a character.\<close>

definition slice_range :: "string \<Rightarrow> nat \<Rightarrow> nat \<Rightarrow> string run" where
  "slice_range s i j =
     (if i \<le> j \<and> is_char_boundary s i \<and> is_char_boundary s j
      then Done (take (j - i) (drop i s)) else Panic)"

subsection \<open>Splitting\<close>

text \<open>\<open>str::split(char)\<close>: always at least one piece.\<close>

fun split_on :: "char \<Rightarrow> string \<Rightarrow> string list" where
  "split_on x [] = [[]]"
| "split_on x (c # cs) =
     (if c = x then [] # split_on x cs
      else (case split_on x cs of [] \<Rightarrow> [[c]] | y # ys \<Rightarrow> (c # y) # ys))"

text \<open>\<open>str::split_once(char)\<close>.\<close>

definition split_once :: "char \<Rightarrow> string \<Rightarrow> (string \<times> string) option" where
  "split_once x s =
     (case find_char x s of None \<Rightarrow> None | Some i \<Rightarrow> Some (take i s, drop (Suc i) s))"

lemma split_on_nonempty [simp]: "split_on x s \<noteq> []"
  by (induction s) (auto split: list.splits)

lemma split_on_free: "y \<in> set (split_on x s) \<Longrightarrow> x \<notin> set y"
proof (induction s arbitrary: y)
  case Nil
  then show ?case by simp
next
  case (Cons c cs)
  then show ?case by (cases "split_on x cs") (auto split: if_splits)
qed

lemma split_on_no_sep: "x \<notin> set s \<Longrightarrow> split_on x s = [s]"
  by (induction s) auto

lemma split_on_append: "x \<notin> set u \<Longrightarrow> split_on x (u @ x # v) = u # split_on x v"
  by (induction u) auto

lemma split_once_append: "x \<notin> set u \<Longrightarrow> split_once x (u @ x # v) = Some (u, v)"
  by (simp add: split_once_def find_char_append)

subsection \<open>Unicode white space\<close>

text \<open>
  \<open>char::is_whitespace\<close> on the encoded character at the head of the text: its length in
  bytes, or 0. The characters are U+0009 to U+000D, U+0020, U+0085, U+00A0, U+1680, U+2000
  to U+200A, U+2028, U+2029, U+202F, U+205F and U+3000. Their lead bytes never continue a
  character, so a scan byte by byte finds exactly the white space of the text.
\<close>

definition ascii_ws :: "nat \<Rightarrow> bool" where
  "ascii_ws b = (b = 32 \<or> (9 \<le> b \<and> b \<le> 13))"

definition ws2 :: "nat \<Rightarrow> nat \<Rightarrow> bool" where
  "ws2 a b = (a = 0xC2 \<and> (b = 0x85 \<or> b = 0xA0))"

definition ws3 :: "nat \<Rightarrow> nat \<Rightarrow> nat \<Rightarrow> bool" where
  "ws3 a b c =
     ((a = 0xE1 \<and> b = 0x9A \<and> c = 0x80)
    \<or> (a = 0xE2 \<and> b = 0x80 \<and> ((0x80 \<le> c \<and> c \<le> 0x8A) \<or> c = 0xA8 \<or> c = 0xA9 \<or> c = 0xAF))
    \<or> (a = 0xE2 \<and> b = 0x81 \<and> c = 0x9F)
    \<or> (a = 0xE3 \<and> b = 0x80 \<and> c = 0x80))"

fun ws_width :: "string \<Rightarrow> nat" where
  "ws_width [] = 0"
| "ws_width [a] = (if ascii_ws (byte a) then 1 else 0)"
| "ws_width [a, b] =
     (if ascii_ws (byte a) then 1 else if ws2 (byte a) (byte b) then 2 else 0)"
| "ws_width (a # b # c # cs) =
     (if ascii_ws (byte a) then 1 else if ws2 (byte a) (byte b) then 2
      else if ws3 (byte a) (byte b) (byte c) then 3 else 0)"

text \<open>The same at the end of the text, on its reversal.\<close>

fun ws_width_rev :: "string \<Rightarrow> nat" where
  "ws_width_rev [] = 0"
| "ws_width_rev [a] = (if ascii_ws (byte a) then 1 else 0)"
| "ws_width_rev [b, a] =
     (if ascii_ws (byte b) then 1 else if ws2 (byte a) (byte b) then 2 else 0)"
| "ws_width_rev (c # b # a # cs) =
     (if ascii_ws (byte c) then 1 else if ws2 (byte b) (byte c) then 2
      else if ws3 (byte a) (byte b) (byte c) then 3 else 0)"

lemma ws_width_le: "ws_width s \<le> length s"
  by (cases s rule: ws_width.cases) auto

lemma ws_width_rev_le: "ws_width_rev s \<le> length s"
  by (cases s rule: ws_width_rev.cases) auto

text \<open>\<open>str::split_whitespace\<close>; \<open>cur\<close> is the word read so far.\<close>

function split_ws :: "string \<Rightarrow> string \<Rightarrow> string list" where
  "split_ws cur [] = (if cur = [] then [] else [cur])"
| "split_ws cur (c # cs) =
     (let n = ws_width (c # cs) in
      if n = 0 then split_ws (cur @ [c]) cs
      else (if cur = [] then [] else [cur]) @ split_ws [] (drop (n - 1) cs))"
  by pat_completeness auto
termination by (relation "measure (\<lambda>(cur, s). length s)") auto

definition split_whitespace :: "string \<Rightarrow> string list" where
  "split_whitespace s = split_ws [] s"

text \<open>\<open>str::trim\<close>.\<close>

function trim_front :: "(string \<Rightarrow> nat) \<Rightarrow> string \<Rightarrow> string" where
  "trim_front w s = (if w s = 0 \<or> s = [] then s else trim_front w (drop (w s) s))"
  by pat_completeness auto
termination by (relation "measure (\<lambda>(w, s). length s)") auto

declare trim_front.simps [simp del]

definition trim :: "string \<Rightarrow> string" where
  "trim s = rev (trim_front ws_width_rev (rev (trim_front ws_width s)))"

lemma trim_front_Nil [simp]: "trim_front w [] = []"
  by (subst trim_front.simps) simp

lemma trim_front_id: "w s = 0 \<Longrightarrow> trim_front w s = s"
  by (subst trim_front.simps) simp

lemma trim_id: "ws_width s = 0 \<Longrightarrow> ws_width_rev (rev s) = 0 \<Longrightarrow> trim s = s"
  by (simp add: trim_def trim_front_id)

lemma trim_Nil [simp]: "trim [] = []"
  by (simp add: trim_def)

text \<open>\<open>str::trim_start_matches(char)\<close> and \<open>str::trim_end_matches(char)\<close>.\<close>

definition trim_start_char :: "char \<Rightarrow> string \<Rightarrow> string" where
  "trim_start_char x s = dropWhile (\<lambda>c. c = x) s"

definition trim_end_char :: "char \<Rightarrow> string \<Rightarrow> string" where
  "trim_end_char x s = rev (dropWhile (\<lambda>c. c = x) (rev s))"

subsection \<open>Replacing, case, repetition\<close>

text \<open>\<open>str::replace(char, &str)\<close>.\<close>

fun replace_char :: "char \<Rightarrow> string \<Rightarrow> string \<Rightarrow> string" where
  "replace_char x r [] = []"
| "replace_char x r (c # cs) = (if c = x then r else [c]) @ replace_char x r cs"

text \<open>\<open>str::replace(&str, &str)\<close> for a non-empty pattern: left to right, without overlap.\<close>

function replace_sub :: "string \<Rightarrow> string \<Rightarrow> string \<Rightarrow> string" where
  "replace_sub p r [] = []"
| "replace_sub p r (c # cs) =
     (if p \<noteq> [] \<and> prefix p (c # cs) then r @ replace_sub p r (drop (length p - 1) cs)
      else c # replace_sub p r cs)"
  by pat_completeness auto
termination by (relation "measure (\<lambda>(p, r, s). length s)") auto

lemma replace_char_append [simp]:
  "replace_char x r (s @ t) = replace_char x r s @ replace_char x r t"
  by (induction s) auto

lemma replace_char_absent: "x \<notin> set s \<Longrightarrow> replace_char x r s = s"
  by (induction s) auto

text \<open>\<open>str::to_ascii_lowercase\<close>.\<close>

definition ascii_lower :: "char \<Rightarrow> char" where
  "ascii_lower c = (if 65 \<le> byte c \<and> byte c \<le> 90 then char_of (byte c + 32) else c)"

definition to_ascii_lowercase :: "string \<Rightarrow> string" where
  "to_ascii_lowercase s = map ascii_lower s"

text \<open>\<open>str::repeat\<close>.\<close>

definition repeat_str :: "string \<Rightarrow> nat \<Rightarrow> string" where
  "repeat_str s n = concat (replicate n s)"

subsection \<open>Lines\<close>

text \<open>\<open>str::lines\<close>: pieces ended by \<open>\n\<close> or \<open>\r\n\<close>; a last empty piece does not count.\<close>

definition strip_cr :: "string \<Rightarrow> string" where
  "strip_cr s = (if s \<noteq> [] \<and> last s = CHR 0x0D then butlast s else s)"

definition str_lines :: "string \<Rightarrow> string list" where
  "str_lines s =
     (let ps = split_on (CHR 0x0A) s
      in map strip_cr (butlast ps) @ (if last ps = [] then [] else [last ps]))"

subsection \<open>Numbers\<close>

text \<open>\<open>char::to_digit(radix)\<close> for the radices 8 and 10.\<close>

definition digit_val :: "nat \<Rightarrow> char \<Rightarrow> nat option" where
  "digit_val radix c =
     (if 48 \<le> byte c \<and> byte c < 48 + radix then Some (byte c - 48) else None)"

text \<open>
  \<open>from_str_radix\<close> on the digits, checking the range at every digit: \<open>None\<close> stands for
  \<open>ParseIntError\<close> (a character that is no digit, or a value above \<open>maxv\<close>).
\<close>

fun parse_digits :: "nat \<Rightarrow> nat \<Rightarrow> nat \<Rightarrow> string \<Rightarrow> nat option" where
  "parse_digits radix maxv acc [] = Some acc"
| "parse_digits radix maxv acc (c # cs) =
     (case digit_val radix c of None \<Rightarrow> None
      | Some d \<Rightarrow>
          if acc * radix + d \<le> maxv then parse_digits radix maxv (acc * radix + d) cs else None)"

text \<open>Unsigned \<open>from_str_radix\<close>: an optional \<open>+\<close>, then at least one digit.\<close>

fun parse_unsigned :: "nat \<Rightarrow> nat \<Rightarrow> string \<Rightarrow> nat option" where
  "parse_unsigned radix maxv [] = None"
| "parse_unsigned radix maxv (c # cs) =
     (if c = CHR 0x2B then (if cs = [] then None else parse_digits radix maxv 0 cs)
      else parse_digits radix maxv 0 (c # cs))"

definition parse_u32 :: "nat \<Rightarrow> string \<Rightarrow> u32 option" where
  "parse_u32 radix s = map_option word_of_nat (parse_unsigned radix (2 ^ 32 - 1) s)"

definition parse_u64 :: "string \<Rightarrow> u64 option" where
  "parse_u64 s = map_option word_of_nat (parse_unsigned 10 (2 ^ 64 - 1) s)"

text \<open>\<open>str::parse::<i32>\<close>: an optional sign, then at least one digit.\<close>

fun parse_i32 :: "string \<Rightarrow> int option" where
  "parse_i32 [] = None"
| "parse_i32 (c # cs) =
     (if c = CHR 0x2D then
        (if cs = [] then None else map_option (\<lambda>n. - int n) (parse_digits 10 (2 ^ 31) 0 cs))
      else map_option int (parse_unsigned 10 (2 ^ 31 - 1) (c # cs)))"

lemma parse_digits_le: "acc \<le> maxv \<Longrightarrow> parse_digits radix maxv acc s = Some n \<Longrightarrow> n \<le> maxv"
  by (induction s arbitrary: acc) (auto split: option.splits if_splits)

lemma parse_unsigned_le: "parse_unsigned radix maxv s = Some n \<Longrightarrow> n \<le> maxv"
  by (cases s)
    (auto simp del: parse_digits.simps split: if_splits intro: parse_digits_le[of 0])

lemma parse_i32_range:
  assumes "parse_i32 s = Some v"
  shows "- (2 ^ 31) \<le> v \<and> v < 2 ^ 31"
proof (cases s)
  case Nil
  with assms show ?thesis by simp
next
  case (Cons c cs)
  have le: "n \<le> 2 ^ 31" if "parse_digits 10 (2 ^ 31) 0 cs = Some n" for n
    using that by (rule parse_digits_le[rotated]) simp
  have le': "n \<le> 2 ^ 31 - 1" if "parse_unsigned 10 (2 ^ 31 - 1) (c # cs) = Some n" for n
    using that by (rule parse_unsigned_le)
  show ?thesis
    using assms Cons le le' by (fastforce split: if_splits)
qed

text \<open>A number without a minus sign is not negative.\<close>

lemma parse_i32_nonneg: "parse_i32 s = Some v \<Longrightarrow> CHR 0x2D \<notin> set s \<Longrightarrow> 0 \<le> v"
  by (cases s) (auto split: if_splits)

text \<open>\<open>Display\<close> of an unsigned integer, and zero padding as \<open>{:09}\<close> does it.\<close>

definition digit_char :: "nat \<Rightarrow> char" where
  "digit_char d = char_of (48 + d)"

fun show_nat :: "nat \<Rightarrow> string" where
  "show_nat n = (if n < 10 then [digit_char n] else show_nat (n div 10) @ [digit_char (n mod 10)])"

declare show_nat.simps [simp del]

definition pad_zero :: "nat \<Rightarrow> string \<Rightarrow> string" where
  "pad_zero w s = replicate (w - length s) (CHR ''0'') @ s"

definition show_int :: "int \<Rightarrow> string" where
  "show_int i = (if i < 0 then CHR ''-'' # show_nat (nat (- i)) else show_nat (nat i))"

lemma digit_val_digit_char: "d < 10 \<Longrightarrow> digit_val 10 (digit_char d) = Some d"
  by (simp add: digit_val_def digit_char_def byte_def)

lemma parse_digits_append:
  "parse_digits r m a (s @ t) =
     (case parse_digits r m a s of None \<Rightarrow> None | Some n \<Rightarrow> parse_digits r m n t)"
  by (induction s arbitrary: a) (auto split: option.splits)

text \<open>Printing and reading back a number within the range.\<close>

lemma parse_digits_show_nat: "n \<le> m \<Longrightarrow> parse_digits 10 m 0 (show_nat n) = Some n"
proof (induction n rule: show_nat.induct)
  case (1 n)
  show ?case
  proof (cases "n < 10")
    case True
    with "1.prems" show ?thesis
      by (simp add: digit_val_digit_char show_nat.simps[of n])
  next
    case False
    with 1 have "parse_digits 10 m 0 (show_nat (n div 10)) = Some (n div 10)" by simp
    with False "1.prems" show ?thesis
      by (simp add: parse_digits_append digit_val_digit_char show_nat.simps[of n])
  qed
qed

lemma show_nat_inj: "show_nat m = show_nat n \<Longrightarrow> m = n"
  by (metis max.cobounded1 max.cobounded2 option.inject parse_digits_show_nat)

lemma show_nat_digits: "c \<in> set (show_nat n) \<Longrightarrow> 48 \<le> byte c \<and> byte c \<le> 57"
proof (induction n rule: show_nat.induct)
  case (1 n)
  have d: "48 \<le> byte (digit_char k) \<and> byte (digit_char k) \<le> 57" if "k < 10" for k
    using that by (simp add: digit_char_def byte_def)
  show ?case
  proof (cases "n < 10")
    case True
    with "1.prems" d show ?thesis by (subst (asm) show_nat.simps) auto
  next
    case False
    with "1.prems" have "c \<in> set (show_nat (n div 10)) \<or> c = digit_char (n mod 10)"
      by (subst (asm) show_nat.simps) auto
    with "1.IH"[OF False] d[of "n mod 10"] show ?thesis by auto
  qed
qed

lemma show_nat_length: "n < 10 ^ k \<Longrightarrow> 0 < k \<Longrightarrow> length (show_nat n) \<le> k"
proof (induction n arbitrary: k rule: show_nat.induct)
  case (1 n)
  show ?case
  proof (cases "n < 10")
    case True
    with 1 show ?thesis by (subst show_nat.simps) simp
  next
    case False
    with "1.prems" obtain j where k: "k = Suc j" "0 < j"
      by (cases k; cases "k - 1") auto
    with "1.prems" have "n div 10 < 10 ^ j" by (simp add: div_less_iff_less_mult mult.commute)
    with "1.IH"[OF False _ k(2)] have "length (show_nat (n div 10)) \<le> j" by simp
    with False k show ?thesis by (subst show_nat.simps) simp
  qed
qed

subsection \<open>Lossy UTF-8 decoding\<close>

text \<open>
  \<open>String::from_utf8_lossy\<close> and \<open>OsStr::to_string_lossy\<close>: every maximal invalid
  sequence becomes one U+FFFD. \<open>second_ok\<close> is the range of the second byte that the
  lead byte admits (no overlong forms, no surrogates, nothing above U+10FFFF).
\<close>

definition fffd :: string where
  "fffd = [CHR 0xEF, CHR 0xBF, CHR 0xBD]"

definition second_ok :: "nat \<Rightarrow> nat \<Rightarrow> bool" where
  "second_ok a b =
     ((if a = 0xE0 then 0xA0 else if a = 0xF0 then 0x90 else 0x80) \<le> b
    \<and> b \<le> (if a = 0xED then 0x9F else if a = 0xF4 then 0x8F else 0xBF))"

definition utf8_len :: "nat \<Rightarrow> nat" where
  "utf8_len a =
     (if a < 0x80 then 1 else if 0xC2 \<le> a \<and> a \<le> 0xDF then 2
      else if 0xE0 \<le> a \<and> a \<le> 0xEF then 3 else if 0xF0 \<le> a \<and> a \<le> 0xF4 then 4 else 0)"

text \<open>The sequence at the head: its length in bytes, and whether it is a character.\<close>

fun utf8_head :: "string \<Rightarrow> nat \<times> bool" where
  "utf8_head [] = (0, True)"
| "utf8_head (a # as) =
     (let w = utf8_len (byte a) in
      if w = 0 then (1, False) else if w = 1 then (1, True)
      else case as of [] \<Rightarrow> (1, False)
        | b # bs \<Rightarrow>
            if \<not> second_ok (byte a) (byte b) then (1, False) else if w = 2 then (2, True)
            else case bs of [] \<Rightarrow> (2, False)
              | c # cs \<Rightarrow>
                  if \<not> is_cont c then (2, False) else if w = 3 then (3, True)
                  else case cs of [] \<Rightarrow> (3, False)
                    | d # ds \<Rightarrow> if is_cont d then (4, True) else (3, False))"

function utf8_lossy :: "string \<Rightarrow> string" where
  "utf8_lossy [] = []"
| "utf8_lossy (a # as) =
     (let h = utf8_head (a # as)
      in (if snd h then take (fst h) (a # as) else fffd) @ utf8_lossy (drop (fst h - 1) as))"
  by pat_completeness auto
termination by (relation "measure length") (auto simp: Let_def)

function utf8_valid :: "string \<Rightarrow> bool" where
  "utf8_valid [] = True"
| "utf8_valid (a # as) =
     (let h = utf8_head (a # as) in snd h \<and> utf8_valid (drop (fst h - 1) as))"
  by pat_completeness auto
termination by (relation "measure length") (auto simp: Let_def)

lemma utf8_head_pos: "1 \<le> fst (utf8_head (a # as))"
  by (auto simp: Let_def split: list.splits)

lemma utf8_lossy_valid: "utf8_valid s \<Longrightarrow> utf8_lossy s = s"
proof (induction s rule: utf8_valid.induct)
  case 1
  then show ?case by simp
next
  case (2 a as)
  let ?h = "utf8_head (a # as)"
  from "2.prems" have h: "snd ?h" and v: "utf8_valid (drop (fst ?h - 1) as)"
    by (simp_all add: Let_def del: utf8_head.simps)
  from "2.IH"[OF refl v] have "utf8_lossy (drop (fst ?h - 1) as) = drop (fst ?h - 1) as" .
  moreover obtain n where "fst ?h = Suc n"
    using utf8_head_pos[of a as] by (metis Suc_le_D One_nat_def)
  ultimately show ?case
    using h by (simp add: Let_def del: utf8_head.simps)
qed

lemma utf8_valid_ascii: "\<forall>c\<in>set s. byte c < 128 \<Longrightarrow> utf8_valid s"
  by (induction s) (auto simp: Let_def utf8_len_def)

end
