(* ===== verification/Parse.thy ===== *)
theory Parse
  imports RustStr "HOL-Library.Monad_Syntax"
begin

unbundle bit_operations_syntax

text \<open>
  Parsing of \<open>ls -l\<close> output (\<open>src/src/parse.rs\<close>): mode strings, dates, whole lines, file
  names and symbolic link targets. \<open>mktime\<close>, \<open>getpwnam\<close> and \<open>getgrnam\<close> belong to the C
  library and are the parameter \<open>libc\<close>. A Rust panic is the value \<open>Panic\<close>.
\<close>

subsection \<open>Mode bits\<close>

definition S_IFMT :: u32 where "S_IFMT = 0xF000"
definition S_IFSOCK :: u32 where "S_IFSOCK = 0xC000"
definition S_IFLNK :: u32 where "S_IFLNK = 0xA000"
definition S_IFREG :: u32 where "S_IFREG = 0x8000"
definition S_IFBLK :: u32 where "S_IFBLK = 0x6000"
definition S_IFDIR :: u32 where "S_IFDIR = 0x4000"
definition S_IFCHR :: u32 where "S_IFCHR = 0x2000"
definition S_IFIFO :: u32 where "S_IFIFO = 0x1000"
definition S_ISUID :: u32 where "S_ISUID = 0x800"
definition S_ISGID :: u32 where "S_ISGID = 0x400"
definition S_ISVTX :: u32 where "S_ISVTX = 0x200"
definition S_IRUSR :: u32 where "S_IRUSR = 0x100"
definition S_IWUSR :: u32 where "S_IWUSR = 0x80"
definition S_IXUSR :: u32 where "S_IXUSR = 0x40"
definition S_IRGRP :: u32 where "S_IRGRP = 0x20"
definition S_IWGRP :: u32 where "S_IWGRP = 0x10"
definition S_IXGRP :: u32 where "S_IXGRP = 0x8"
definition S_IROTH :: u32 where "S_IROTH = 0x4"
definition S_IWOTH :: u32 where "S_IWOTH = 0x2"
definition S_IXOTH :: u32 where "S_IXOTH = 0x1"

lemmas file_type_defs =
  S_IFMT_def S_IFSOCK_def S_IFLNK_def S_IFREG_def S_IFBLK_def S_IFDIR_def S_IFCHR_def S_IFIFO_def

lemmas perm_defs =
  S_ISUID_def S_ISGID_def S_ISVTX_def S_IRUSR_def S_IWUSR_def S_IXUSR_def
  S_IRGRP_def S_IWGRP_def S_IXGRP_def S_IROTH_def S_IWOTH_def S_IXOTH_def

definition type_bits :: "char \<Rightarrow> u32" where
  "type_bits c =
     (if c = CHR ''s'' then S_IFSOCK else if c = CHR ''l'' then S_IFLNK
      else if c = CHR ''-'' then S_IFREG else if c = CHR ''d'' then S_IFDIR
      else if c = CHR ''b'' then S_IFBLK else if c = CHR ''c'' then S_IFCHR
      else if c = CHR ''p'' then S_IFIFO else 0)"

definition flag_bits :: "char \<Rightarrow> u32 \<Rightarrow> char \<Rightarrow> u32" where
  "flag_bits want bits c = (if c = want then bits else 0)"

text \<open>The execute column: \<open>x\<close>, the special bit with (\<open>lo\<close>) or without (\<open>up\<close>) execution.\<close>

definition exec_bits :: "char \<Rightarrow> char \<Rightarrow> u32 \<Rightarrow> u32 \<Rightarrow> char \<Rightarrow> u32" where
  "exec_bits lo up special x c =
     (if c = CHR ''x'' then x else if c = lo then special OR x
      else if c = up then special else 0)"

definition parse_mode_string :: "string \<Rightarrow> u32" where
  "parse_mode_string b =
     (if length b < 10 then 0
      else type_bits (b ! 0)
        OR flag_bits (CHR ''r'') S_IRUSR (b ! 1)
        OR flag_bits (CHR ''w'') S_IWUSR (b ! 2)
        OR exec_bits (CHR ''s'') (CHR ''S'') S_ISUID S_IXUSR (b ! 3)
        OR flag_bits (CHR ''r'') S_IRGRP (b ! 4)
        OR flag_bits (CHR ''w'') S_IWGRP (b ! 5)
        OR exec_bits (CHR ''s'') (CHR ''S'') S_ISGID S_IXGRP (b ! 6)
        OR flag_bits (CHR ''r'') S_IROTH (b ! 7)
        OR flag_bits (CHR ''w'') S_IWOTH (b ! 8)
        OR exec_bits (CHR ''t'') (CHR ''T'') S_ISVTX S_IXOTH (b ! 9))"

definition is_valid_ls_output :: "string \<Rightarrow> bool" where
  "is_valid_ls_output b =
     (if length b < 2 then False
      else if b ! 0 = slash then False
      else if b ! 1 \<noteq> CHR ''r'' \<and> b ! 1 \<noteq> CHR ''-'' then False
      else True)"

subsection \<open>The C library, metadata\<close>

record tm =
  tm_year :: int
  tm_mon :: int
  tm_mday :: int
  tm_hour :: int
  tm_min :: int
  tm_sec :: int
  tm_isdst :: int

record libc =
  mktime :: "tm \<Rightarrow> int"
  getpwnam :: "string \<Rightarrow> u32 option"
  getgrnam :: "string \<Rightarrow> u32 option"

text \<open>A \<open>SystemTime\<close> is a number of nanoseconds after (or before) the epoch.\<close>

record file_meta =
  m_mode :: u32
  m_nlink :: u32
  m_uid :: u32
  m_gid :: u32
  m_size :: u64
  m_rdev :: u64
  m_mtime :: int
  m_raw_line :: string

text \<open>\<open>CString::new\<close> fails on an inner NUL byte; a missing entry falls back to 98.\<close>

definition resolve_uid :: "libc \<Rightarrow> string \<Rightarrow> u32" where
  "resolve_uid L name =
     (if CHR 0x00 \<in> set name then 98
      else case getpwnam L name of None \<Rightarrow> 98 | Some u \<Rightarrow> u)"

definition resolve_gid :: "libc \<Rightarrow> string \<Rightarrow> u32" where
  "resolve_gid L name =
     (if CHR 0x00 \<in> set name then 98
      else case getgrnam L name of None \<Rightarrow> 98 | Some g \<Rightarrow> g)"

subsection \<open>Dates\<close>

text \<open>\<open>i32\<close> subtraction in a release build wraps around.\<close>

definition i32_sub :: "int \<Rightarrow> int \<Rightarrow> int" where
  "i32_sub a b = signed_take_bit 31 (a - b)"

text \<open>
  \<open>UNIX_EPOCH + Duration::from_secs(secs)\<close>: the seconds of a \<open>SystemTime\<close> are an \<open>i64\<close>,
  and the addition panics when they overflow.
\<close>

definition epoch_plus_secs :: "u64 \<Rightarrow> int run" where
  "epoch_plus_secs secs = (if uint secs < 2 ^ 63 then Done (uint secs * 1000000000) else Panic)"

definition date_tm :: "int \<Rightarrow> int \<Rightarrow> int \<Rightarrow> int \<Rightarrow> int \<Rightarrow> tm" where
  "date_tm year mon mday hour minute =
     \<lparr>tm_year = i32_sub year 1900, tm_mon = i32_sub mon 1, tm_mday = mday,
      tm_hour = hour, tm_min = minute, tm_sec = 0, tm_isdst = -1\<rparr>"

definition date_fields :: "string \<Rightarrow> string \<Rightarrow> tm option" where
  "date_fields date_str time_str =
     (let ymd = split_on (CHR ''-'') date_str;
          hm = split_on (CHR '':'') time_str
      in if length ymd < 3 \<or> length hm < 2 then None
         else do {
           year \<leftarrow> parse_i32 (ymd ! 0);
           mon \<leftarrow> parse_i32 (ymd ! 1);
           mday \<leftarrow> parse_i32 (ymd ! 2);
           hour \<leftarrow> parse_i32 (hm ! 0);
           minute \<leftarrow> parse_i32 (hm ! 1);
           Some (date_tm year mon mday hour minute)
         })"

definition parse_datetime :: "libc \<Rightarrow> string \<Rightarrow> string \<Rightarrow> int option run" where
  "parse_datetime L date_str time_str =
     (case date_fields date_str time_str of
        None \<Rightarrow> Done None
      | Some tm \<Rightarrow>
          (let epoch_secs = mktime L tm in
           if epoch_secs = -1 then Done None
           else run_bind (epoch_plus_secs (word_of_int epoch_secs)) (\<lambda>t. Done (Some t))))"

subsection \<open>Lines\<close>

text \<open>\<open>fields.get(i)\<close>.\<close>

definition get_nth :: "'a list \<Rightarrow> nat \<Rightarrow> 'a option" where
  "get_nth xs i = (if i < length xs then Some (xs ! i) else None)"

definition unwrap_or :: "'a \<Rightarrow> 'a option \<Rightarrow> 'a" where
  "unwrap_or d x = (case x of None \<Rightarrow> d | Some v \<Rightarrow> v)"

text \<open>The size or device number and the index of the date field, by file type.\<close>

definition size_rdev_date :: "u32 \<Rightarrow> nat \<Rightarrow> string list \<Rightarrow> (u64 \<times> u64 \<times> nat) option" where
  "size_rdev_date file_type uid_offset cols =
     (if file_type = S_IFBLK \<or> file_type = S_IFCHR then do {
        major_str \<leftarrow> get_nth cols (uid_offset + 3);
        minor_str \<leftarrow> get_nth cols (uid_offset + 4);
        let major = unwrap_or 0 (parse_u64 (trim_end_char (CHR '','') major_str));
        let minor = unwrap_or 0 (parse_u64 minor_str);
        Some (0, major * 256 + minor, uid_offset + 5)
      }
      else if file_type = S_IFREG then do {
        size_str \<leftarrow> get_nth cols (uid_offset + 3);
        Some (unwrap_or 0 (parse_u64 size_str), 0, uid_offset + 4)
      }
      else do {
        candidate \<leftarrow> get_nth cols (uid_offset + 3);
        Some (0, 0, if CHR ''-'' \<in> set candidate then uid_offset + 3 else uid_offset + 4)
      })"

text \<open>The second field is a link count when it reads as a positive \<open>u32\<close>.\<close>

definition detect_nlink :: "string \<Rightarrow> u32 \<times> nat" where
  "detect_nlink field =
     (case parse_u32 10 field of
        Some n \<Rightarrow> if 0 < n then (n, 1) else (1, 0)
      | None \<Rightarrow> (1, 0))"

definition parse_ls_line :: "libc \<Rightarrow> string \<Rightarrow> file_meta option run" where
  "parse_ls_line L line =
     (let cols = split_whitespace line in
      if length cols < 6 then Done None
      else if \<not> is_valid_ls_output (cols ! 0) then Done None
      else
        let md = parse_mode_string (cols ! 0);
            (nl, uid_offset) = detect_nlink (cols ! 1)
        in case do {
             uid_field \<leftarrow> get_nth cols (uid_offset + 1);
             gid_field \<leftarrow> get_nth cols (uid_offset + 2);
             (sz, rd, date_idx) \<leftarrow> size_rdev_date (md AND S_IFMT) uid_offset cols;
             date_str \<leftarrow> get_nth cols date_idx;
             time_str \<leftarrow> get_nth cols (date_idx + 1);
             Some (uid_field, gid_field, sz, rd, date_str, time_str)
           } of
             None \<Rightarrow> Done None
           | Some (uid_field, gid_field, sz, rd, date_str, time_str) \<Rightarrow>
               run_bind (parse_datetime L date_str time_str) (\<lambda>t. Done (map_option (\<lambda>mt.
                 \<lparr>m_mode = md, m_nlink = nl, m_uid = resolve_uid L uid_field,
                  m_gid = resolve_gid L gid_field, m_size = sz, m_rdev = rd, m_mtime = mt,
                  m_raw_line = line\<rparr>) t)))"

subsection \<open>Names and link targets\<close>

definition extract_filename :: "string \<Rightarrow> string option run" where
  "extract_filename line =
     (case find_char (CHR '':'') line of
        None \<Rightarrow> Done None
      | Some colon_pos \<Rightarrow>
          (let name_start = colon_pos + 4 in
           if name_start > length line then Done None
           else run_bind (slice_from line name_start) (\<lambda>name.
             run_bind (case find_sub '' -> '' name of
                         Some pos \<Rightarrow> slice_to name pos | None \<Rightarrow> Done name)
               (\<lambda>name. Done (if name = [] then None else Some name)))))"

definition parse_symlink_target :: "string \<Rightarrow> nat \<Rightarrow> string option run" where
  "parse_symlink_target ls_line num_slashes_in_path =
     (case find_sub '' -> '' ls_line of
        None \<Rightarrow> Done None
      | Some arrow_pos \<Rightarrow>
          run_bind (slice_from ls_line (arrow_pos + 4)) (\<lambda>target. Done (
            if target = [] then None
            else if prefix [slash] target then
              Some (repeat_str ''../'' (num_slashes_in_path - 1) @ trim_start_char slash target)
            else Some target)))"

subsection \<open>The mode column: round trip\<close>

text \<open>How \<open>ls -l\<close> prints a mode: the specification of the first column.\<close>

definition ls_type_char :: "u32 \<Rightarrow> char" where
  "ls_type_char m =
     (let t = m AND S_IFMT in
      if t = S_IFSOCK then CHR ''s'' else if t = S_IFLNK then CHR ''l''
      else if t = S_IFREG then CHR ''-'' else if t = S_IFDIR then CHR ''d''
      else if t = S_IFBLK then CHR ''b'' else if t = S_IFCHR then CHR ''c''
      else if t = S_IFIFO then CHR ''p'' else CHR ''?'')"

definition flag_char :: "u32 \<Rightarrow> u32 \<Rightarrow> char \<Rightarrow> char" where
  "flag_char m b c = (if m AND b = 0 then CHR ''-'' else c)"

definition exec_char :: "u32 \<Rightarrow> u32 \<Rightarrow> u32 \<Rightarrow> char \<Rightarrow> char \<Rightarrow> char" where
  "exec_char m special x lo up =
     (if m AND special = 0 then flag_char m x (CHR ''x'')
      else if m AND x = 0 then up else lo)"

definition ls_mode_string :: "u32 \<Rightarrow> string" where
  "ls_mode_string m =
     [ls_type_char m,
      flag_char m S_IRUSR (CHR ''r''), flag_char m S_IWUSR (CHR ''w''),
      exec_char m S_ISUID S_IXUSR (CHR ''s'') (CHR ''S''),
      flag_char m S_IRGRP (CHR ''r''), flag_char m S_IWGRP (CHR ''w''),
      exec_char m S_ISGID S_IXGRP (CHR ''s'') (CHR ''S''),
      flag_char m S_IROTH (CHR ''r''), flag_char m S_IWOTH (CHR ''w''),
      exec_char m S_ISVTX S_IXOTH (CHR ''t'') (CHR ''T'')]"

definition known_type :: "u32 \<Rightarrow> bool" where
  "known_type m = (m AND S_IFMT \<in>
     {S_IFSOCK, S_IFLNK, S_IFREG, S_IFDIR, S_IFBLK, S_IFCHR, S_IFIFO})"

lemma and_exp_cases: "(m :: u32) AND 2 ^ n = (if bit m n then 2 ^ n else 0)"
  by (rule bit_eqI) (auto simp: bit_simps)

lemma single_bit_masks:
  "S_ISUID = 2 ^ 11" "S_ISGID = 2 ^ 10" "S_ISVTX = 2 ^ 9"
  "S_IRUSR = 2 ^ 8" "S_IWUSR = 2 ^ 7" "S_IXUSR = 2 ^ 6"
  "S_IRGRP = 2 ^ 5" "S_IWGRP = 2 ^ 4" "S_IXGRP = 2 ^ 3"
  "S_IROTH = 2 ^ 2" "S_IWOTH = 2 ^ 1" "S_IXOTH = 2 ^ 0"
  by (simp_all add: perm_defs)

lemma flag_bits_char:
  "m AND b = 0 \<or> m AND b = b \<Longrightarrow> c \<noteq> CHR ''-'' \<Longrightarrow> flag_bits c b (flag_char m b c) = m AND b"
  by (auto simp: flag_bits_def flag_char_def)

lemma exec_bits_char:
  "m AND sp = 0 \<or> m AND sp = sp \<Longrightarrow> m AND x = 0 \<or> m AND x = x \<Longrightarrow>
   distinct [CHR ''x'', CHR ''-'', lo, up] \<Longrightarrow>
   exec_bits lo up sp x (exec_char m sp x lo up) = (m AND sp) OR (m AND x)"
  by (auto simp: exec_bits_def exec_char_def flag_char_def)

lemma mask_cases:
  "m AND S_ISUID = 0 \<or> m AND S_ISUID = S_ISUID" "m AND S_ISGID = 0 \<or> m AND S_ISGID = S_ISGID"
  "m AND S_ISVTX = 0 \<or> m AND S_ISVTX = S_ISVTX" "m AND S_IRUSR = 0 \<or> m AND S_IRUSR = S_IRUSR"
  "m AND S_IWUSR = 0 \<or> m AND S_IWUSR = S_IWUSR" "m AND S_IXUSR = 0 \<or> m AND S_IXUSR = S_IXUSR"
  "m AND S_IRGRP = 0 \<or> m AND S_IRGRP = S_IRGRP" "m AND S_IWGRP = 0 \<or> m AND S_IWGRP = S_IWGRP"
  "m AND S_IXGRP = 0 \<or> m AND S_IXGRP = S_IXGRP" "m AND S_IROTH = 0 \<or> m AND S_IROTH = S_IROTH"
  "m AND S_IWOTH = 0 \<or> m AND S_IWOTH = S_IWOTH" "m AND S_IXOTH = 0 \<or> m AND S_IXOTH = S_IXOTH"
  unfolding single_bit_masks and_exp_cases by auto

lemma type_bits_char: "known_type m \<Longrightarrow> type_bits (ls_type_char m) = m AND S_IFMT"
  by (auto simp: known_type_def ls_type_char_def type_bits_def Let_def file_type_defs)

lemma ls_mode_string_length [simp]: "length (ls_mode_string m) = 10"
  by (simp add: ls_mode_string_def)

lemma parse_ls_mode_string:
  assumes "known_type m"
  shows "parse_mode_string (ls_mode_string m) = m AND 0xFFFF"
proof -
  have "parse_mode_string (ls_mode_string m) =
      (m AND S_IFMT) OR (m AND S_IRUSR) OR (m AND S_IWUSR) OR ((m AND S_ISUID) OR (m AND S_IXUSR))
      OR (m AND S_IRGRP) OR (m AND S_IWGRP) OR ((m AND S_ISGID) OR (m AND S_IXGRP))
      OR (m AND S_IROTH) OR (m AND S_IWOTH) OR ((m AND S_ISVTX) OR (m AND S_IXOTH))"
    using assms mask_cases[of m]
    by (simp add: parse_mode_string_def ls_mode_string_def type_bits_char flag_bits_char
        exec_bits_char)
  also have "\<dots> = m AND (S_IFMT OR S_IRUSR OR S_IWUSR OR (S_ISUID OR S_IXUSR)
      OR S_IRGRP OR S_IWGRP OR (S_ISGID OR S_IXGRP) OR S_IROTH OR S_IWOTH OR (S_ISVTX OR S_IXOTH))"
    by (simp only: bit.conj_disj_distrib)
  also have "\<dots> = m AND 0xFFFF"
    by (simp add: file_type_defs perm_defs)
  finally show ?thesis .
qed

subsection \<open>Columns\<close>

definition graphic :: "char \<Rightarrow> bool" where
  "graphic c = (33 \<le> byte c \<and> byte c < 127)"

definition word_ok :: "string \<Rightarrow> bool" where
  "word_ok w = (w \<noteq> [] \<and> list_all graphic w)"

definition columns :: "(string \<times> nat) list \<Rightarrow> string" where
  "columns ws = concat (map (\<lambda>(w, k). w @ replicate (Suc k) (CHR 0x20)) ws)"

lemma ws_width_graphic: "graphic c \<Longrightarrow> ws_width (c # cs) = 0"
  by (cases "c # cs" rule: ws_width.cases)
    (auto simp: graphic_def ascii_ws_def ws2_def ws3_def)

lemma ws_width_space: "ws_width (CHR 0x20 # cs) = 1"
  by (cases "CHR 0x20 # cs" rule: ws_width.cases) (auto simp: ascii_ws_def byte_def)

lemma split_ws_word: "list_all graphic w \<Longrightarrow> split_ws cur (w @ r) = split_ws (cur @ w) r"
  by (induction w arbitrary: cur) (simp_all add: ws_width_graphic Let_def)

lemma split_ws_space:
  "split_ws cur (CHR 0x20 # r) = (if cur = [] then [] else [cur]) @ split_ws [] r"
  by (simp add: ws_width_space Let_def del: ws_width.simps)

lemma split_ws_spaces: "split_ws [] (replicate k (CHR 0x20) @ r) = split_ws [] r"
  by (induction k) (simp_all add: split_ws_space del: split_ws.simps)

lemma split_ws_column:
  assumes "word_ok w"
  shows "split_ws [] ((w @ replicate (Suc k) (CHR 0x20)) @ r) = w # split_ws [] r"
proof -
  have "split_ws [] ((w @ replicate (Suc k) (CHR 0x20)) @ r)
      = split_ws w (CHR 0x20 # replicate k (CHR 0x20) @ r)"
    using assms by (simp add: word_ok_def split_ws_word)
  also have "\<dots> = w # split_ws [] r"
    using assms by (simp only: split_ws_space split_ws_spaces) (simp add: word_ok_def)
  finally show ?thesis .
qed

lemma split_columns:
  "list_all (\<lambda>p. word_ok (fst p)) ws \<Longrightarrow>
   split_whitespace (columns ws @ r) = map fst ws @ split_whitespace r"
proof (induction ws)
  case Nil
  then show ?case by (simp add: columns_def)
next
  case (Cons p ws)
  obtain w k where p: "p = (w, k)" by (cases p)
  with Cons.prems have "word_ok w" by simp
  have "split_whitespace (columns (p # ws) @ r)
      = split_ws [] ((w @ replicate (Suc k) (CHR 0x20)) @ (columns ws @ r))"
    by (simp add: split_whitespace_def columns_def p)
  also have "\<dots> = w # split_whitespace (columns ws @ r)"
    using \<open>word_ok w\<close> by (simp only: split_ws_column split_whitespace_def)
  finally show ?case using Cons p by simp
qed

subsection \<open>Printed entries\<close>

text \<open>
  The specification of the two formats \<open>ls -l\<close> has on Android: with a link count (newer
  toybox) or without it, with any padding between the columns. A regular file has a size, a
  device its two numbers, any other file a size or none.
\<close>

record ls_entry =
  e_mode :: u32
  e_nlink :: "u32 option"
  e_owner :: string
  e_group :: string
  e_size :: "u64 option"
  e_major :: nat
  e_minor :: nat
  e_year :: nat
  e_month :: nat
  e_day :: nat
  e_hour :: nat
  e_minute :: nat
  e_name :: string
  e_target :: "string option"

definition is_dev :: "u32 \<Rightarrow> bool" where
  "is_dev m = (m AND S_IFMT = S_IFBLK \<or> m AND S_IFMT = S_IFCHR)"

definition is_reg :: "u32 \<Rightarrow> bool" where
  "is_reg m = (m AND S_IFMT = S_IFREG)"

definition show_pad :: "nat \<Rightarrow> nat \<Rightarrow> string" where
  "show_pad w n = pad_zero w (show_nat n)"

definition date_col :: "ls_entry \<Rightarrow> string" where
  "date_col e = show_pad 4 (e_year e) @ ''-'' @ show_pad 2 (e_month e) @ ''-'' @ show_pad 2 (e_day e)"

definition time_col :: "ls_entry \<Rightarrow> string" where
  "time_col e = show_pad 2 (e_hour e) @ '':'' @ show_pad 2 (e_minute e)"

definition size_cols :: "ls_entry \<Rightarrow> string list" where
  "size_cols e =
     (if is_dev (e_mode e) then [show_nat (e_major e) @ '','', show_nat (e_minor e)]
      else case e_size e of None \<Rightarrow> [] | Some n \<Rightarrow> [show_nat (unat n)])"

definition nlink_cols :: "ls_entry \<Rightarrow> string list" where
  "nlink_cols e = (case e_nlink e of None \<Rightarrow> [] | Some n \<Rightarrow> [show_nat (unat n)])"

definition entry_cols :: "ls_entry \<Rightarrow> string list" where
  "entry_cols e =
     [ls_mode_string (e_mode e)] @ nlink_cols e @ [e_owner e, e_group e] @ size_cols e
     @ [date_col e]"

text \<open>The rest of the line: the name, with the target of a symbolic link.\<close>

definition name_col :: "ls_entry \<Rightarrow> string" where
  "name_col e = e_name e @ (case e_target e of None \<Rightarrow> [] | Some t \<Rightarrow> '' -> '' @ t)"

text \<open>The columns before the time are padded by \<open>pad\<close>; one blank follows the time.\<close>

definition print_ls :: "(nat \<Rightarrow> nat) \<Rightarrow> ls_entry \<Rightarrow> string" where
  "print_ls pad e =
     columns (zip (entry_cols e) (map pad [0..<length (entry_cols e)]))
     @ time_col e @ '' '' @ name_col e"

definition entry_ok :: "ls_entry \<Rightarrow> bool" where
  "entry_ok e =
     (known_type (e_mode e)
      \<and> word_ok (e_owner e) \<and> word_ok (e_group e)
      \<and> (case e_nlink e of None \<Rightarrow> detect_nlink (e_owner e) = (1, 0) | Some n \<Rightarrow> 0 < n)
      \<and> (is_reg (e_mode e) \<longrightarrow> e_size e \<noteq> None)
      \<and> split_whitespace (name_col e) \<noteq> []
      \<and> e_major e < 2 ^ 32 \<and> e_minor e < 2 ^ 32
      \<and> e_year e < 10000 \<and> e_month e < 100 \<and> e_day e < 100 \<and> e_hour e < 100 \<and> e_minute e < 100)"

definition entry_tm :: "ls_entry \<Rightarrow> tm" where
  "entry_tm e = \<lparr>tm_year = int (e_year e) - 1900, tm_mon = int (e_month e) - 1,
     tm_mday = int (e_day e), tm_hour = int (e_hour e), tm_min = int (e_minute e),
     tm_sec = 0, tm_isdst = -1\<rparr>"

text \<open>The metadata the line stands for, modified at \<open>t\<close> seconds after the epoch.\<close>

definition entry_meta :: "libc \<Rightarrow> ls_entry \<Rightarrow> int \<Rightarrow> string \<Rightarrow> file_meta" where
  "entry_meta L e t line =
     \<lparr>m_mode = e_mode e AND 0xFFFF,
      m_nlink = (case e_nlink e of None \<Rightarrow> 1 | Some n \<Rightarrow> n),
      m_uid = resolve_uid L (e_owner e), m_gid = resolve_gid L (e_group e),
      m_size = (if is_reg (e_mode e) then the (e_size e) else 0),
      m_rdev = (if is_dev (e_mode e) then of_nat (e_major e * 256 + e_minor e) else 0),
      m_mtime = t * 1000000000, m_raw_line = line\<rparr>"

subsection \<open>Printed numbers and dates read back\<close>

lemma graphic_digit: "48 \<le> byte c \<Longrightarrow> byte c \<le> 57 \<Longrightarrow> graphic c"
  by (simp add: graphic_def)

lemma show_nat_nonempty [simp]: "show_nat n \<noteq> []"
  by (subst show_nat.simps) simp

lemma show_pad_digits: "c \<in> set (show_pad w n) \<Longrightarrow> 48 \<le> byte c \<and> byte c \<le> 57"
  by (auto simp: show_pad_def pad_zero_def dest: show_nat_digits split: if_splits)
    (auto simp: byte_def)

lemma show_pad_nonempty [simp]: "show_pad w n \<noteq> []"
  by (simp add: show_pad_def pad_zero_def)

lemma show_nat_word [simp]: "word_ok (show_nat n)"
  by (auto simp: word_ok_def list_all_iff intro: graphic_digit dest: show_nat_digits)

lemma digits_no_sign:
  assumes "\<And>c. c \<in> set s \<Longrightarrow> 48 \<le> byte c \<and> byte c \<le> 57"
  shows "CHR 0x2D \<notin> set s \<and> CHR 0x2B \<notin> set s \<and> CHR 0x3A \<notin> set s \<and> CHR 0x2C \<notin> set s"
  using assms[of "CHR 0x2D"] assms[of "CHR 0x2B"] assms[of "CHR 0x3A"] assms[of "CHR 0x2C"]
  by (auto simp: byte_def)

lemma show_nat_no_sign:
  "CHR 0x2D \<notin> set (show_nat n) \<and> CHR 0x2B \<notin> set (show_nat n)
   \<and> CHR 0x3A \<notin> set (show_nat n) \<and> CHR 0x2C \<notin> set (show_nat n)"
  by (rule digits_no_sign) (rule show_nat_digits)

lemma show_pad_no_sign:
  "CHR 0x2D \<notin> set (show_pad w n) \<and> CHR 0x2B \<notin> set (show_pad w n)
   \<and> CHR 0x3A \<notin> set (show_pad w n) \<and> CHR 0x2C \<notin> set (show_pad w n)"
  by (rule digits_no_sign) (rule show_pad_digits)

lemma parse_digits_zeros:
  "parse_digits 10 m 0 (replicate k (CHR ''0'') @ s) = parse_digits 10 m 0 s"
  by (induction k) (simp_all add: digit_val_def byte_def)

lemma parse_digits_show_pad: "n \<le> m \<Longrightarrow> parse_digits 10 m 0 (show_pad w n) = Some n"
  by (simp add: show_pad_def pad_zero_def parse_digits_zeros parse_digits_show_nat)

lemma parse_unsigned_digits:
  "s \<noteq> [] \<Longrightarrow> CHR 0x2B \<notin> set s \<Longrightarrow> parse_unsigned r m s = parse_digits r m 0 s"
  by (cases s) (auto simp del: parse_digits.simps)

lemma parse_i32_digits:
  "s \<noteq> [] \<Longrightarrow> CHR 0x2B \<notin> set s \<Longrightarrow> CHR 0x2D \<notin> set s \<Longrightarrow>
   parse_i32 s = map_option int (parse_digits 10 (2 ^ 31 - 1) 0 s)"
  by (cases s) (auto simp del: parse_digits.simps)

lemma parse_i32_show_pad: "n < 2 ^ 31 \<Longrightarrow> parse_i32 (show_pad w n) = Some (int n)"
  using show_pad_no_sign[of w n] by (simp add: parse_i32_digits parse_digits_show_pad)

lemma parse_u32_show_nat: "parse_u32 10 (show_nat (unat (n :: u32))) = Some n"
proof -
  have "unat n \<le> 2 ^ 32 - 1" using unsigned_less[of n, where ?'a = nat] by simp
  then show ?thesis
    using show_nat_no_sign[of "unat n"]
    by (simp add: parse_u32_def parse_unsigned_digits parse_digits_show_nat)
qed

lemma parse_u64_show_nat: "n < 2 ^ 64 \<Longrightarrow> parse_u64 (show_nat n) = Some (of_nat n)"
  using show_nat_no_sign[of n]
  by (simp add: parse_u64_def parse_unsigned_digits parse_digits_show_nat)

lemma i32_sub_small: "- (2 ^ 31) \<le> a - b \<Longrightarrow> a - b < 2 ^ 31 \<Longrightarrow> i32_sub a b = a - b"
  by (simp add: i32_sub_def signed_take_bit_int_eq_self)

lemma split_on_three:
  "x \<notin> set a \<Longrightarrow> x \<notin> set b \<Longrightarrow> x \<notin> set c \<Longrightarrow> split_on x (a @ [x] @ b @ [x] @ c) = [a, b, c]"
  by (simp add: split_on_append split_on_no_sep)

lemma date_fields_printed:
  assumes "entry_ok e"
  shows "date_fields (date_col e) (time_col e) = Some (entry_tm e)"
proof -
  have ymd: "split_on (CHR ''-'') (date_col e)
      = [show_pad 4 (e_year e), show_pad 2 (e_month e), show_pad 2 (e_day e)]"
    using show_pad_no_sign by (auto simp: date_col_def intro: split_on_three[simplified])
  have hm: "split_on (CHR '':'') (time_col e) = [show_pad 2 (e_hour e), show_pad 2 (e_minute e)]"
    using show_pad_no_sign by (simp add: time_col_def split_on_append split_on_no_sep)
  show ?thesis
    using assms
    by (simp add: date_fields_def ymd hm parse_i32_show_pad date_tm_def i32_sub_small
        entry_tm_def entry_ok_def)
qed

lemma date_col_word: "word_ok (date_col e)"
  using show_pad_digits
  by (fastforce simp: word_ok_def list_all_iff date_col_def graphic_def byte_def)

lemma time_col_word: "word_ok (time_col e)"
  using show_pad_digits
  by (fastforce simp: word_ok_def list_all_iff time_col_def graphic_def byte_def)

lemma ls_mode_string_word: "word_ok (ls_mode_string m)"
  by (simp add: word_ok_def list_all_iff ls_mode_string_def ls_type_char_def flag_char_def
      exec_char_def graphic_def byte_def Let_def)

lemma mode_string_valid: "known_type m \<Longrightarrow> is_valid_ls_output (ls_mode_string m)"
  by (auto simp: is_valid_ls_output_def ls_mode_string_def ls_type_char_def flag_char_def
      known_type_def Let_def)

subsection \<open>Whole lines read back\<close>

lemma split_print_ls:
  assumes "entry_ok e"
  shows "split_whitespace (print_ls pad e)
    = entry_cols e @ [time_col e] @ split_whitespace (name_col e)"
proof -
  let ?ws = "zip (entry_cols e) (map pad [0..<length (entry_cols e)])"
  have comma: "word_ok (show_nat n @ '','')" for n
    using show_nat_word[of n] by (simp add: word_ok_def graphic_def byte_def)
  have cols: "list_all word_ok (entry_cols e)"
    using assms
    by (simp add: entry_cols_def nlink_cols_def size_cols_def entry_ok_def date_col_word
        ls_mode_string_word comma split: option.splits)
  have fst: "map fst ?ws = entry_cols e" by simp
  then have "list_all (\<lambda>p. word_ok (fst p)) ?ws"
    using cols list.pred_map[of word_ok fst ?ws] by (simp add: comp_def)
  moreover have "word_ok (time_col e)" by (rule time_col_word)
  ultimately show ?thesis
    using split_columns[of ?ws "time_col e @ '' '' @ name_col e"]
      split_columns[of "[(time_col e, 0)]" "name_col e"] fst
    by (simp add: print_ls_def columns_def)
qed

lemma detect_nlink_show: "0 < n \<Longrightarrow> detect_nlink (show_nat (unat n)) = (n, 1)"
  by (simp add: detect_nlink_def parse_u32_show_nat)

lemma dropWhile_absent: "x \<notin> set xs \<Longrightarrow> dropWhile (\<lambda>c. c = x) xs = xs"
  by (cases xs) auto

lemma trim_end_char_append: "x \<notin> set s \<Longrightarrow> trim_end_char x (s @ [x]) = s"
  by (simp add: trim_end_char_def dropWhile_absent)

lemma trim_end_comma: "trim_end_char (CHR '','') (show_nat n @ '','') = show_nat n"
  using show_nat_no_sign[of n] by (intro trim_end_char_append) simp

lemma dash_in_date: "CHR ''-'' \<in> set (date_col e)"
  by (simp add: date_col_def)

lemma type_mask: "(m AND 0xFFFF) AND S_IFMT = m AND S_IFMT" for m :: u32
  by (simp add: S_IFMT_def and.assoc)

lemma is_dev_not_reg: "is_dev m \<Longrightarrow> \<not> is_reg m"
  by (auto simp: is_dev_def is_reg_def file_type_defs)

lemmas entry_col_defs = entry_cols_def nlink_cols_def size_cols_def

text \<open>The size, the device number and the position of the date, over the printed columns.\<close>

lemma size_rdev_date_printed:
  fixes rest :: "string list"
  assumes "entry_ok e"
  defines "cols \<equiv> entry_cols e @ [time_col e] @ rest"
  shows "\<exists>i. size_rdev_date (e_mode e AND S_IFMT) (length (nlink_cols e)) cols
      = Some (if is_reg (e_mode e) then the (e_size e) else 0,
              if is_dev (e_mode e) then of_nat (e_major e * 256 + e_minor e) else 0, i)
    \<and> get_nth cols i = Some (date_col e) \<and> get_nth cols (i + 1) = Some (time_col e)"
proof -
  let ?o = "length (nlink_cols e)"
  have pre: "entry_cols e = ([ls_mode_string (e_mode e)] @ nlink_cols e @ [e_owner e, e_group e])
      @ size_cols e @ [date_col e]" (is "_ = ?p @ _")
    by (simp add: entry_cols_def)
  have lp: "length ?p = ?o + 3" by simp
  have nth: "get_nth cols (?o + 3 + k) = get_nth (size_cols e @ [date_col e, time_col e] @ rest) k"
    for k
    using lp by (simp add: get_nth_def cols_def pre nth_append)
  have nth0: "get_nth cols (?o + 3) = get_nth (size_cols e @ [date_col e, time_col e] @ rest) 0"
    using nth[of 0] by simp
  have idx: "?o + 4 = ?o + 3 + 1" "?o + 4 + 1 = ?o + 3 + 2" "?o + 5 = ?o + 3 + 2"
    "?o + 5 + 1 = ?o + 3 + 3" by simp_all
  consider (dev) "is_dev (e_mode e)" | (reg) "is_reg (e_mode e)" "\<not> is_dev (e_mode e)"
    | (other) "\<not> is_reg (e_mode e)" "\<not> is_dev (e_mode e)" by blast
  then show ?thesis
  proof cases
    case dev
    have "e_major e < 2 ^ 64" "e_minor e < 2 ^ 64" using assms(1) by (simp_all add: entry_ok_def)
    then show ?thesis
      using dev is_dev_not_reg[OF dev] nth[of 1] nth[of 2] nth[of 3] nth0
      by (intro exI[of _ "?o + 5"])
        (simp add: size_rdev_date_def is_dev_def is_reg_def idx size_cols_def get_nth_def
          trim_end_comma parse_u64_show_nat unwrap_or_def del: add_2_eq_Suc' add_Suc_right)
  next
    case reg
    then obtain n where "e_size e = Some n" using assms(1) by (auto simp: entry_ok_def)
    moreover have "unat n < 2 ^ 64" using unsigned_less[of n, where ?'a = nat] by simp
    ultimately show ?thesis
      using reg nth[of 1] nth[of 2] nth0
      by (intro exI[of _ "?o + 4"])
        (simp add: size_rdev_date_def is_dev_def is_reg_def idx size_cols_def get_nth_def
          parse_u64_show_nat unwrap_or_def del: add_2_eq_Suc' add_Suc_right)
  next
    case other
    show ?thesis
    proof (cases "e_size e")
      case None
      then show ?thesis
        using other nth[of 1] nth0 dash_in_date
        by (intro exI[of _ "?o + 3"])
          (simp add: size_rdev_date_def is_dev_def is_reg_def size_cols_def get_nth_def)
    next
      case (Some n)
      then show ?thesis
        using other nth[of 1] nth[of 2] nth0 show_nat_no_sign[of "unat n"]
        by (intro exI[of _ "?o + 4"])
          (simp add: size_rdev_date_def is_dev_def is_reg_def idx size_cols_def get_nth_def
            del: add_2_eq_Suc' add_Suc_right)
    qed
  qed
qed


lemma hd_cols:
  assumes "cols = entry_cols e @ [time_col e] @ rest"
  shows "cols ! 0 = ls_mode_string (e_mode e)"
    and "get_nth cols (length (nlink_cols e) + 1) = Some (e_owner e)"
    and "get_nth cols (length (nlink_cols e) + 2) = Some (e_group e)"
  using assms by (simp_all add: entry_cols_def get_nth_def nth_append)

lemma nlink_col:
  assumes "entry_ok e" and "cols = entry_cols e @ [time_col e] @ rest"
  shows "detect_nlink (cols ! 1)
      = (case e_nlink e of None \<Rightarrow> 1 | Some n \<Rightarrow> n, length (nlink_cols e))"
  using assms
  by (cases "e_nlink e") (simp_all add: entry_cols_def nlink_cols_def entry_ok_def detect_nlink_show)

lemma cols_length: "rest \<noteq> [] \<Longrightarrow> \<not> length (entry_cols e @ [time_col e] @ rest) < 6"
  by (cases rest) (simp_all add: entry_cols_def)

text \<open>
  The outcome of \<open>parse_datetime\<close> by what \<open>mktime\<close> returns: -1 is its error value, and a
  time before the epoch, cast to \<open>u64\<close>, overflows the addition to \<open>UNIX_EPOCH\<close>.
\<close>

definition time_outcome :: "int \<Rightarrow> int option run" where
  "time_outcome t =
     (if t = -1 then Done None else if t < 0 then Panic else Done (Some (t * 1000000000)))"

lemma epoch_plus_secs_outcome:
  assumes "- (2 ^ 63) \<le> t" and "t < 2 ^ 63"
  shows "epoch_plus_secs (word_of_int t) = (if t < 0 then Panic else Done (t * 1000000000))"
proof (cases "t < 0")
  case True
  have "t mod 2 ^ 64 = (t + 2 ^ 64) mod 2 ^ 64" by simp
  also have "\<dots> = t + 2 ^ 64"
    by (rule mod_pos_pos_trivial) (use assms True in simp_all)
  finally have "uint (word_of_int t :: u64) = t + 2 ^ 64"
    by (simp add: uint_word_of_int)
  with True assms show ?thesis by (simp add: epoch_plus_secs_def)
next
  case False
  with assms have "uint (word_of_int t :: u64) = t"
    by (simp add: uint_word_of_int_eq take_bit_int_eq_self)
  with False assms show ?thesis by (simp add: epoch_plus_secs_def)
qed

lemma parse_datetime_outcome:
  assumes "date_fields d t = Some tm" and "- (2 ^ 63) \<le> mktime L tm" and "mktime L tm < 2 ^ 63"
  shows "parse_datetime L d t = time_outcome (mktime L tm)"
  using assms
  by (simp add: parse_datetime_def time_outcome_def Let_def epoch_plus_secs_outcome)

lemma parse_print_ls:
  assumes "entry_ok e"
    and "- (2 ^ 63) \<le> mktime L (entry_tm e)" and "mktime L (entry_tm e) < 2 ^ 63"
  shows "parse_ls_line L (print_ls pad e) =
    (if mktime L (entry_tm e) = -1 then Done None
     else if mktime L (entry_tm e) < 0 then Panic
     else Done (Some (entry_meta L e (mktime L (entry_tm e)) (print_ls pad e))))"
proof -
  let ?rest = "split_whitespace (name_col e)"
  let ?cols = "entry_cols e @ [time_col e] @ ?rest"
  have rest: "?rest \<noteq> []" and known: "known_type (e_mode e)"
    using assms(1) by (auto simp: entry_ok_def)
  note hd = hd_cols[OF refl, of e ?rest] nlink_col[OF assms(1) refl, of ?rest]
    cols_length[OF rest, of e]
  obtain i where sz: "size_rdev_date (e_mode e AND S_IFMT) (length (nlink_cols e)) ?cols
      = Some (if is_reg (e_mode e) then the (e_size e) else 0,
              if is_dev (e_mode e) then of_nat (e_major e * 256 + e_minor e) else 0, i)"
    and i: "get_nth ?cols i = Some (date_col e)" "get_nth ?cols (i + 1) = Some (time_col e)"
    using size_rdev_date_printed[OF assms(1), of ?rest] by blast
  have md: "parse_mode_string (ls_mode_string (e_mode e)) AND S_IFMT = e_mode e AND S_IFMT"
    by (simp only: parse_ls_mode_string[OF known] type_mask)
  have dt: "parse_datetime L (date_col e) (time_col e) = time_outcome (mktime L (entry_tm e))"
    by (rule parse_datetime_outcome) (use assms date_fields_printed in auto)
  show ?thesis
    using sz i mode_string_valid[OF known] hd
    by (simp only: parse_ls_line_def split_print_ls[OF assms(1)] Let_def md prod.case
        bind.bind_lunit simp_thms if_False dt if_True option.case)
      (simp add: time_outcome_def entry_meta_def parse_ls_mode_string[OF known])
qed

subsection \<open>Character boundaries\<close>

lemma utf8_valid_hd: "utf8_valid (a # as) \<Longrightarrow> \<not> is_cont a"
  by (auto simp: Let_def is_cont_def utf8_len_def split: if_splits)

lemma utf8_head_ascii:
  assumes "snd (utf8_head (a # us @ c # v))" and "byte c < 128"
  shows "fst (utf8_head (a # us @ c # v)) \<le> Suc (length us)"
proof -
  have c: "\<not> is_cont c" "\<And>k. \<not> second_ok k (byte c)"
    using assms(2) by (auto simp: is_cont_def second_ok_def split: if_splits)
  show ?thesis
    using assms(1) c
    by (cases us rule: ws_width.cases) (simp_all add: Let_def split: if_splits list.splits)
qed

lemma utf8_valid_after_ascii:
  "utf8_valid (u @ c # v) \<Longrightarrow> byte c < 128 \<Longrightarrow> utf8_valid v"
proof (induction "u @ c # v" arbitrary: u rule: utf8_valid.induct)
  case 1
  then show ?case by simp
next
  case (2 a as)
  let ?h = "utf8_head (a # as)"
  from 2(2) have eq: "a # as = u @ c # v" .
  from 2(3) have hd: "snd ?h" and val: "utf8_valid (drop (fst ?h - 1) as)"
    unfolding eq[symmetric] by (simp_all add: Let_def del: utf8_head.simps)
  show ?case
  proof (cases u)
    case Nil
    with eq 2(4) val show ?thesis by (auto simp: Let_def utf8_len_def)
  next
    case (Cons b us)
    with eq have as: "as = us @ c # v" by simp
    have len: "fst ?h - 1 \<le> length us"
      using utf8_head_ascii[of a us c v] hd 2(4) unfolding as by linarith
    then have "drop (fst ?h - 1) as = drop (fst ?h - 1) us @ c # v" by (simp add: as)
    then show ?thesis using 2(1)[OF refl] val 2(4) hd by simp
  qed
qed

lemma boundary_after_ascii:
  assumes "utf8_valid (u @ c # v)" and "byte c < 128"
  shows "is_char_boundary (u @ c # v) (Suc (length u))"
proof (cases v)
  case (Cons d ds)
  with utf8_valid_after_ascii[OF assms] have "\<not> is_cont d" by (simp add: utf8_valid_hd del: utf8_valid.simps)
  with Cons show ?thesis by (simp add: is_char_boundary_def nth_append)
qed (simp add: is_char_boundary_def)

lemma boundary_at_ascii:
  "i < length s \<Longrightarrow> byte (s ! i) < 128 \<Longrightarrow> is_char_boundary s i"
  by (simp add: is_char_boundary_def is_cont_def)

subsection \<open>The arrow of a symbolic link\<close>

abbreviation arrow :: string where "arrow \<equiv> '' -> ''"

text \<open>A name in which no arrow starts, whatever follows it.\<close>

definition arrow_free :: "string \<Rightarrow> bool" where
  "arrow_free n = (\<not> contains_sub (n @ '' ->'') arrow)"

lemma find_arrow:
  assumes "arrow_free n"
  shows "find_sub arrow (n @ arrow @ t) = Some (length n)"
proof -
  let ?s = "n @ arrow @ t"
  have here: "prefix arrow (drop (length n) ?s)" by simp
  then obtain i where i: "find_sub arrow ?s = Some i"
    using find_sub_None by (metis option.exhaust)
  have "\<not> length n < i" using find_sub_first[OF i] here by blast
  moreover have "\<not> i < length n"
  proof
    assume lt: "i < length n"
    from find_sub_SomeD[OF i] have "prefix arrow (drop i ?s)" by simp
    then obtain zs where "drop i ?s = arrow @ zs" by (rule prefixE)
    then have "take 4 (drop i ?s) = arrow" by (simp only: take_append) simp
    moreover have "take 4 (drop i ?s) = take 4 (drop i (n @ '' ->''))"
      using lt by (simp add: take_Cons')
    ultimately have "prefix arrow (drop i (n @ '' ->''))" by (metis take_is_prefix)
    then have "sublist arrow (n @ '' ->'')"
      by (metis prefix_imp_sublist sublist_drop sublist_order.order.trans)
    with assms show False by (simp add: arrow_free_def contains_sub_iff)
  qed
  ultimately show ?thesis using i by simp
qed

lemma find_arrow_none:
  assumes "arrow_free n"
  shows "find_sub arrow n = None"
proof -
  have "\<not> sublist arrow n"
    using assms by (auto simp: arrow_free_def contains_sub_iff sublist_appendI
        intro: sublist_order.order.trans)
  then show ?thesis by (simp add: contains_sub_iff[symmetric] contains_sub_def)
qed

subsection \<open>Names read back\<close>

text \<open>A name and owners that the line format can carry: the time has the first colon of the
  line and no arrow starts in the name.\<close>

definition name_ok :: "ls_entry \<Rightarrow> bool" where
  "name_ok e =
     (e_name e \<noteq> [] \<and> utf8_valid (e_name e) \<and> arrow_free (e_name e)
      \<and> CHR '':'' \<notin> set (e_owner e) \<and> CHR '':'' \<notin> set (e_group e))"

lemma set_columns: "set (columns ws) \<subseteq> \<Union> (set ` set (map fst ws)) \<union> {CHR 0x20}"
  by (auto simp: columns_def)

lemma colon_free_cols:
  assumes "name_ok e"
  shows "CHR '':'' \<notin> set (columns (zip (entry_cols e) (map pad [0..<length (entry_cols e)])))"
proof -
  have mode: "CHR '':'' \<notin> set (ls_mode_string m)" for m
    by (auto simp: ls_mode_string_def ls_type_char_def flag_char_def exec_char_def Let_def
        split: if_splits)
  have "CHR '':'' \<notin> \<Union> (set ` set (entry_cols e))"
    using assms mode show_nat_no_sign show_pad_no_sign
    by (auto simp: entry_cols_def nlink_cols_def size_cols_def name_ok_def date_col_def
        split: option.splits if_splits)
  then show ?thesis
    using set_columns[of "zip (entry_cols e) (map pad [0..<length (entry_cols e)])"] by auto
qed

lemma show_pad_length2: "n < 100 \<Longrightarrow> length (show_pad 2 n) = 2"
  using show_nat_length[of n 2] by (simp add: show_pad_def pad_zero_def)

lemma find_colon:
  assumes "name_ok e"
  shows "\<exists>u. CHR '':'' \<notin> set u
    \<and> print_ls pad e = u @ [CHR '':''] @ show_pad 2 (e_minute e) @ '' '' @ name_col e"
  using colon_free_cols[OF assms, of pad] show_pad_no_sign[of 2 "e_hour e"]
  by (intro exI[of _ "columns (zip (entry_cols e) (map pad [0..<length (entry_cols e)]))
      @ show_pad 2 (e_hour e)"]) (simp add: print_ls_def time_col_def)

lemma extract_filename_at:
  assumes "CHR '':'' \<notin> set u" and "length w = 3" and "n \<noteq> []" and "\<not> is_cont (hd n)"
  shows "extract_filename (u @ [CHR '':''] @ w @ n) =
    run_bind (case find_sub arrow n of Some pos \<Rightarrow> slice_to n pos | None \<Rightarrow> Done n)
      (\<lambda>name. Done (if name = [] then None else Some name))"
proof -
  let ?l = "u @ [CHR '':''] @ w @ n"
  have "find_char (CHR '':'') ?l = Some (length u)"
    using find_char_append[OF assms(1), of "w @ n"] by simp
  moreover have "slice_from ?l (length u + 4) = Done n"
    using assms(2-4) by (cases n) (simp_all add: slice_from_def is_char_boundary_def nth_append)
  ultimately show ?thesis
    using assms(2) by (simp add: extract_filename_def Let_def)
qed

lemma extract_print_ls:
  assumes "entry_ok e" and "name_ok e"
  shows "extract_filename (print_ls pad e) = Done (Some (e_name e))"
proof -
  obtain u where u: "CHR '':'' \<notin> set u"
    and line: "print_ls pad e = u @ [CHR '':''] @ (show_pad 2 (e_minute e) @ '' '') @ name_col e"
    using find_colon[OF assms(2), of pad] by auto
  have min: "length (show_pad 2 (e_minute e) @ '' '') = 3"
    using assms(1) by (simp add: entry_ok_def show_pad_length2)
  have name: "e_name e \<noteq> []" "arrow_free (e_name e)" "\<not> is_cont (hd (e_name e))"
    using assms(2) by (auto simp: name_ok_def neq_Nil_conv utf8_valid_hd simp del: utf8_valid.simps)
  then have hd: "name_col e \<noteq> []" "\<not> is_cont (hd (name_col e))"
    by (auto simp: name_col_def)
  have cut: "(case find_sub arrow (name_col e) of
      Some pos \<Rightarrow> slice_to (name_col e) pos | None \<Rightarrow> Done (name_col e)) = Done (e_name e)"
  proof (cases "e_target e")
    case None
    with name show ?thesis by (simp add: name_col_def find_arrow_none)
  next
    case (Some t)
    have "is_char_boundary (e_name e @ arrow @ t) (length (e_name e))"
      by (rule boundary_at_ascii) (simp_all add: byte_def)
    with Some name find_arrow[of "e_name e" t] show ?thesis
      by (simp add: name_col_def slice_to_def)
  qed
  show ?thesis
    using name(1) unfolding line extract_filename_at[OF u min hd] cut by simp
qed

subsection \<open>Link targets\<close>

text \<open>Lexical resolution of a path against a directory, both as lists of components.\<close>

definition path_comps :: "string \<Rightarrow> string list" where
  "path_comps p = filter (\<lambda>c. c \<noteq> []) (split_on slash p)"

fun resolve :: "string list \<Rightarrow> string list \<Rightarrow> string list" where
  "resolve dir [] = dir"
| "resolve dir (c # cs) =
     (if c = ''.'' then resolve dir cs
      else if c = ''..'' then resolve (butlast dir) cs
      else resolve (dir @ [c]) cs)"

lemma path_comps_slash: "path_comps (slash # p) = path_comps p"
  by (simp add: path_comps_def)

lemma path_comps_trim: "path_comps (trim_start_char slash p) = path_comps p"
  by (induction p) (simp_all add: trim_start_char_def path_comps_slash)

lemma path_comps_dots: "path_comps (repeat_str ''../'' n @ p) = replicate n ''..'' @ path_comps p"
proof (induction n)
  case (Suc n)
  have "path_comps (''../'' @ q) = ''..'' # path_comps q" for q
    using split_on_append[of slash "''..''" q] by (simp add: path_comps_def)
  then show ?case using Suc by (simp add: repeat_str_def)
qed (simp add: repeat_str_def)

lemma resolve_ups: "resolve dir (replicate (length dir) ''..'' @ cs) = resolve [] cs"
proof (induction "length dir" arbitrary: dir)
  case (Suc n)
  then have n: "n = length (butlast dir)" by simp
  have "replicate (length dir) ''..'' @ cs = ''..'' # replicate (length (butlast dir)) ''..'' @ cs"
    unfolding Suc(2)[symmetric] n[symmetric] by simp
  then show ?case using Suc(1)[OF n] by simp
qed simp

lemma symlink_target_at:
  assumes "find_sub arrow line = Some (length u)" and "line = u @ arrow @ t" and "utf8_valid t"
  shows "parse_symlink_target line n = Done (
      if t = [] then None
      else if prefix [slash] t then Some (repeat_str ''../'' (n - 1) @ trim_start_char slash t)
      else Some t)"
proof -
  have "slice_from line (length u + 4) = Done t"
    using assms(2,3) by (cases t)
      (auto simp: slice_from_def is_char_boundary_def nth_append utf8_valid_hd
        simp del: utf8_valid.simps)
  then show ?thesis using assms(1) by (simp add: parse_symlink_target_def)
qed

lemma symlink_target_resolves:
  assumes "find_sub arrow line = Some (length u)" and "line = u @ arrow @ t" and "utf8_valid t"
    and "prefix [slash] t" and "dir = butlast cs" and "n = length cs"
  shows "\<exists>r. parse_symlink_target line n = Done (Some r)
    \<and> resolve dir (path_comps r) = resolve [] (path_comps t)"
proof -
  have "t \<noteq> []" using assms(4) by auto
  moreover have "length dir = n - 1" using assms(5,6) by simp
  ultimately show ?thesis
    using symlink_target_at[OF assms(1-3), of n] assms(4) resolve_ups[of dir]
    by (simp add: path_comps_dots path_comps_trim)
qed

subsection \<open>Concrete lines\<close>

definition sample_entry :: ls_entry where
  "sample_entry = \<lparr>e_mode = 0x81B4, e_nlink = None, e_owner = ''root'', e_group = ''sdcard_rw'',
     e_size = Some 763362, e_major = 0, e_minor = 0, e_year = 2012, e_month = 6, e_day = 22,
     e_hour = 2, e_minute = 16, e_name = ''file.html'', e_target = None\<rparr>"

definition sample_libc :: "int \<Rightarrow> libc" where
  "sample_libc t = \<lparr>mktime = (\<lambda>_. t), getpwnam = (\<lambda>_. None), getgrnam = (\<lambda>_. None)\<rparr>"

lemma digit_char_simps [simp]:
  "digit_char 0 = CHR ''0''" "digit_char (Suc 0) = CHR ''1''" "digit_char 2 = CHR ''2''"
  "digit_char 3 = CHR ''3''" "digit_char 4 = CHR ''4''" "digit_char 5 = CHR ''5''"
  "digit_char 6 = CHR ''6''" "digit_char 7 = CHR ''7''" "digit_char 8 = CHR ''8''"
  "digit_char 9 = CHR ''9''"
  by (simp_all add: digit_char_def char_of_eq_iff) 

lemmas show_numeral = show_nat.simps[of "numeral k" for k]

lemma show_small [simp]: "show_nat 0 = ''0''" "show_nat (Suc 0) = ''1''"
  by (simp_all add: show_nat.simps[of 0] show_nat.simps[of "Suc 0"])

lemmas print_defs = print_ls_def columns_def entry_cols_def nlink_cols_def size_cols_def
  date_col_def time_col_def name_col_def show_pad_def pad_zero_def is_dev_def is_reg_def
  ls_mode_string_def ls_type_char_def flag_char_def exec_char_def


lemma sample_cols:
  "entry_cols sample_entry = [''-rw-rw-r--'', ''root'', ''sdcard_rw'', ''763362'', ''2012-06-22'']"
  "time_col sample_entry = ''02:16''"
  by (simp_all add: sample_entry_def print_defs file_type_defs perm_defs show_numeral Let_def)
lemma sample_line:
  "print_ls (\<lambda>i. if i = 1 then 4 else if i = 2 then 2 else 0) sample_entry
   = ''-rw-rw-r-- root     sdcard_rw   763362 2012-06-22 02:16 file.html''"
  by (simp add: print_ls_def sample_cols columns_def name_col_def upt_rec numeral_eq_Suc)
   (simp add: sample_entry_def)
lemma sample_entry_ok: "entry_ok sample_entry"
  by (simp add: entry_ok_def sample_entry_def known_type_def file_type_defs word_ok_def graphic_def
     byte_def detect_nlink_def parse_u32_def digit_val_def split_whitespace_def Let_def ascii_ws_def
     ws2_def ws3_def is_reg_def name_col_def)
lemma sample_name_ok: "name_ok sample_entry"
  by (simp add: name_ok_def sample_entry_def utf8_valid_ascii byte_def arrow_free_def contains_sub_def
     del: utf8_valid.simps)

subsection \<open>Properties\<close>

text \<open>A mode column printed for a mode of a known file type is parsed back to the type and
  the twelve permission bits of that mode.\<close>

theorem parse_mode_roundtrip:
  assumes "known_type m"
  shows "parse_mode_string (ls_mode_string m) = m AND 0xFFFF"
  using assms by (rule parse_ls_mode_string)

theorem parse_mode_roundtrip_witness:
  "ls_mode_string 0x43FD = ''drwxrwxr-t'' \<and> parse_mode_string ''drwxrwxr-t'' = 0x43FD"
proof -
  have k: "known_type 0x43FD" by (simp add: known_type_def file_type_defs)
  have s: "ls_mode_string 0x43FD = ''drwxrwxr-t''"
    by (simp add: ls_mode_string_def ls_type_char_def flag_char_def exec_char_def file_type_defs
        perm_defs)
  show ?thesis using parse_mode_roundtrip[OF k] unfolding s by simp
qed

text \<open>C32. A line of \<open>ls -l\<close>, in either format, with any padding and for every file type,
  parses to the metadata it was printed from; a date \<open>mktime\<close> rejects gives nothing, and a
  date before the epoch panics.\<close>

theorem parse_ls_line_printed:
  assumes "entry_ok e"
    and "- (2 ^ 63) \<le> mktime L (entry_tm e)" and "mktime L (entry_tm e) < 2 ^ 63"
  shows "parse_ls_line L (print_ls pad e) =
    (if mktime L (entry_tm e) = -1 then Done None
     else if mktime L (entry_tm e) < 0 then Panic
     else Done (Some (entry_meta L e (mktime L (entry_tm e)) (print_ls pad e))))"
  using assms by (rule parse_print_ls)

theorem parse_ls_line_printed_witness:
  "(\<exists>m. parse_ls_line (sample_libc 1340331360)
      ''-rw-rw-r-- root     sdcard_rw   763362 2012-06-22 02:16 file.html'' = Done (Some m)
    \<and> m_size m = 763362 \<and> m_mode m = 0x81B4 \<and> m_nlink m = 1
    \<and> m_mtime m = 1340331360000000000)
   \<and> parse_ls_line (sample_libc (-3600))
      ''-rw-rw-r-- root     sdcard_rw   763362 2012-06-22 02:16 file.html'' = Panic"
proof -
  let ?pad = "\<lambda>i. if i = 1 then 4 else if i = (2::nat) then 2 else (0::nat)"
  have good: "parse_ls_line (sample_libc 1340331360) (print_ls ?pad sample_entry)
      = Done (Some (entry_meta (sample_libc 1340331360) sample_entry 1340331360
          (print_ls ?pad sample_entry)))"
    using parse_ls_line_printed[OF sample_entry_ok, of "sample_libc 1340331360" ?pad]
    by (simp add: sample_libc_def)
  have bad: "parse_ls_line (sample_libc (-3600)) (print_ls ?pad sample_entry) = Panic"
    using parse_ls_line_printed[OF sample_entry_ok, of "sample_libc (-3600)" ?pad]
    by (simp add: sample_libc_def)
  show ?thesis
    using good bad unfolding sample_line
    by (simp add: entry_meta_def sample_entry_def is_reg_def file_type_defs)
qed

text \<open>From a printed line the name is recovered byte for byte, with its blanks and without
  the target of a link, whenever the name is valid UTF-8 in which no arrow starts.\<close>

theorem extract_filename_printed:
  assumes "entry_ok e" and "name_ok e"
  shows "extract_filename (print_ls pad e) = Done (Some (e_name e))"
  using assms by (rule extract_print_ls)

theorem extract_filename_printed_witness:
  "extract_filename ''-rw-rw-r-- root     sdcard_rw   763362 2012-06-22 02:16 file.html''
   = Done (Some ''file.html'')"
  using extract_filename_printed[OF sample_entry_ok sample_name_ok,
      of "\<lambda>i. if i = 1 then 4 else if i = 2 then 2 else 0"]
  unfolding sample_line by (simp add: sample_entry_def)

text \<open>C35. The \<open>i32\<close> arithmetic on the date never wraps, and \<open>parse_datetime\<close> panics exactly
  for a well-formed date that \<open>mktime\<close> maps to a time before the epoch other than its error
  value.\<close>

theorem parse_datetime_panics:
  assumes "\<And>tm. - (2 ^ 63) \<le> mktime L tm \<and> mktime L tm < 2 ^ 63"
  shows "(\<forall>tm. date_fields d t = Some tm \<longrightarrow>
      -1900 \<le> tm_year tm \<and> tm_year tm < 2 ^ 31 - 1900 \<and> -1 \<le> tm_mon tm \<and> tm_mon tm < 2 ^ 31 - 1
      \<and> 0 \<le> tm_mday tm)
    \<and> (parse_datetime L d t = Panic \<longleftrightarrow>
        (\<exists>tm. date_fields d t = Some tm \<and> mktime L tm < -1))"
proof (rule conjI)
  show "\<forall>tm. date_fields d t = Some tm \<longrightarrow>
      -1900 \<le> tm_year tm \<and> tm_year tm < 2 ^ 31 - 1900 \<and> -1 \<le> tm_mon tm \<and> tm_mon tm < 2 ^ 31 - 1
      \<and> 0 \<le> tm_mday tm"
  proof (intro allI impI)
    fix tm assume some: "date_fields d t = Some tm"
    let ?ymd = "split_on (CHR ''-'') d"
    obtain y m dd h mi where tm: "tm = date_tm y m dd h mi"
      and p: "parse_i32 (?ymd ! 0) = Some y" "parse_i32 (?ymd ! 1) = Some m"
        "parse_i32 (?ymd ! 2) = Some dd" and len: "3 \<le> length ?ymd"
      using some by (auto simp: date_fields_def Let_def bind_eq_Some_conv split: if_splits)
    have free: "CHR 0x2D \<notin> set (?ymd ! k)" if "k < 3" for k
      using that len by (intro split_on_free[of _ _ d]) auto
    have "0 \<le> y \<and> y < 2 ^ 31" "0 \<le> m \<and> m < 2 ^ 31" "0 \<le> dd"
      using p free[of 0] free[of 1] free[of 2] parse_i32_range parse_i32_nonneg by auto
    then show "-1900 \<le> tm_year tm \<and> tm_year tm < 2 ^ 31 - 1900 \<and> -1 \<le> tm_mon tm
        \<and> tm_mon tm < 2 ^ 31 - 1 \<and> 0 \<le> tm_mday tm"
      by (simp add: tm date_tm_def i32_sub_small)
  qed
next
  show "parse_datetime L d t = Panic \<longleftrightarrow> (\<exists>tm. date_fields d t = Some tm \<and> mktime L tm < -1)"
  proof (cases "date_fields d t")
    case None
    then show ?thesis by (simp add: parse_datetime_def)
  next
    case (Some tm)
    with assms show ?thesis
      using parse_datetime_outcome[OF Some, of L] by (auto simp: time_outcome_def)
  qed
qed

theorem parse_datetime_panics_witness:
  "parse_datetime (sample_libc (-3600)) ''1970-01-01'' ''01:00'' = Panic"
proof -
  have r: "- (2 ^ 63) \<le> mktime (sample_libc (-3600)) tm \<and> mktime (sample_libc (-3600)) tm < 2 ^ 63"
    for tm by (simp add: sample_libc_def)
  have "date_fields ''1970-01-01'' ''01:00'' \<noteq> None"
    by (simp add: date_fields_def digit_val_def byte_def)
  then show ?thesis
    using parse_datetime_panics[OF r, of "''1970-01-01''" "''01:00''"]
    by (auto simp: sample_libc_def)
qed

subsection \<open>What the parser does not do\<close>

text \<open>The arrow is cut from every name, not only from a symbolic link's.\<close>

lemma extract_filename_cuts_regular:
  "extract_filename ''-rw-rw-r-- root sdcard_rw 1 2012-06-22 02:16 a -> b'' = Done (Some ''a'')"
  by (simp add: extract_filename_def slice_from_def slice_to_def is_char_boundary_def is_cont_def byte_def)

text \<open>A line whose fourth byte after the first colon is inside a character: the slice panics.
  (A device file name with a line break can make such a line.)\<close>

lemma extract_filename_panics:
  "is_valid_ls_output (''-r:aa'' @ [CHR 0xC3, CHR 0xA9]) \<and> utf8_valid (''-r:aa'' @ [CHR 0xC3, CHR 0xA9])
   \<and> extract_filename (''-r:aa'' @ [CHR 0xC3, CHR 0xA9]) = Panic"
  by (simp add: extract_filename_def slice_from_def slice_to_def is_char_boundary_def is_cont_def byte_def
    is_valid_ls_output_def Let_def utf8_len_def second_ok_def)

text \<open>An absolute link to \<open>/\<close> in the root directory gets an empty target.\<close>

lemma parse_symlink_target_empty:
  "parse_symlink_target ''lrwxrwxrwx root root 2012-06-22 02:16 x -> /'' 1 = Done (Some [])"
  by (simp add: parse_symlink_target_def slice_from_def slice_to_def is_char_boundary_def is_cont_def byte_def
   repeat_str_def trim_start_char_def)

end
