(* ===== verification/Paths.thy ===== *)
theory Paths
  imports Parse
begin

text \<open>
  Device paths as the file system builds them: \<open>AdbFs::child_path\<close> (\<open>src/src/fs.rs\<close>) and
  the test "this key is the prefix or lies below it" that the cache and the inode table share.
  The specification of a path is its list of components; \<open>path_str\<close> writes it.
\<close>

subsection \<open>The code's operations\<close>

definition child_path :: "string \<Rightarrow> string \<Rightarrow> string" where
  "child_path parent name =
     (let name_str = utf8_lossy name
      in if parent = ''/'' then ''/'' @ name_str else parent @ ''/'' @ name_str)"

text \<open>\<open>key == prefix || key.starts_with(&dir)\<close>, with \<open>dir\<close> the prefix and a slash.\<close>

definition at_or_under :: "string \<Rightarrow> string \<Rightarrow> string \<Rightarrow> bool" where
  "at_or_under p dir key = (key = p \<or> prefix dir key)"

subsection \<open>Component lists\<close>

definition comp_ok :: "string \<Rightarrow> bool" where
  "comp_ok c = (c \<noteq> [] \<and> slash \<notin> set c)"

definition slashed :: "string list \<Rightarrow> string" where
  "slashed cs = concat (map (\<lambda>c. slash # c) cs)"

definition path_str :: "string list \<Rightarrow> string" where
  "path_str cs = (if cs = [] then [slash] else slashed cs)"

lemma slashed_simps [simp]:
  "slashed [] = []" "slashed (c # cs) = slash # c @ slashed cs"
  "slashed (xs @ ys) = slashed xs @ slashed ys"
  by (simp_all add: slashed_def)

lemma split_slashed:
  "list_all comp_ok cs \<Longrightarrow> slash \<notin> set u \<Longrightarrow> split_on slash (u @ slashed cs) = u # cs"
proof (induction cs arbitrary: u)
  case Nil
  then show ?case by (simp add: split_on_no_sep)
next
  case (Cons c cs)
  then have "split_on slash (c @ slashed cs) = c # cs" by (auto simp: comp_ok_def)
  with Cons.prems show ?case by (simp add: split_on_append)
qed

lemma path_comps_str: "list_all comp_ok cs \<Longrightarrow> path_comps (path_str cs) = cs"
proof -
  assume ok: "list_all comp_ok cs"
  then have "filter (\<lambda>c. c \<noteq> []) cs = cs"
    by (auto simp: list_all_iff comp_ok_def intro: filter_True)
  then show ?thesis
    using split_slashed[OF ok, of "[]"] by (simp add: path_comps_def path_str_def)
qed

lemma path_str_inj:
  "list_all comp_ok cs \<Longrightarrow> list_all comp_ok ds \<Longrightarrow> path_str cs = path_str ds \<longleftrightarrow> cs = ds"
  by (metis path_comps_str)

lemma slash_count: "list_all comp_ok cs \<Longrightarrow> length (filter (\<lambda>c. c = slash) (slashed cs)) = length cs"
proof (induction cs)
  case (Cons c cs)
  then have "filter (\<lambda>x. x = slash) c = []" by (auto simp: comp_ok_def filter_empty_conv)
  with Cons show ?case by simp
qed simp

lemma slashed_not_root: "list_all comp_ok cs \<Longrightarrow> slashed cs \<noteq> [slash]"
  by (cases cs) (auto simp: comp_ok_def)

lemma child_path_str:
  assumes "utf8_valid n" and "list_all comp_ok cs"
  shows "child_path (path_str cs) n = path_str (cs @ [n])"
  using assms slashed_not_root[OF assms(2)]
  by (cases "cs = []") (simp_all add: child_path_def path_str_def utf8_lossy_valid Let_def)

lemma split_on_append_gen: "split_on x (u @ x # v) = split_on x u @ split_on x v"
proof (induction u)
  case (Cons c u)
  then show ?case by (cases "split_on x u") auto
qed simp

text \<open>A string test on slashes is a prefix test on components.\<close>

lemma prefix_slashed:
  assumes "list_all comp_ok cs" and "list_all comp_ok ds"
  shows "prefix (slashed cs @ [slash]) (slashed ds) \<longleftrightarrow> (\<exists>x xs. ds = cs @ x # xs)"
proof
  assume "prefix (slashed cs @ [slash]) (slashed ds)"
  then obtain r where r: "slashed ds = slashed cs @ slash # r" by (auto simp: prefix_def)
  have "[] # ds = split_on slash (slashed ds)"
    using split_slashed[OF assms(2), of "[]"] by simp
  also have "\<dots> = ([] # cs) @ split_on slash r"
    unfolding r split_on_append_gen using split_slashed[OF assms(1), of "[]"] by simp
  finally have "ds = cs @ split_on slash r" by simp
  then show "\<exists>x xs. ds = cs @ x # xs"
    using split_on_nonempty[of slash r] by (metis list.exhaust)
qed auto

lemma at_or_under_str:
  assumes "list_all comp_ok cs" and "list_all comp_ok ds" and "cs \<noteq> []"
  shows "at_or_under (path_str cs) (path_str cs @ [slash]) (path_str ds) \<longleftrightarrow> prefix cs ds"
proof (cases "ds = []")
  case True
  with assms show ?thesis
    using slashed_not_root[OF assms(1)]
    by (cases cs) (auto simp: at_or_under_def path_str_def dest: prefix_length_le)
next
  case False
  then have "at_or_under (path_str cs) (path_str cs @ [slash]) (path_str ds)
      \<longleftrightarrow> ds = cs \<or> (\<exists>x xs. ds = cs @ x # xs)"
    using assms prefix_slashed[OF assms(1,2)] path_str_inj[OF assms(1,2)]
    by (auto simp: at_or_under_def path_str_def)
  also have "\<dots> \<longleftrightarrow> prefix cs ds"
    by (auto simp: prefix_def) (metis append_Nil2 list.exhaust)
  finally show ?thesis .
qed

end
