(* ===== verification/Cache.thy ===== *)
theory Cache
  imports Paths
begin

text \<open>
  The metadata cache (\<open>src/src/cache.rs\<close>): a map from device paths to positive or negative
  entries with the instant of their insertion. Instants and durations are nanoseconds;
  \<open>Instant::elapsed\<close> saturates at zero, as the subtraction of \<open>nat\<close> does. The \<open>DashMap\<close>
  of the code is a map; the operations are taken as one step each here, and as the steps
  other threads can observe in the theory CacheRace.
\<close>

subsection \<open>The operations\<close>

record cache_entry =
  ce_meta :: "file_meta option"
  ce_inserted_at :: nat

record metadata_cache =
  entries :: "string \<Rightarrow> cache_entry option"
  cache_ttl :: nat

definition cache_new :: "nat \<Rightarrow> metadata_cache" where
  "cache_new ttl = \<lparr>entries = Map.empty, cache_ttl = ttl\<rparr>"

definition cache_get ::
  "string \<Rightarrow> nat \<Rightarrow> metadata_cache \<Rightarrow> file_meta option option \<times> metadata_cache" where
  "cache_get path now c =
     (case entries c path of
        None \<Rightarrow> (None, c)
      | Some e \<Rightarrow>
          if now - ce_inserted_at e > cache_ttl c
          then (None, c\<lparr>entries := (entries c)(path := None)\<rparr>)
          else (Some (ce_meta e), c))"

definition cache_insert ::
  "string \<Rightarrow> file_meta option \<Rightarrow> nat \<Rightarrow> metadata_cache \<Rightarrow> metadata_cache" where
  "cache_insert path meta now c =
     c\<lparr>entries := (entries c)(path \<mapsto> \<lparr>ce_meta = meta, ce_inserted_at = now\<rparr>)\<rparr>"

definition cache_invalidate :: "string \<Rightarrow> metadata_cache \<Rightarrow> metadata_cache" where
  "cache_invalidate path c = c\<lparr>entries := (entries c)(path := None)\<rparr>"

definition prefix_dir :: "string \<Rightarrow> string" where
  "prefix_dir p = (if suffix ''/'' p then p else p @ ''/'')"

definition cache_invalidate_prefix :: "string \<Rightarrow> metadata_cache \<Rightarrow> metadata_cache" where
  "cache_invalidate_prefix p c =
     c\<lparr>entries := (\<lambda>key. if key \<noteq> p \<and> \<not> prefix (prefix_dir p) key then entries c key else None)\<rparr>"

subsection \<open>The contract of a metadata cache\<close>

text \<open>
  \<open>get p t c\<close> is what a lookup at time \<open>t\<close> answers, with the cache it leaves;
  \<open>covers p q\<close> says that invalidating the prefix \<open>p\<close> reaches \<open>q\<close>. A cache is coherent
  with a device whose metadata is \<open>T\<close> when no lookup, now or later, answers anything else.
\<close>

locale meta_cache =
  fixes get :: "string \<Rightarrow> nat \<Rightarrow> 'c \<Rightarrow> 'm option option \<times> 'c"
    and insert :: "string \<Rightarrow> 'm option \<Rightarrow> nat \<Rightarrow> 'c \<Rightarrow> 'c"
    and invalidate :: "string \<Rightarrow> 'c \<Rightarrow> 'c"
    and invalidate_prefix :: "string \<Rightarrow> 'c \<Rightarrow> 'c"
    and ttl :: "'c \<Rightarrow> nat"
    and covers :: "string \<Rightarrow> string \<Rightarrow> bool"
  assumes get_insert_fresh: "t - now \<le> ttl c \<Longrightarrow> fst (get p t (insert p m now c)) = Some m"
    and get_insert_expired: "ttl c < t - now \<Longrightarrow> fst (get p t (insert p m now c)) = None"
    and get_insert_other: "q \<noteq> p \<Longrightarrow> fst (get q t (insert p m now c)) = fst (get q t c)"
    and get_invalidate: "fst (get p t (invalidate p c)) = None"
    and get_invalidate_other: "q \<noteq> p \<Longrightarrow> fst (get q t (invalidate p c)) = fst (get q t c)"
    and get_invalidate_prefix:
      "fst (get q t (invalidate_prefix p c)) = (if covers p q then None else fst (get q t c))"
    and get_evicts: "t \<le> t' \<Longrightarrow> fst (get q t' (snd (get p t c))) = fst (get q t' c)"
begin

definition coherent :: "(string \<Rightarrow> 'm option) \<Rightarrow> nat \<Rightarrow> 'c \<Rightarrow> bool" where
  "coherent T t0 c = (\<forall>p t m. t0 \<le> t \<longrightarrow> fst (get p t c) = Some m \<longrightarrow> m = T p)"

lemma coherentD: "coherent T t0 c \<Longrightarrow> fst (get p t0 c) = Some m \<Longrightarrow> m = T p"
  by (auto simp: coherent_def)

lemma coherent_later: "coherent T t0 c \<Longrightarrow> t0 \<le> t1 \<Longrightarrow> coherent T t1 c"
  by (meson coherent_def order_trans)

lemma coherent_get: "coherent T t0 c \<Longrightarrow> coherent T t0 (snd (get p t0 c))"
  by (auto simp: coherent_def get_evicts)

lemma coherent_insert: "coherent T t0 c \<Longrightarrow> coherent T t0 (insert p (T p) now c)"
  unfolding coherent_def
  by (metis get_insert_expired get_insert_fresh get_insert_other leI option.discI option.inject)

text \<open>A change of the device at one path, followed by the invalidation of that path.\<close>

lemma coherent_change:
  assumes "coherent T t0 c" and "\<And>q. q \<noteq> p \<Longrightarrow> T' q = T q"
  shows "coherent T' t0 (invalidate p c)"
  unfolding coherent_def
proof (intro allI impI)
  fix q t m assume t: "t0 \<le> t" and hit: "fst (get q t (invalidate p c)) = Some m"
  then have "q \<noteq> p" using get_invalidate by force
  with assms t hit show "m = T' q" by (auto simp: coherent_def get_invalidate_other)
qed

text \<open>A change at or below a path, followed by the invalidation of the prefix.\<close>

lemma coherent_change_prefix:
  assumes "coherent T t0 c" and "\<And>q. \<not> covers p q \<Longrightarrow> T' q = T q"
  shows "coherent T' t0 (invalidate_prefix p c)"
  using assms by (auto simp: coherent_def get_invalidate_prefix split: if_splits)

text \<open>A rename changes both subtrees and invalidates both prefixes.\<close>

lemma coherent_rename:
  assumes "coherent T t0 c" and "\<And>q. \<not> covers p q \<Longrightarrow> \<not> covers p' q \<Longrightarrow> T' q = T q"
  shows "coherent T' t0 (invalidate_prefix p' (invalidate_prefix p c))"
  using assms by (auto simp: coherent_def get_invalidate_prefix split: if_splits)

end

definition prefix_covers :: "string \<Rightarrow> string \<Rightarrow> bool" where
  "prefix_covers p key = at_or_under p (prefix_dir p) key"

lemmas cache_defs = cache_get_def cache_insert_def cache_invalidate_def
  cache_invalidate_prefix_def prefix_covers_def at_or_under_def

interpretation mc: meta_cache cache_get cache_insert cache_invalidate cache_invalidate_prefix
  cache_ttl prefix_covers
  by unfold_locales (auto simp: cache_defs split: option.splits)

subsection \<open>Component boundaries\<close>

lemma suffix_slash_path:
  assumes "list_all comp_ok cs"
  shows "suffix ''/'' (path_str cs) \<longleftrightarrow> cs = []"
proof (cases cs rule: rev_cases)
  case (snoc xs c)
  with assms have "c \<noteq> []" "slash \<notin> set c" by (auto simp: comp_ok_def)
  then have "c \<noteq> []" "last c \<noteq> slash" by (auto dest: last_in_set)
  then have "last (path_str cs) \<noteq> slash" using snoc by (simp add: path_str_def)
  then have "\<not> suffix ''/'' (path_str cs)" by (metis last_snoc suffix_def)
  then show ?thesis using snoc by simp
qed (simp add: path_str_def)

lemma prefix_covers_str:
  assumes "list_all comp_ok cs" and "list_all comp_ok ds"
  shows "prefix_covers (path_str cs) (path_str ds) \<longleftrightarrow> prefix cs ds"
proof (cases "cs = []")
  case True
  then show ?thesis
    by (cases ds) (simp_all add: prefix_covers_def at_or_under_def prefix_dir_def path_str_def)
next
  case False
  then have "prefix_dir (path_str cs) = path_str cs @ [slash]"
    using suffix_slash_path[OF assms(1)] by (simp add: prefix_dir_def)
  then show ?thesis
    using at_or_under_str[OF assms False] by (simp add: prefix_covers_def)
qed

subsection \<open>Properties\<close>

text \<open>A lookup answers what was last inserted, a negative entry included, until the entry
  is older than the time to live; then it answers nothing and drops the entry.\<close>

lemma cache_get_insert:
  "cache_get p t (cache_insert p m now c) =
     (if t - now \<le> cache_ttl c then (Some m, cache_insert p m now c)
      else (None, cache_invalidate p c))"
  by (auto simp: cache_defs)

text \<open>C38. Invalidating a directory drops exactly the entries of that directory and of the paths
  below it, component by component; every other entry is kept.\<close>

theorem cache_invalidate_prefix_components:
  assumes "list_all comp_ok cs" and "list_all comp_ok ds"
  shows "entries (cache_invalidate_prefix (path_str cs) c) (path_str ds)
    = (if prefix cs ds then None else entries c (path_str ds))"
  using prefix_covers_str[OF assms]
  by (auto simp: cache_invalidate_prefix_def prefix_covers_def at_or_under_def)

theorem cache_invalidate_prefix_components_witness:
  "let m = \<lparr>ce_meta = None, ce_inserted_at = 0\<rparr>;
       c = \<lparr>entries = [''/sdcard/a'' \<mapsto> m, ''/sdcardfoo'' \<mapsto> m], cache_ttl = 30\<rparr>
   in entries (cache_invalidate_prefix ''/sdcard'' c) ''/sdcard/a'' = None
    \<and> entries (cache_invalidate_prefix ''/sdcard'' c) ''/sdcardfoo'' = Some m"
proof -
  let ?m = "\<lparr>ce_meta = None, ce_inserted_at = 0\<rparr>"
  let ?c = "\<lparr>entries = [''/sdcard/a'' \<mapsto> ?m, ''/sdcardfoo'' \<mapsto> ?m], cache_ttl = 30\<rparr>"
  have ok: "list_all comp_ok [''sdcard'']" "list_all comp_ok [''sdcard'', ''a'']"
    "list_all comp_ok [''sdcardfoo'']"
    by (simp_all add: comp_ok_def)
  show ?thesis
    using cache_invalidate_prefix_components[OF ok(1) ok(2), of ?c]
      cache_invalidate_prefix_components[OF ok(1) ok(3), of ?c]
    by (simp add: path_str_def)
qed

end
