(* ===== verification/MountOpts.thy ===== *)
theory MountOpts
  imports Parse
begin

unbundle bit_operations_syntax

text \<open>
  Mount options (\<open>src/src/mount_opts.rs\<close>): the options the file system consumes itself, the
  split of a \<open>-o\<close> list, and the ownership overrides. Reading a decimal \<open>f64\<close> and turning it
  into a \<open>Duration\<close> is floating point of the standard library: it is the parameter
  \<open>secs_of\<close>, which gives the nanoseconds, or \<open>None\<close> where either conversion fails.
\<close>

subsection \<open>The operations\<close>

record fs_options =
  entry_timeout :: nat
  attr_timeout :: nat
  negative_timeout :: nat
  opt_uid :: "u32 option"
  opt_gid :: "u32 option"
  opt_umask :: "u32 option"
  direct_io :: bool
  kernel_cache :: bool
  opt_debug :: bool

definition default_options :: fs_options where
  "default_options =
     \<lparr>entry_timeout = 1000000000, attr_timeout = 1000000000, negative_timeout = 0,
      opt_uid = None, opt_gid = None, opt_umask = None,
      direct_io = False, kernel_cache = False, opt_debug = False\<rparr>"

datatype option_error = OptionError (err_key: string) (err_value: string)

definition seconds ::
  "(string \<Rightarrow> nat option) \<Rightarrow> string \<Rightarrow> string \<Rightarrow> (option_error, nat) res" where
  "seconds secs_of key v =
     (case secs_of v of None \<Rightarrow> Err (OptionError key v) | Some d \<Rightarrow> Ok d)"

definition number :: "string \<Rightarrow> string \<Rightarrow> nat \<Rightarrow> (option_error, u32) res" where
  "number key v radix =
     (case parse_u32 radix v of None \<Rightarrow> Err (OptionError key v) | Some n \<Rightarrow> Ok n)"

text \<open>\<open>self.field = call?; Ok(true)\<close>: the options change only when the call succeeds.\<close>

definition set_field ::
  "(option_error, 'a) res \<Rightarrow> ('a \<Rightarrow> fs_options \<Rightarrow> fs_options) \<Rightarrow> fs_options
    \<Rightarrow> (option_error, bool) res \<times> fs_options" where
  "set_field r upd o0 = try_res (r, o0) (\<lambda>x o1. (Ok True, upd x o1))"

definition consume ::
  "(string \<Rightarrow> nat option) \<Rightarrow> string \<Rightarrow> fs_options \<Rightarrow> (option_error, bool) res \<times> fs_options" where
  "consume secs_of opt o0 =
     (let (key, val) = (case split_once (CHR ''='') opt of
            Some (k, v) \<Rightarrow> (k, Some v) | None \<Rightarrow> (opt, None))
      in case val of
        Some v \<Rightarrow>
          if key = ''entry_timeout'' then
            set_field (seconds secs_of key v) (\<lambda>x. entry_timeout_update (\<lambda>_. x)) o0
          else if key = ''attr_timeout'' then
            set_field (seconds secs_of key v) (\<lambda>x. attr_timeout_update (\<lambda>_. x)) o0
          else if key = ''negative_timeout'' then
            set_field (seconds secs_of key v) (\<lambda>x. negative_timeout_update (\<lambda>_. x)) o0
          else if key = ''uid'' then
            set_field (number key v 10) (\<lambda>x. opt_uid_update (\<lambda>_. Some x)) o0
          else if key = ''gid'' then
            set_field (number key v 10) (\<lambda>x. opt_gid_update (\<lambda>_. Some x)) o0
          else if key = ''umask'' then
            set_field (number key v 8) (\<lambda>x. opt_umask_update (\<lambda>_. Some x)) o0
          else (Ok False, o0)
      | None \<Rightarrow>
          if key = ''direct_io'' then (Ok True, o0\<lparr>direct_io := True\<rparr>)
          else if key = ''kernel_cache'' then (Ok True, o0\<lparr>kernel_cache := True\<rparr>)
          else if key = ''debug'' then (Ok True, o0\<lparr>opt_debug := True\<rparr>)
          else (Ok False, o0))"

fun split_loop ::
  "(string \<Rightarrow> nat option) \<Rightarrow> string list \<Rightarrow> fs_options \<Rightarrow> string list
    \<Rightarrow> (option_error, fs_options \<times> string list) res" where
  "split_loop secs_of [] fs mount = Ok (fs, mount)"
| "split_loop secs_of (opt # opts) fs mount =
     (case consume secs_of opt fs of
        (Ok b, fs') \<Rightarrow> split_loop secs_of opts fs' (if \<not> b then mount @ [opt] else mount)
      | (Err e, fs') \<Rightarrow> Err e
      | (Panicked, fs') \<Rightarrow> Panicked)"

definition split_options ::
  "(string \<Rightarrow> nat option) \<Rightarrow> string list \<Rightarrow> (option_error, fs_options \<times> string list) res" where
  "split_options secs_of options = split_loop secs_of options default_options []"

text \<open>Returns the mode and the two identifiers the code updates in place.\<close>

definition apply_ownership :: "fs_options \<Rightarrow> u32 \<Rightarrow> u32 \<Rightarrow> u32 \<Rightarrow> u32 \<times> u32 \<times> u32" where
  "apply_ownership fo md u g =
     ((case opt_umask fo of Some mk \<Rightarrow> (md AND S_IFMT) OR (0x1FF AND NOT mk) | None \<Rightarrow> md),
      (case opt_uid fo of Some x \<Rightarrow> x | None \<Rightarrow> u),
      (case opt_gid fo of Some x \<Rightarrow> x | None \<Rightarrow> g))"

subsection \<open>Specification of the split\<close>

definition value_keys :: "string list" where
  "value_keys = [''entry_timeout'', ''attr_timeout'', ''negative_timeout'', ''uid'', ''gid'', ''umask'']"

definition flag_keys :: "string list" where
  "flag_keys = [''direct_io'', ''kernel_cache'', ''debug'']"

text \<open>An option the file system handles: a flag without, or a setting with a value.\<close>

definition recognised :: "string \<Rightarrow> bool" where
  "recognised opt = (case split_once (CHR ''='') opt of
     Some (k, v) \<Rightarrow> k \<in> set value_keys | None \<Rightarrow> opt \<in> set flag_keys)"

text \<open>A recognised option whose value does not read.\<close>

definition bad_option :: "(string \<Rightarrow> nat option) \<Rightarrow> string \<Rightarrow> option_error option" where
  "bad_option secs_of opt = (case split_once (CHR ''='') opt of
     None \<Rightarrow> None
   | Some (k, v) \<Rightarrow>
       if (k \<in> {''entry_timeout'', ''attr_timeout'', ''negative_timeout''} \<and> secs_of v = None)
        \<or> (k \<in> {''uid'', ''gid''} \<and> parse_u32 10 v = None) \<or> (k = ''umask'' \<and> parse_u32 8 v = None)
       then Some (OptionError k v) else None)"

lemmas consume_defs = consume_def bad_option_def recognised_def value_keys_def flag_keys_def
  set_field_def seconds_def number_def

lemma consume_flag:
  assumes "split_once (CHR ''='') opt = None"
  shows "fst (consume secs_of opt o0) = Ok (recognised opt)" and "bad_option secs_of opt = None"
    and "\<not> recognised opt \<Longrightarrow> snd (consume secs_of opt o0) = o0"
  using assms by (simp_all add: consume_defs)

lemma consume_setting:
  assumes "split_once (CHR ''='') opt = Some (k, v)"
  shows "fst (consume secs_of opt o0) =
     (case bad_option secs_of opt of Some e \<Rightarrow> Err e | None \<Rightarrow> Ok (recognised opt))"
    and "\<not> recognised opt \<Longrightarrow> snd (consume secs_of opt o0) = o0"
proof -
  consider (secs) "k \<in> set [''entry_timeout'', ''attr_timeout'', ''negative_timeout'']"
    | (dec) "k \<in> set [''uid'', ''gid'']" | (oct) "k = ''umask''" | (other) "k \<notin> set value_keys"
    by (auto simp: value_keys_def)
  then show "fst (consume secs_of opt o0) =
     (case bad_option secs_of opt of Some e \<Rightarrow> Err e | None \<Rightarrow> Ok (recognised opt))"
  proof cases
    case secs
    then show ?thesis by (cases "secs_of v") (auto simp: consume_defs assms)
  next
    case dec
    then show ?thesis by (cases "parse_u32 10 v") (auto simp: consume_defs assms)
  next
    case oct
    then show ?thesis by (cases "parse_u32 8 v") (auto simp: consume_defs assms)
  next
    case other
    then show ?thesis by (simp add: consume_defs assms)
  qed
  show "\<not> recognised opt \<Longrightarrow> snd (consume secs_of opt o0) = o0"
    by (simp add: consume_def recognised_def value_keys_def assms)
qed

lemma consume_result:
  "fst (consume secs_of opt o0) =
     (case bad_option secs_of opt of Some e \<Rightarrow> Err e | None \<Rightarrow> Ok (recognised opt))"
proof (cases "split_once (CHR ''='') opt")
  case None
  then show ?thesis by (simp add: consume_flag)
next
  case (Some kv)
  then show ?thesis by (cases kv) (simp add: consume_setting)
qed

text \<open>The options after a list of good ones: every option applied in order.\<close>

definition apply_all_options :: "(string \<Rightarrow> nat option) \<Rightarrow> string list \<Rightarrow> fs_options \<Rightarrow> fs_options" where
  "apply_all_options secs_of opts o0 = foldl (\<lambda>fs opt. snd (consume secs_of opt fs)) o0 opts"

lemma split_loop_spec:
  "split_loop secs_of opts o0 mount =
     (case List.find (\<lambda>opt. bad_option secs_of opt \<noteq> None) opts of
        Some opt \<Rightarrow> Err (the (bad_option secs_of opt))
      | None \<Rightarrow> Ok (apply_all_options secs_of opts o0, mount @ filter (\<lambda>opt. \<not> recognised opt) opts))"
proof (induction opts arbitrary: o0 mount)
  case Nil
  then show ?case by (simp add: apply_all_options_def)
next
  case (Cons opt opts)
  obtain r fs where c: "consume secs_of opt o0 = (r, fs)" by (cases "consume secs_of opt o0")
  then have r: "r = (case bad_option secs_of opt of Some e \<Rightarrow> Err e | None \<Rightarrow> Ok (recognised opt))"
    using consume_result[of secs_of opt o0] by simp
  show ?case
  proof (cases "bad_option secs_of opt")
    case None
    with r c Cons.IH[of fs] show ?thesis by (simp add: apply_all_options_def split: option.splits)
  next
    case (Some e)
    with r c show ?thesis by simp
  qed
qed

subsection \<open>Properties\<close>

lemma S_IFMT_bit: "bit S_IFMT n \<longleftrightarrow> 12 \<le> n \<and> n < 16"
proof -
  have eq: "S_IFMT = push_bit 12 (Bit_Operations.mask 4)"
    by (simp add: S_IFMT_def mask_eq_exp_minus_1)
  show ?thesis unfolding eq by (auto simp: bit_simps)
qed

lemma perm_mask_bit: "bit (0x1FF :: u32) n \<longleftrightarrow> n < 9"
proof -
  have eq: "(0x1FF :: u32) = Bit_Operations.mask 9" by (simp add: mask_eq_exp_minus_1)
  show ?thesis unfolding eq by (auto simp: bit_simps)
qed

text \<open>C39. The split of the \<open>-o\<close> list fails exactly when a recognised option has an unreadable
  value, with the first such option in the error; otherwise it applies every option in order
  and passes on, in order and unchanged, exactly the options it does not recognise.\<close>

theorem split_options_spec:
  "split_options secs_of opts =
     (case List.find (\<lambda>opt. bad_option secs_of opt \<noteq> None) opts of
        Some opt \<Rightarrow> Err (the (bad_option secs_of opt))
      | None \<Rightarrow> Ok (apply_all_options secs_of opts default_options,
                    filter (\<lambda>opt. \<not> recognised opt) opts))"
  by (simp only: split_options_def split_loop_spec append_Nil)

text \<open>C40. The ownership overrides never change the file type; with a umask the permission bits
  are exactly those of 0777 the mask leaves, without one the mode is unchanged, and each of
  the two identifiers is replaced exactly when its option is given.\<close>

theorem apply_ownership_spec:
  "case apply_ownership fo md u g of (md', u', g') \<Rightarrow>
     md' AND S_IFMT = md AND S_IFMT
     \<and> (\<forall>mk. opt_umask fo = Some mk \<longrightarrow>
          (\<forall>n. n < 12 \<longrightarrow> bit md' n = (n < 9 \<and> \<not> bit mk n)))
     \<and> (opt_umask fo = None \<longrightarrow> md' = md)
     \<and> u' = (case opt_uid fo of None \<Rightarrow> u | Some x \<Rightarrow> x)
     \<and> g' = (case opt_gid fo of None \<Rightarrow> g | Some x \<Rightarrow> x)"
proof -
  have type: "((md AND S_IFMT) OR (0x1FF AND NOT mk)) AND S_IFMT = md AND S_IFMT" for mk
    by (rule bit_eqI, simp only: bit_and_iff bit_or_iff S_IFMT_bit perm_mask_bit) linarith
  have low: "bit ((md AND S_IFMT) OR (0x1FF AND NOT mk)) n = (n < 9 \<and> \<not> bit mk n)"
    if "n < 12" for mk n
    using that by (simp only: bit_and_iff bit_or_iff bit_not_iff S_IFMT_bit perm_mask_bit) auto
  show ?thesis
    by (auto simp: apply_ownership_def type low split: option.splits)
qed

theorem apply_ownership_spec_witness:
  "bit (fst (apply_ownership (default_options\<lparr>opt_umask := Some 2\<rparr>) 0x81FF 0 0)) 0
   \<and> \<not> bit (fst (apply_ownership (default_options\<lparr>opt_umask := Some 2\<rparr>) 0x81FF 0 0)) 1"
proof -
  let ?fo = "default_options\<lparr>opt_umask := Some 2\<rparr>"
  obtain md u g where a: "apply_ownership ?fo 0x81FF 0 0 = (md, u, g)"
    by (cases "apply_ownership ?fo 0x81FF 0 0")
  have b: "bit md n = (n < 9 \<and> \<not> bit (2 :: u32) n)" if "n < 12" for n
    using apply_ownership_spec[where fo = ?fo and md = "0x81FF" and u = 0 and g = 0] that
    unfolding a by simp
  show ?thesis using b[of 0] b[of 1] by (simp add: a bit_0)
qed

end
