(* ===== verification/HostFs.thy ===== *)
theory HostFs
  imports RustStr
begin

text \<open>
  The part of \<open>std::fs\<close> the program uses, on the host's files below the temporary directory.
  A name leads to a node and an open \<open>File\<close> is a reference to a node, so a handle outlives
  the removal of its name, as a descriptor does. Any call can fail or be short: the host
  carries a list of the outcomes its next calls will have, so a property that holds for every
  list holds whatever the host does. Errors are OS error numbers.
\<close>

subsection \<open>State\<close>

datatype fault = NoFault | FailWith int | ShortCount nat

record host =
  h_names :: "string \<Rightarrow> nat option"
  h_files :: "nat \<Rightarrow> string"
  h_next :: nat
  h_faults :: "fault list"

definition ENOENT :: int where "ENOENT = 2"
definition EIO :: int where "EIO = 5"
definition EBADF :: int where "EBADF = 9"
definition EAGAIN :: int where "EAGAIN = 11"
definition EACCES :: int where "EACCES = 13"
definition EBUSY :: int where "EBUSY = 16"
definition EEXIST :: int where "EEXIST = 17"
definition EXDEV :: int where "EXDEV = 18"
definition ENOTDIR :: int where "ENOTDIR = 20"
definition EISDIR :: int where "EISDIR = 21"
definition EINVAL :: int where "EINVAL = 22"
definition ENOSPC :: int where "ENOSPC = 28"
definition EROFS :: int where "EROFS = 30"
definition ENAMETOOLONG :: int where "ENAMETOOLONG = 36"
definition ENOSYS :: int where "ENOSYS = 38"
definition ENOTEMPTY :: int where "ENOTEMPTY = 39"
definition EPERM :: int where "EPERM = 1"

lemmas errno_defs = ENOENT_def EIO_def EBADF_def EAGAIN_def EACCES_def EBUSY_def EEXIST_def
  EXDEV_def ENOTDIR_def EISDIR_def EINVAL_def ENOSPC_def EROFS_def ENAMETOOLONG_def ENOSYS_def
  ENOTEMPTY_def EPERM_def

subsection \<open>Calls\<close>

definition next_fault :: "host \<Rightarrow> fault \<times> host" where
  "next_fault h = (case h_faults h of [] \<Rightarrow> (NoFault, h) | f # fs \<Rightarrow> (f, h\<lparr>h_faults := fs\<rparr>))"

text \<open>\<open>File::create\<close>: truncates an existing file, makes a new one otherwise.\<close>

definition host_create :: "string \<Rightarrow> host \<Rightarrow> (int, nat) res \<times> host" where
  "host_create p h0 =
     (case next_fault h0 of
        (FailWith e, h) \<Rightarrow> (Err e, h)
      | (_, h) \<Rightarrow> (case h_names h p of
          Some i \<Rightarrow> (Ok i, h\<lparr>h_files := (h_files h)(i := [])\<rparr>)
        | None \<Rightarrow> (Ok (h_next h), h\<lparr>h_names := (h_names h)(p \<mapsto> h_next h),
              h_files := (h_files h)(h_next h := []), h_next := Suc (h_next h)\<rparr>)))"

text \<open>\<open>OpenOptions::open\<close> without \<open>create\<close>.\<close>

definition host_open :: "string \<Rightarrow> host \<Rightarrow> (int, nat) res \<times> host" where
  "host_open p h0 =
     (case next_fault h0 of
        (FailWith e, h) \<Rightarrow> (Err e, h)
      | (_, h) \<Rightarrow> (case h_names h p of Some i \<Rightarrow> (Ok i, h) | None \<Rightarrow> (Err ENOENT, h)))"

definition resize :: "nat \<Rightarrow> string \<Rightarrow> string" where
  "resize n s = take n s @ replicate (n - length s) (CHR 0x00)"

text \<open>\<open>File::set_len\<close>: a length above the range of \<open>off_t\<close> is invalid input.\<close>

definition host_set_len :: "nat \<Rightarrow> u64 \<Rightarrow> host \<Rightarrow> (int, unit) res \<times> host" where
  "host_set_len i n h0 =
     (case next_fault h0 of
        (FailWith e, h) \<Rightarrow> (Err e, h)
      | (_, h) \<Rightarrow>
          if 2 ^ 63 \<le> unat n then (Err EINVAL, h)
          else (Ok (), h\<lparr>h_files := (h_files h)(i := resize (unat n) (h_files h i))\<rparr>))"

text \<open>\<open>seek(SeekFrom::Start(off))\<close> and one \<open>read\<close> into a buffer of \<open>n\<close> bytes.\<close>

definition host_read_at :: "nat \<Rightarrow> u64 \<Rightarrow> nat \<Rightarrow> host \<Rightarrow> (int, string) res \<times> host" where
  "host_read_at i off n h0 =
     (if 2 ^ 63 \<le> unat off then (Err EINVAL, h0)
      else case next_fault h0 of
        (FailWith e, h) \<Rightarrow> (Err e, h)
      | (ShortCount k, h) \<Rightarrow> (Ok (take (min k n) (drop (unat off) (h_files h i))), h)
      | (NoFault, h) \<Rightarrow> (Ok (take n (drop (unat off) (h_files h i))), h))"

definition write_bytes :: "nat \<Rightarrow> string \<Rightarrow> string \<Rightarrow> string" where
  "write_bytes off d s =
     (if d = [] then s else resize off s @ d @ drop (off + length d) s)"

text \<open>\<open>seek(SeekFrom::Start(off))\<close> and one \<open>write\<close>: the number of bytes written.\<close>

definition host_write_at :: "nat \<Rightarrow> u64 \<Rightarrow> string \<Rightarrow> host \<Rightarrow> (int, nat) res \<times> host" where
  "host_write_at i off d h0 =
     (if 2 ^ 63 \<le> unat off then (Err EINVAL, h0)
      else case next_fault h0 of
        (FailWith e, h) \<Rightarrow> (Err e, h)
      | (ShortCount k, h) \<Rightarrow> (Ok (min k (length d)),
          h\<lparr>h_files := (h_files h)(i := write_bytes (unat off) (take k d) (h_files h i))\<rparr>)
      | (NoFault, h) \<Rightarrow> (Ok (length d),
          h\<lparr>h_files := (h_files h)(i := write_bytes (unat off) d (h_files h i))\<rparr>))"

text \<open>\<open>remove_file\<close>: the name goes, the node stays for the handles on it.\<close>

definition host_remove :: "string \<Rightarrow> host \<Rightarrow> (int, unit) res \<times> host" where
  "host_remove p h0 =
     (case next_fault h0 of
        (FailWith e, h) \<Rightarrow> (Err e, h)
      | (_, h) \<Rightarrow> (case h_names h p of
          Some i \<Rightarrow> (Ok (), h\<lparr>h_names := (h_names h)(p := None)\<rparr>)
        | None \<Rightarrow> (Err ENOENT, h)))"

text \<open>\<open>mknod(2)\<close> on a fresh name; the node starts empty.\<close>

definition host_mknod :: "string \<Rightarrow> host \<Rightarrow> (int, unit) res \<times> host" where
  "host_mknod p h0 =
     (case next_fault h0 of
        (FailWith e, h) \<Rightarrow> (Err e, h)
      | (_, h) \<Rightarrow> (case h_names h p of
          Some i \<Rightarrow> (Err EEXIST, h)
        | None \<Rightarrow> (Ok (), h\<lparr>h_names := (h_names h)(p \<mapsto> h_next h),
              h_files := (h_files h)(h_next h := []), h_next := Suc (h_next h)\<rparr>)))"

text \<open>\<open>std::fs::write\<close>: create, then write the rest until nothing is left.\<close>

function host_write_all :: "nat \<Rightarrow> nat \<Rightarrow> string \<Rightarrow> host \<Rightarrow> (int, unit) res \<times> host" where
  "host_write_all i off d h0 =
     (if d = [] then (Ok (), h0)
      else case next_fault h0 of
        (FailWith e, h) \<Rightarrow> (Err e, h)
      | (ShortCount k, h) \<Rightarrow>
          if k = 0 then (Err EIO, h)
          else host_write_all i (off + min k (length d)) (drop k d)
            (h\<lparr>h_files := (h_files h)(i := write_bytes off (take k d) (h_files h i))\<rparr>)
      | (NoFault, h) \<Rightarrow> (Ok (),
          h\<lparr>h_files := (h_files h)(i := write_bytes off d (h_files h i))\<rparr>))"
  by pat_completeness auto
termination by (relation "measure (\<lambda>(i, off, d, h). length d)") auto

declare host_write_all.simps [simp del]

definition host_write_file :: "string \<Rightarrow> string \<Rightarrow> host \<Rightarrow> (int, unit) res \<times> host" where
  "host_write_file p d h0 = try_res (host_create p h0) (\<lambda>i h. host_write_all i 0 d h)"

subsection \<open>Contents\<close>

text \<open>The bytes of the file a name leads to.\<close>

definition host_contents :: "host \<Rightarrow> string \<Rightarrow> string option" where
  "host_contents h p = map_option (h_files h) (h_names h p)"

text \<open>Nodes are named at most once, and no node is used before it is made.\<close>

definition host_ok :: "host \<Rightarrow> bool" where
  "host_ok h = ((\<forall>p i. h_names h p = Some i \<longrightarrow> i < h_next h)
    \<and> (\<forall>p q i. h_names h p = Some i \<longrightarrow> h_names h q = Some i \<longrightarrow> p = q))"

lemma next_fault_sel [simp]:
  "h_names (snd (next_fault h)) = h_names h" "h_files (snd (next_fault h)) = h_files h"
  "h_next (snd (next_fault h)) = h_next h"
  by (simp_all add: next_fault_def split: list.splits)

lemma next_fault_frame:
  "next_fault h0 = (f, h) \<Longrightarrow> h_names h = h_names h0 \<and> h_files h = h_files h0 \<and> h_next h = h_next h0"
  by (metis next_fault_sel snd_conv)

lemma host_ok_cong:
  "h_names h = h_names h0 \<Longrightarrow> h_next h = h_next h0 \<Longrightarrow> host_ok h = host_ok h0"
  by (simp add: host_ok_def)

lemmas host_call_defs = host_create_def host_open_def host_set_len_def host_read_at_def
  host_write_at_def host_remove_def host_mknod_def

lemma host_ok_fresh:
  assumes "host_ok h" and "h_names h' = (h_names h)(p \<mapsto> h_next h)" and "h_next h' = Suc (h_next h)"
  shows "host_ok h'"
  using assms unfolding host_ok_def
  by (auto simp: less_Suc_eq split: if_splits)

lemma host_create_ok: "host_ok h \<Longrightarrow> host_ok (snd (host_create p h))"
proof -
  assume ok: "host_ok h"
  obtain f g where n: "next_fault h = (f, g)" by (cases "next_fault h")
  with ok have g: "host_ok g" using next_fault_frame[OF n] by (simp add: host_ok_def)
  then have "host_ok (g\<lparr>h_names := (h_names g)(p \<mapsto> h_next g),
      h_files := (h_files g)(h_next g := []), h_next := Suc (h_next g)\<rparr>)"
    by (rule host_ok_fresh) simp_all
  moreover have "host_ok (g\<lparr>h_files := k\<rparr>)" for k using g by (simp add: host_ok_def)
  ultimately show ?thesis
    using g by (simp add: host_create_def n split: option.splits fault.splits)
qed

lemma host_create_contents:
  "host_create p h0 = (Ok i, h) \<Longrightarrow> h_names h p = Some i \<and> h_files h i = []
    \<and> (\<forall>q. q \<noteq> p \<longrightarrow> h_names h q = h_names h0 q)"
  by (auto simp: host_create_def split: prod.splits fault.splits option.splits dest: next_fault_frame)

lemma resize_length [simp]: "length (resize n s) = n"
  by (simp add: resize_def)

lemma write_bytes_read:
  "take (length d) (drop off (write_bytes off d s)) = d"
  by (simp add: write_bytes_def)

lemma write_bytes_keep:
  assumes "j < length s" and "j < off \<or> off + length d \<le> j"
  shows "write_bytes off d s ! j = s ! j"
  using assms by (auto simp: write_bytes_def resize_def nth_append)

end
