(* ===== verification/Adb.thy ===== *)
theory Adb
  imports HostFs
begin

text \<open>
  The transport to a device (\<open>src/src/adb/\<close>). The trait \<open>AdbDevice\<close> is a record of its
  five operations over the world, the state of the device and of the host's files. \<open>AdbCli\<close>
  runs the \<open>adb\<close> program, which is not part of the repository: it is the parameter \<open>exec\<close>.
  \<open>MockAdb\<close> is the test double, a device that answers from a queue.
\<close>

subsection \<open>The trait\<close>

record shell_output =
  so_stdout :: "string list"
  so_stderr :: "string list"
  so_exit_code :: int

datatype adb_error =
    DeviceNotFound
  | AdbPermissionDenied string
  | CommandFailed int string
  | AdbIo int

record 'd world =
  w_dev :: 'd
  w_host :: host

record 'd adb_device =
  adb_shell :: "string \<Rightarrow> 'd world \<Rightarrow> (adb_error, string list) res \<times> 'd world"
  adb_shell_with_stderr :: "string \<Rightarrow> 'd world \<Rightarrow> (adb_error, shell_output) res \<times> 'd world"
  adb_pull :: "string \<Rightarrow> string \<Rightarrow> 'd world \<Rightarrow> (adb_error, unit) res \<times> 'd world"
  adb_push :: "string \<Rightarrow> string \<Rightarrow> 'd world \<Rightarrow> (adb_error, unit) res \<times> 'd world"
  adb_sync_device :: "'d world \<Rightarrow> (adb_error, unit) res \<times> 'd world"

text \<open>A host call as a step of the world.\<close>

definition on_host :: "(host \<Rightarrow> 'r \<times> host) \<Rightarrow> 'd world \<Rightarrow> 'r \<times> 'd world" where
  "on_host f w = (case f (w_host w) of (r, h) \<Rightarrow> (r, w\<lparr>w_host := h\<rparr>))"

subsection \<open>The command line transport\<close>

text \<open>\<open>std::process::Output\<close>: the exit code, \<open>None\<close> after a signal, and the two streams.\<close>

record proc_output =
  out_code :: "int option"
  out_stdout :: string
  out_stderr :: string

type_synonym 'd exec = "string list \<Rightarrow> 'd world \<Rightarrow> (int, proc_output) res \<times> 'd world"

definition out_success :: "proc_output \<Rightarrow> bool" where
  "out_success o1 = (out_code o1 = Some 0)"

definition code_or :: "int \<Rightarrow> proc_output \<Rightarrow> int" where
  "code_or d o1 = (case out_code o1 of None \<Rightarrow> d | Some c \<Rightarrow> c)"

definition to_lines :: "string \<Rightarrow> string list" where
  "to_lines bytes = map (trim_end_char (CHR 0x0D)) (str_lines (utf8_lossy bytes))"

definition cli_run ::
  "'d exec \<Rightarrow> string option \<Rightarrow> string list \<Rightarrow> 'd world \<Rightarrow> (adb_error, proc_output) res \<times> 'd world" where
  "cli_run exec serial args w =
     map_err_res AdbIo
       (exec (''adb'' # (case serial of Some s \<Rightarrow> [''-s'', s] | None \<Rightarrow> []) @ args) w)"

definition cli_transfer ::
  "'d exec \<Rightarrow> string option \<Rightarrow> string \<Rightarrow> string \<Rightarrow> string \<Rightarrow> 'd world
    \<Rightarrow> (adb_error, unit) res \<times> 'd world" where
  "cli_transfer exec serial verb src dst w =
     try_res (cli_run exec serial [verb, src, dst] w) (\<lambda>o1 w.
       if \<not> out_success o1 then (Err (CommandFailed (code_or (-1) o1) (utf8_lossy (out_stderr o1))), w)
       else (Ok (), w))"

definition cli_shell ::
  "'d exec \<Rightarrow> string option \<Rightarrow> string \<Rightarrow> 'd world \<Rightarrow> (adb_error, string list) res \<times> 'd world" where
  "cli_shell exec serial command w =
     try_res (cli_run exec serial [''shell'', command] w) (\<lambda>o1 w.
       let lines = to_lines (out_stdout o1)
       in if lines = [] \<and> \<not> out_success o1 then (Err DeviceNotFound, w) else (Ok lines, w))"

definition cli_shell_with_stderr ::
  "'d exec \<Rightarrow> string option \<Rightarrow> string \<Rightarrow> 'd world \<Rightarrow> (adb_error, shell_output) res \<times> 'd world" where
  "cli_shell_with_stderr exec serial command w =
     try_res (cli_run exec serial [''shell'', command] w) (\<lambda>o1 w.
       (Ok \<lparr>so_stdout = to_lines (out_stdout o1), so_stderr = to_lines (out_stderr o1),
            so_exit_code = code_or (-1) o1\<rparr>, w))"

definition cli_pull where
  "cli_pull exec serial remote local = cli_transfer exec serial ''pull'' remote local"

definition cli_push where
  "cli_push exec serial local remote = cli_transfer exec serial ''push'' local remote"

definition cli_sync_device ::
  "'d exec \<Rightarrow> string option \<Rightarrow> 'd world \<Rightarrow> (adb_error, unit) res \<times> 'd world" where
  "cli_sync_device exec serial w =
     try_res (cli_shell exec serial ''sync'' w) (\<lambda>_ w. (Ok (), w))"

definition adb_cli :: "'d exec \<Rightarrow> string option \<Rightarrow> 'd adb_device" where
  "adb_cli exec serial =
     \<lparr>adb_shell = cli_shell exec serial,
      adb_shell_with_stderr = cli_shell_with_stderr exec serial,
      adb_pull = cli_pull exec serial, adb_push = cli_push exec serial,
      adb_sync_device = cli_sync_device exec serial\<rparr>"

subsection \<open>The test double\<close>

record mock_adb =
  mk_responses :: "(adb_error, shell_output) res list"
  mk_commands :: "string list"
  mk_pushes :: "(string \<times> string) list"
  mk_pull_content :: string
  mk_pull_fails :: bool

definition mock_out :: "string list \<Rightarrow> (adb_error, shell_output) res" where
  "mock_out lines = Ok \<lparr>so_stdout = lines, so_stderr = [], so_exit_code = 0\<rparr>"

definition mock_failed :: "int \<Rightarrow> string list \<Rightarrow> (adb_error, shell_output) res" where
  "mock_failed code stderr = Ok \<lparr>so_stdout = [], so_stderr = stderr, so_exit_code = code\<rparr>"

definition mock_new :: "(adb_error, shell_output) res list \<Rightarrow> mock_adb" where
  "mock_new responses =
     \<lparr>mk_responses = responses, mk_commands = [], mk_pushes = [], mk_pull_content = [],
      mk_pull_fails = False\<rparr>"

definition mock_silent :: mock_adb where
  "mock_silent = mock_new []"

definition mock_with_content :: "string \<Rightarrow> mock_adb \<Rightarrow> mock_adb" where
  "mock_with_content c m = m\<lparr>mk_pull_content := c\<rparr>"

definition mock_with_failing_pull :: "mock_adb \<Rightarrow> mock_adb" where
  "mock_with_failing_pull m = m\<lparr>mk_pull_fails := True\<rparr>"

definition mock_next :: "string \<Rightarrow> mock_adb world \<Rightarrow> (adb_error, shell_output) res \<times> mock_adb world" where
  "mock_next command w =
     (let m = (w_dev w)\<lparr>mk_commands := mk_commands (w_dev w) @ [command]\<rparr>
      in case mk_responses m of
           [] \<Rightarrow> (mock_out [], w\<lparr>w_dev := m\<rparr>)
         | r # rs \<Rightarrow> (r, w\<lparr>w_dev := m\<lparr>mk_responses := rs\<rparr>\<rparr>))"

definition mock_shell :: "string \<Rightarrow> mock_adb world \<Rightarrow> (adb_error, string list) res \<times> mock_adb world" where
  "mock_shell command w = try_res (mock_next command w) (\<lambda>o1 w. (Ok (so_stdout o1), w))"

definition mock_pull :: "string \<Rightarrow> string \<Rightarrow> mock_adb world \<Rightarrow> (adb_error, unit) res \<times> mock_adb world" where
  "mock_pull remote local w =
     (if mk_pull_fails (w_dev w)
      then (Err (CommandFailed 1 ''remote object does not exist''), w)
      else map_err_res AdbIo (on_host (host_write_file local (mk_pull_content (w_dev w))) w))"

definition mock_push :: "string \<Rightarrow> string \<Rightarrow> mock_adb world \<Rightarrow> (adb_error, unit) res \<times> mock_adb world" where
  "mock_push local remote w =
     (Ok (), w\<lparr>w_dev := (w_dev w)\<lparr>mk_pushes := mk_pushes (w_dev w) @ [(local, remote)]\<rparr>\<rparr>)"

definition mock_sync_device :: "mock_adb world \<Rightarrow> (adb_error, unit) res \<times> mock_adb world" where
  "mock_sync_device w = (Ok (), w)"

definition mock_device :: "mock_adb adb_device" where
  "mock_device =
     \<lparr>adb_shell = mock_shell, adb_shell_with_stderr = mock_next, adb_pull = mock_pull,
      adb_push = mock_push, adb_sync_device = mock_sync_device\<rparr>"

lemmas mock_defs = mock_device_def mock_shell_def mock_next_def mock_pull_def mock_push_def
  mock_sync_device_def mock_out_def mock_failed_def mock_new_def mock_silent_def

subsection \<open>The contract of a transport\<close>

text \<open>
  What both implementations promise: \<open>shell\<close> and \<open>shell_with_stderr\<close> do the same to the
  world, and \<open>shell\<close> answers the standard output of the same run.
\<close>

locale transport =
  fixes D :: "'d adb_device"
  assumes shell_effect: "snd (adb_shell D cmd w) = snd (adb_shell_with_stderr D cmd w)"
    and shell_stdout: "adb_shell D cmd w = (Ok ls, w') \<Longrightarrow>
      \<exists>o1. adb_shell_with_stderr D cmd w = (Ok o1, w') \<and> so_stdout o1 = ls"
begin

definition effect :: "string \<Rightarrow> 'd world \<Rightarrow> 'd world" where
  "effect cmd w = snd (adb_shell_with_stderr D cmd w)"

lemma effect_shell: "adb_shell D cmd w = (r, w') \<Longrightarrow> w' = effect cmd w"
  using shell_effect[of cmd w] by (simp add: effect_def)

lemma effect_shell_with_stderr: "adb_shell_with_stderr D cmd w = (r, w') \<Longrightarrow> w' = effect cmd w"
  by (simp add: effect_def)

end

lemma cli_run_cases:
  obtains (ok) o1 w' where "cli_run exec serial args w = (Ok o1, w')"
  | (err) e w' where "cli_run exec serial args w = (Err e, w')"
  | (panic) w' where "cli_run exec serial args w = (Panicked, w')"
  by (cases "cli_run exec serial args w"; cases "fst (cli_run exec serial args w)") auto

interpretation cli: transport "adb_cli exec serial" for exec serial
proof unfold_locales
  fix cmd w
  show "snd (adb_shell (adb_cli exec serial) cmd w)
      = snd (adb_shell_with_stderr (adb_cli exec serial) cmd w)"
    by (cases rule: cli_run_cases[of exec serial "[''shell'', cmd]" w])
      (simp_all add: adb_cli_def cli_shell_def cli_shell_with_stderr_def Let_def)
next
  fix cmd w ls w'
  show "adb_shell (adb_cli exec serial) cmd w = (Ok ls, w') \<Longrightarrow>
      \<exists>o1. adb_shell_with_stderr (adb_cli exec serial) cmd w = (Ok o1, w') \<and> so_stdout o1 = ls"
    by (cases rule: cli_run_cases[of exec serial "[''shell'', cmd]" w])
      (auto simp: adb_cli_def cli_shell_def cli_shell_with_stderr_def Let_def split: if_splits)
qed

interpretation mock: transport mock_device
proof unfold_locales
  fix cmd w
  show "snd (adb_shell mock_device cmd w) = snd (adb_shell_with_stderr mock_device cmd w)"
    by (cases "mock_next cmd w"; cases "fst (mock_next cmd w)")
      (auto simp: mock_device_def mock_shell_def)
next
  fix cmd w ls w'
  show "adb_shell mock_device cmd w = (Ok ls, w') \<Longrightarrow>
      \<exists>o1. adb_shell_with_stderr mock_device cmd w = (Ok o1, w') \<and> so_stdout o1 = ls"
    by (cases "mock_next cmd w"; cases "fst (mock_next cmd w)")
      (auto simp: mock_device_def mock_shell_def)
qed

end
