(* ===== verification/Escape.thy ===== *)
theory Escape
  imports RustStr
begin

text \<open>
  Shell escaping (\<open>src/src/escape.rs\<close>): the three escaping functions and the unquoting
  reference the tests of that file use. \<open>sh_parse\<close> is the specification they are judged by:
  the POSIX splitting of a command line into simple commands joined by \<open>&&\<close> and those into
  words. The locale \<open>word_quoting\<close> is the contract the device operations rely on.
\<close>

subsection \<open>The escaping functions\<close>

definition shell_escape_path :: "string \<Rightarrow> string" where
  "shell_escape_path path = replace_char squote [squote, bslash, squote, squote] path"

definition shell_escape_command :: "string \<Rightarrow> string" where
  "shell_escape_command cmd =
     (let s = replace_char bslash [bslash, bslash] cmd;
          s = replace_char squote [bslash, squote] s
      in replace_char backtick [bslash, backtick] s)"

definition ADB_ESCAPE_CHARS :: "char list" where
  "ADB_ESCAPE_CHARS =
     [bslash, CHR ''('', CHR '')'', squote, backtick, CHR 0x7C, CHR 0x26, CHR 0x3B, CHR 0x3C,
      CHR 0x3E, CHR 0x2A, CHR 0x23, CHR 0x25, CHR 0x3D, CHR 0x7E]"

definition ANSI_STRIP_PATTERNS :: "string list" where
  "ANSI_STRIP_PATTERNS = [''/[0;0m'', ''/[1;32m'', ''/[1;34m'', ''/[1;36m'']"

definition strip_ansi :: "string \<Rightarrow> string" where
  "strip_ansi cmd = foldl (\<lambda>s p. replace_sub p [] s) cmd ANSI_STRIP_PATTERNS"

definition adb_shell_escape_command :: "string \<Rightarrow> string" where
  "adb_shell_escape_command cmd =
     (let s = strip_ansi cmd;
          s = replace_char bslash [bslash, bslash] s
      in foldl (\<lambda>s ch. replace_sub [ch] [bslash, ch] s) s (drop 1 ADB_ESCAPE_CHARS))"

text \<open>The unquoting reference: \<open>'\<close> toggles, a backslash escapes outside quotes, \<open>None\<close>
  for an unbalanced quote or a dangling backslash.\<close>

fun shell_unquote_go :: "bool \<Rightarrow> string \<Rightarrow> string \<Rightarrow> string option" where
  "shell_unquote_go quoted out [] = (if quoted then None else Some out)"
| "shell_unquote_go quoted out (c # cs) =
     (if c = squote then shell_unquote_go (\<not> quoted) out cs
      else if c = bslash \<and> \<not> quoted then
        (case cs of [] \<Rightarrow> None | d # ds \<Rightarrow> shell_unquote_go quoted (out @ [d]) ds)
      else shell_unquote_go quoted (out @ [c]) cs)"

definition shell_unquote :: "string \<Rightarrow> string option" where
  "shell_unquote s = shell_unquote_go False [] s"

text \<open>The format \<open>'{escaped}'\<close> every device command embeds a path in.\<close>

definition single_quoted :: "string \<Rightarrow> string" where
  "single_quoted path = [squote] @ shell_escape_path path @ [squote]"

subsection \<open>Backslash escaping as one pass\<close>

definition escape_set :: "char set \<Rightarrow> string \<Rightarrow> string" where
  "escape_set A s = concat (map (\<lambda>c. if c \<in> A then [bslash, c] else [c]) s)"

lemma escape_set_simps [simp]:
  "escape_set A [] = []"
  "escape_set A (c # cs) = (if c \<in> A then [bslash, c] else [c]) @ escape_set A cs"
  by (simp_all add: escape_set_def)

lemma escape_set_bslash: "replace_char bslash [bslash, bslash] s = escape_set {bslash} s"
  by (induction s) auto

lemma escape_set_insert:
  "x \<noteq> bslash \<Longrightarrow> x \<notin> A \<Longrightarrow>
   replace_char x [bslash, x] (escape_set A s) = escape_set (insert x A) s"
  by (induction s) auto

lemma replace_sub_single: "replace_sub [x] r s = replace_char x r s"
proof (induction s)
  case (Cons c cs)
  then show ?case by auto
qed simp

lemma shell_escape_command_eq:
  "shell_escape_command s = escape_set {bslash, squote, backtick} s"
  by (simp add: shell_escape_command_def escape_set_bslash escape_set_insert insert_commute)

lemma escape_fold:
  "distinct xs \<Longrightarrow> set xs \<inter> A = {} \<Longrightarrow> bslash \<notin> set xs \<Longrightarrow>
   foldl (\<lambda>s ch. replace_sub [ch] [bslash, ch] s) (escape_set A s) xs = escape_set (A \<union> set xs) s"
proof (induction xs arbitrary: A)
  case (Cons x xs)
  then have "foldl (\<lambda>s ch. replace_sub [ch] [bslash, ch] s) (escape_set (insert x A) s) xs
      = escape_set (insert x A \<union> set xs) s"
    by (intro Cons.IH) auto
  moreover have "replace_char x [bslash, x] (escape_set A s) = escape_set (insert x A) s"
    using Cons.prems by (intro escape_set_insert) auto
  ultimately show ?case by (simp add: replace_sub_single)
qed simp

lemma adb_shell_escape_command_eq:
  "adb_shell_escape_command s = escape_set (set ADB_ESCAPE_CHARS) (strip_ansi s)"
proof -
  have "set ADB_ESCAPE_CHARS = {bslash} \<union> set (drop 1 ADB_ESCAPE_CHARS)"
    by (auto simp: ADB_ESCAPE_CHARS_def)
  moreover have "foldl (\<lambda>s ch. replace_sub [ch] [bslash, ch] s)
      (escape_set {bslash} (strip_ansi s)) (drop 1 ADB_ESCAPE_CHARS)
    = escape_set ({bslash} \<union> set (drop 1 ADB_ESCAPE_CHARS)) (strip_ansi s)"
    by (rule escape_fold) (simp_all add: ADB_ESCAPE_CHARS_def)
  ultimately show ?thesis
    by (simp add: adb_shell_escape_command_def escape_set_bslash)
qed

lemma unquote_escape_set:
  "bslash \<in> A \<Longrightarrow> squote \<in> A \<Longrightarrow>
   shell_unquote_go False out (escape_set A s) = Some (out @ s)"
  by (induction s arbitrary: out) auto

subsection \<open>Quoted words and the unquoting reference\<close>

lemma shell_escape_path_simps [simp]:
  "shell_escape_path [] = []"
  "shell_escape_path (c # cs) =
     (if c = squote then [squote, bslash, squote, squote] else [c]) @ shell_escape_path cs"
  "shell_escape_path (u @ v) = shell_escape_path u @ shell_escape_path v"
  by (simp_all add: shell_escape_path_def)

lemma shell_escape_path_id: "squote \<notin> set p \<Longrightarrow> shell_escape_path p = p"
  by (simp add: shell_escape_path_def replace_char_absent)

lemma unquote_escaped_path:
  "shell_unquote_go True out (shell_escape_path p @ r) = shell_unquote_go True (out @ p) r"
  by (induction p arbitrary: out) auto

subsection \<open>The specification: POSIX word splitting\<close>

text \<open>
  A scanner over the characters. In \<open>Plain\<close> mode only the characters of \<open>plain_char\<close>
  stand for themselves; a character that could expand, redirect, separate or substitute
  makes the scan fail, so a successful parse shows that none occurs outside quotes.
\<close>

datatype sh_mode = Plain | Quoted | Escaped | Amp

record sh_state =
  mode_of :: sh_mode
  cur_word :: "string option"
  args_of :: "string list"
  cmds_of :: "string list list"

definition plain_char :: "char \<Rightarrow> bool" where
  "plain_char c =
     ((48 \<le> byte c \<and> byte c \<le> 57) \<or> (65 \<le> byte c \<and> byte c \<le> 90)
      \<or> (97 \<le> byte c \<and> byte c \<le> 122) \<or> c \<in> set ''-_./:@+,'')"

definition sh_init :: sh_state where
  "sh_init = \<lparr>mode_of = Plain, cur_word = None, args_of = [], cmds_of = []\<rparr>"

definition push_word :: "sh_state \<Rightarrow> string \<Rightarrow> sh_state" where
  "push_word st w =
     st\<lparr>cur_word := Some (case cur_word st of None \<Rightarrow> w | Some v \<Rightarrow> v @ w)\<rparr>"

definition end_word :: "sh_state \<Rightarrow> sh_state" where
  "end_word st = (case cur_word st of None \<Rightarrow> st
     | Some w \<Rightarrow> st\<lparr>cur_word := None, args_of := args_of st @ [w]\<rparr>)"

definition end_cmd :: "sh_state \<Rightarrow> sh_state option" where
  "end_cmd st = (let t = end_word st in
     if args_of t = [] then None
     else Some (t\<lparr>args_of := [], cmds_of := cmds_of t @ [args_of t]\<rparr>))"

definition sh_step :: "sh_state \<Rightarrow> char \<Rightarrow> sh_state option" where
  "sh_step st c = (case mode_of st of
     Quoted \<Rightarrow> if c = squote then Some (st\<lparr>mode_of := Plain\<rparr>) else Some (push_word st [c])
   | Escaped \<Rightarrow> if c = CHR 0x0A then Some (st\<lparr>mode_of := Plain\<rparr>)
                else Some ((push_word st [c])\<lparr>mode_of := Plain\<rparr>)
   | Amp \<Rightarrow> if c = CHR 0x26 then map_option (\<lambda>t. t\<lparr>mode_of := Plain\<rparr>) (end_cmd st) else None
   | Plain \<Rightarrow>
       if c = squote then Some ((push_word st [])\<lparr>mode_of := Quoted\<rparr>)
       else if c = bslash then Some (st\<lparr>mode_of := Escaped\<rparr>)
       else if c = CHR 0x20 \<or> c = CHR 0x09 then Some (end_word st)
       else if c = CHR 0x26 then Some (st\<lparr>mode_of := Amp\<rparr>)
       else if plain_char c then Some (push_word st [c])
       else None)"

fun sh_scan :: "sh_state \<Rightarrow> string \<Rightarrow> sh_state option" where
  "sh_scan st [] = Some st"
| "sh_scan st (c # cs) = (case sh_step st c of None \<Rightarrow> None | Some t \<Rightarrow> sh_scan t cs)"

definition sh_parse :: "string \<Rightarrow> string list list option" where
  "sh_parse s = (case sh_scan sh_init s of None \<Rightarrow> None
     | Some st \<Rightarrow> if mode_of st = Plain then map_option cmds_of (end_cmd st) else None)"

lemma sh_scan_append:
  "sh_scan st (u @ v) = (case sh_scan st u of None \<Rightarrow> None | Some t \<Rightarrow> sh_scan t v)"
  by (induction u arbitrary: st) (auto split: option.splits)

lemma push_word_mode [simp]: "mode_of (push_word st w) = mode_of st"
  by (simp add: push_word_def)

lemma push_word_push [simp]: "push_word (push_word st u) v = push_word st (u @ v)"
  by (simp add: push_word_def split: option.splits)

lemma push_word_upd [simp]:
  "push_word (st\<lparr>mode_of := m\<rparr>) w = (push_word st w)\<lparr>mode_of := m\<rparr>"
  by (simp add: push_word_def)

lemma mode_upd_same: "mode_of st = m \<Longrightarrow> st\<lparr>mode_of := m\<rparr> = st"
  by (cases st) simp

lemma sh_scan_escaped_path:
  "mode_of st = Quoted \<Longrightarrow> cur_word st = Some w \<Longrightarrow>
   sh_scan st (shell_escape_path p @ r) = sh_scan (push_word st p) r"
proof (induction p arbitrary: st w)
  case Nil
  then show ?case by (cases st) (simp add: push_word_def)
next
  case (Cons c cs)
  have "sh_scan st (shell_escape_path (c # cs) @ r)
      = sh_scan (push_word st [c]) (shell_escape_path cs @ r)"
    using Cons.prems by (cases st) (auto simp: sh_step_def push_word_def)
  also have "\<dots> = sh_scan (push_word (push_word st [c]) cs) r"
    using Cons.prems by (intro Cons.IH) (auto simp: push_word_def)
  finally show ?case by simp
qed

lemma sh_scan_plain:
  "mode_of st = Plain \<Longrightarrow> \<forall>c\<in>set w. plain_char c \<Longrightarrow> w \<noteq> [] \<Longrightarrow>
   sh_scan st w = Some (push_word st w)"
proof (induction w arbitrary: st)
  case (Cons c cs)
  then have "plain_char c" by simp
  then have c: "c \<noteq> squote \<and> c \<noteq> bslash \<and> c \<noteq> CHR 0x20 \<and> c \<noteq> CHR 0x09 \<and> c \<noteq> CHR 0x26"
    by (auto simp: plain_char_def byte_def)
  show ?case
  proof (cases "cs = []")
    case True
    with Cons.prems c show ?thesis by (simp add: sh_step_def)
  next
    case False
    with Cons.prems have "sh_scan (push_word st [c]) cs = Some (push_word (push_word st [c]) cs)"
      by (intro Cons.IH) auto
    with Cons.prems c show ?thesis by (simp add: sh_step_def)
  qed
qed simp


lemma sh_scan_single_quoted:
  "mode_of st = Plain \<Longrightarrow> sh_scan st (single_quoted p) = Some (push_word st p)"
proof -
  assume st: "mode_of st = Plain"
  let ?q = "(push_word st [])\<lparr>mode_of := Quoted\<rparr>"
  have "sh_scan st (single_quoted p) = sh_scan ?q (shell_escape_path p @ [squote])"
    using st by (simp add: single_quoted_def sh_step_def)
  also have "\<dots> = sh_scan (push_word ?q p) [squote]"
    by (rule sh_scan_escaped_path) (auto simp: push_word_def)
  also have "\<dots> = Some (push_word st p)"
    using st by (cases st) (auto simp: sh_step_def push_word_def split: option.splits)
  finally show ?thesis .
qed

subsection \<open>The contract of a quoting function\<close>

text \<open>The words of a fixed command prefix, each followed by a blank: \<open>ls -l -a -d \<close>.\<close>

definition words_sp :: "string list \<Rightarrow> string" where
  "words_sp ws = concat (map (\<lambda>w. w @ '' '') ws)"

definition plain_words :: "string list \<Rightarrow> bool" where
  "plain_words ws = list_all (\<lambda>w. w \<noteq> [] \<and> list_all plain_char w) ws"

lemma sh_scan_words:
  "plain_words ws \<Longrightarrow> mode_of st = Plain \<Longrightarrow> cur_word st = None \<Longrightarrow>
   sh_scan st (words_sp ws) = Some (st\<lparr>args_of := args_of st @ ws\<rparr>)"
proof (induction ws arbitrary: st)
  case Nil
  then show ?case by (simp add: words_sp_def)
next
  case (Cons w ws)
  let ?t = "st\<lparr>args_of := args_of st @ [w]\<rparr>"
  from Cons.prems have w: "sh_scan st w = Some (push_word st w)"
    by (intro sh_scan_plain) (auto simp: plain_words_def list_all_iff)
  have t: "sh_scan (push_word st w) '' '' = Some ?t"
    using Cons.prems by (cases st) (simp add: sh_step_def end_word_def push_word_def)
  have "sh_scan st (words_sp (w # ws)) = sh_scan ?t (words_sp ws)"
    using sh_scan_append[of st w "'' '' @ words_sp ws"] w t
      sh_scan_append[of "push_word st w" "'' ''" "words_sp ws"]
    by (simp add: words_sp_def)
  also have "\<dots> = Some (?t\<lparr>args_of := args_of ?t @ ws\<rparr>)"
    using Cons.prems by (intro Cons.IH) (auto simp: plain_words_def)
  finally show ?case by simp
qed

locale word_quoting =
  fixes quote :: "string \<Rightarrow> string"
  assumes quote_scan: "mode_of st = Plain \<Longrightarrow> sh_scan st (quote p) = Some (push_word st p)"
begin

text \<open>A command prefix and one quoted argument, from the start of a simple command.\<close>

lemma scan_cmd1:
  assumes "plain_words ws" and "mode_of st = Plain" and "cur_word st = None"
  shows "sh_scan st (words_sp ws @ quote p)
    = Some (st\<lparr>cur_word := Some p, args_of := args_of st @ ws\<rparr>)"
  using assms by (simp add: sh_scan_append sh_scan_words quote_scan push_word_def)

lemma parse_cmd1:
  assumes "plain_words ws"
  shows "sh_parse (words_sp ws @ quote p) = Some [ws @ [p]]"
  using scan_cmd1[OF assms, of sh_init p]
  by (simp add: sh_parse_def sh_init_def end_cmd_def end_word_def)

lemma parse_cmd2:
  assumes "plain_words ws"
  shows "sh_parse (words_sp ws @ quote p @ '' '' @ quote q) = Some [ws @ [p, q]]"
proof -
  let ?s1 = "sh_init\<lparr>cur_word := Some p, args_of := ws\<rparr>"
  let ?s2 = "sh_init\<lparr>args_of := ws @ [p]\<rparr>"
  have "sh_scan sh_init (words_sp ws @ quote p) = Some ?s1"
    using scan_cmd1[OF assms, of sh_init p] by (simp add: sh_init_def)
  moreover have "sh_scan ?s1 '' '' = Some ?s2"
    by (simp add: sh_step_def sh_init_def end_word_def)
  moreover have "sh_scan ?s2 (quote q) = Some (?s2\<lparr>cur_word := Some q\<rparr>)"
    by (subst quote_scan) (simp_all add: sh_init_def push_word_def)
  ultimately have "sh_scan sh_init ((words_sp ws @ quote p) @ '' '' @ quote q)
      = Some (?s2\<lparr>cur_word := Some q\<rparr>)"
    by (simp only: sh_scan_append option.case)
  then show ?thesis
    by (simp add: sh_parse_def sh_init_def end_cmd_def end_word_def)
qed

lemma parse_and:
  assumes "plain_words ws" and "plain_words vs"
  shows "sh_parse ((words_sp ws @ quote p) @ '' && '' @ (words_sp vs @ quote q))
    = Some [ws @ [p], vs @ [q]]"
proof -
  let ?s1 = "sh_init\<lparr>cur_word := Some p, args_of := ws\<rparr>"
  let ?s2 = "sh_init\<lparr>cmds_of := [ws @ [p]]\<rparr>"
  have "sh_scan sh_init (words_sp ws @ quote p) = Some ?s1"
    using scan_cmd1[OF assms(1), of sh_init p] by (simp add: sh_init_def)
  moreover have "sh_scan ?s1 '' && '' = Some ?s2"
    by (simp add: sh_step_def sh_init_def end_word_def end_cmd_def)
  moreover have "sh_scan ?s2 (words_sp vs @ quote q) = Some (?s2\<lparr>cur_word := Some q, args_of := vs\<rparr>)"
    using scan_cmd1[OF assms(2), of ?s2 q] by (simp add: sh_init_def)
  ultimately have "sh_scan sh_init ((words_sp ws @ quote p) @ '' && '' @ (words_sp vs @ quote q))
      = Some (?s2\<lparr>cur_word := Some q, args_of := vs\<rparr>)"
    by (simp only: sh_scan_append option.case)
  then show ?thesis
    by (simp add: sh_parse_def sh_init_def end_cmd_def end_word_def)
qed

end

interpretation sq: word_quoting single_quoted
  by unfold_locales (rule sh_scan_single_quoted)

subsection \<open>Properties\<close>

text \<open>C31. Whatever the path holds, the word \<open>'{escaped}'\<close> is unquoted by the shell to
  exactly that path.\<close>

theorem escape_path_roundtrip:
  "shell_unquote (single_quoted p) = Some p"
  using unquote_escaped_path[of "[]" p "[squote]"]
  by (simp add: shell_unquote_def single_quoted_def)

text \<open>A command escaped for the local shell or for \<open>adb shell\<close> is read back by the shell
  as the command itself, for \<open>adb shell\<close> as the command without the colour fragments.\<close>

lemma escape_command_roundtrip:
  "shell_unquote (shell_escape_command s) = Some s
   \<and> shell_unquote (adb_shell_escape_command s) = Some (strip_ansi s)"
proof -
  have "bslash \<in> set ADB_ESCAPE_CHARS" and "squote \<in> set ADB_ESCAPE_CHARS"
    by (simp_all add: ADB_ESCAPE_CHARS_def)
  then show ?thesis
    by (simp add: shell_unquote_def shell_escape_command_eq adb_shell_escape_command_eq
        unquote_escape_set)
qed

end
