(* ===== verification/DeviceOps.thy ===== *)
theory DeviceOps
  imports Adb Escape Paths
begin

text \<open>
  The device operations (\<open>src/src/ops.rs\<close>): every operation builds one shell command line,
  runs it through the transport and reads the outcome off the output. The transport and the C
  library are the parameters of \<open>dev_env\<close>; \<open>touch_gnu_mode\<close> is passed explicitly.
\<close>

subsection \<open>Errors\<close>

datatype device_error =
    NoDevice
  | PermissionDenied string
  | NotFound string
  | NotSupported
  | Failed int string
  | Adb adb_error

fun to_errno :: "device_error \<Rightarrow> int" where
  "to_errno NoDevice = EAGAIN"
| "to_errno (PermissionDenied p) = EACCES"
| "to_errno (NotFound p) = ENOENT"
| "to_errno NotSupported = ENOSYS"
| "to_errno (Failed errno m) = errno"
| "to_errno (Adb e) = EIO"

definition PERMISSION_ERR_SUFFIX :: string where
  "PERMISSION_ERR_SUFFIX = '': Permission denied''"

definition TOUCH_TOYBOX_ERR_PREFIX :: string where
  "TOUCH_TOYBOX_ERR_PREFIX = ''touch: bad '' @ [squote] @ ''@''"

definition TOUCH_BUSYBOX_ERR_PREFIX :: string where
  "TOUCH_BUSYBOX_ERR_PREFIX = ''touch: invalid date '' @ [squote] @ ''@''"

definition errno_table :: "(string \<times> int) list" where
  "errno_table =
     [(''permission denied'', EACCES),
      (''operation not permitted'', EPERM),
      (''no such file or directory'', ENOENT),
      (''directory not empty'', ENOTEMPTY),
      (''file exists'', EEXIST),
      (''read-only file system'', EROFS),
      (''is a directory'', EISDIR),
      (''not a directory'', ENOTDIR),
      (''cross-device link'', EXDEV),
      (''no space left on device'', ENOSPC),
      (''device or resource busy'', EBUSY),
      (''file name too long'', ENAMETOOLONG),
      (''invalid argument'', EINVAL)]"

definition errno_for_message :: "string \<Rightarrow> int" where
  "errno_for_message message =
     (let lower = to_ascii_lowercase message
      in case List.find (\<lambda>(needle, _). contains_sub lower needle) errno_table of
           None \<Rightarrow> EIO | Some (_, errno) \<Rightarrow> errno)"

text \<open>The first line that is not blank, standard error first.\<close>

definition first_message :: "shell_output \<Rightarrow> string option" where
  "first_message o1 = List.find (\<lambda>l. l \<noteq> []) (map trim (so_stderr o1 @ so_stdout o1))"

definition extract_name_from_perm_error :: "string \<Rightarrow> string option run" where
  "extract_name_from_perm_error line =
     (case rfind_char slash line of
        None \<Rightarrow> Done None
      | Some last_slash \<Rightarrow>
          (case find_sub [squote, CHR 0x20] line of
             None \<Rightarrow> Done None
           | Some end_pos \<Rightarrow>
               if last_slash < end_pos
               then run_bind (slice_range line (last_slash + 1) end_pos) (\<lambda>n. Done (Some n))
               else Done None))"

definition format_touch_time :: "int \<Rightarrow> bool \<Rightarrow> string" where
  "format_touch_time time gnu_format =
     (let d = nat (max 0 time);
          secs = show_nat (d div 1000000000);
          nanos = pad_zero 9 (show_nat (d mod 1000000000))
      in if gnu_format then ''@'' @ secs @ ''.'' @ nanos
         else [backtick] @ ''date -ud @'' @ secs @ ''.'' @ nanos @ '' +%Y-%m-%dT%H:%M:%S'' @ [backtick])"

subsection \<open>State and queries\<close>

record 'd dev_env =
  d_adb :: "'d adb_device"
  d_libc :: libc
  d_rescan :: bool

type_synonym ('d, 'a) dev_op = "'d world \<Rightarrow> (device_error, 'a) res \<times> 'd world"

definition run_shell :: "'d dev_env \<Rightarrow> string \<Rightarrow> ('d, string list) dev_op" where
  "run_shell E cmd w = map_err_res Adb (adb_shell (d_adb E) cmd w)"

definition run_shell_with_stderr :: "'d dev_env \<Rightarrow> string \<Rightarrow> ('d, shell_output) dev_op" where
  "run_shell_with_stderr E cmd w = map_err_res Adb (adb_shell_with_stderr (d_adb E) cmd w)"

definition ls_path_cmd :: "string \<Rightarrow> string" where
  "ls_path_cmd path = ''ls -l -a -d '' @ single_quoted path"

text \<open>What \<open>get_metadata\<close> makes of the output.\<close>

definition metadata_of_output ::
  "libc \<Rightarrow> string \<Rightarrow> shell_output \<Rightarrow> (device_error, file_meta) res" where
  "metadata_of_output L path o1 =
     (let lines = (if so_stdout o1 = [] \<and> so_stderr o1 \<noteq> [] then so_stderr o1 else so_stdout o1)
      in case lines of
           [] \<Rightarrow> Err NoDevice
         | first # _ \<Rightarrow>
             if suffix PERMISSION_ERR_SUFFIX first then Err (PermissionDenied path)
             else case parse_ls_line L first of
                 Panic \<Rightarrow> Panicked
               | Done None \<Rightarrow> Err (NotFound path)
               | Done (Some m) \<Rightarrow> Ok m)"

definition get_metadata :: "'d dev_env \<Rightarrow> string \<Rightarrow> ('d, file_meta) dev_op" where
  "get_metadata E path w =
     try_res (run_shell_with_stderr E (ls_path_cmd path) w) (\<lambda>o1 w.
       (metadata_of_output (d_libc E) path o1, w))"

text \<open>One line of a directory listing: at most one entry.\<close>

definition list_dir_line :: "libc \<Rightarrow> string \<Rightarrow> (string \<times> file_meta option) list run" where
  "list_dir_line L line =
     (if length line < 3 then Done []
      else if \<not> is_valid_ls_output line then
        (if suffix PERMISSION_ERR_SUFFIX line then
           run_bind (extract_name_from_perm_error line) (\<lambda>n. Done (case n of
             Some name \<Rightarrow> [(name, None)] | None \<Rightarrow> []))
         else Done [])
      else run_bind (extract_filename line) (\<lambda>n. case n of
             None \<Rightarrow> Done []
           | Some name \<Rightarrow> run_bind (parse_ls_line L line) (\<lambda>m. Done [(name, m)])))"

fun list_dir_loop :: "libc \<Rightarrow> string list \<Rightarrow> (string \<times> file_meta option) list run" where
  "list_dir_loop L [] = Done []"
| "list_dir_loop L (line # lines) =
     run_bind (list_dir_line L line) (\<lambda>es. run_bind (list_dir_loop L lines) (\<lambda>rest. Done (es @ rest)))"

definition ls_dir_cmd :: "string \<Rightarrow> string" where
  "ls_dir_cmd path = ''ls -l -a '' @ single_quoted path"

definition list_dir :: "'d dev_env \<Rightarrow> string \<Rightarrow> ('d, (string \<times> file_meta option) list) dev_op" where
  "list_dir E path w =
     try_res (run_shell E (ls_dir_cmd path) w) (\<lambda>lines w.
       (case list_dir_loop (d_libc E) lines of Panic \<Rightarrow> Panicked | Done es \<Rightarrow> Ok es, w))"

definition resolve_symlink :: "string \<Rightarrow> string \<Rightarrow> (device_error, string) res" where
  "resolve_symlink path raw_line =
     (let num_slashes = length (filter (\<lambda>c. c = slash) path)
      in case parse_symlink_target raw_line num_slashes of
           Panic \<Rightarrow> Panicked
         | Done None \<Rightarrow> Err NotSupported
         | Done (Some t) \<Rightarrow> Ok t)"

subsection \<open>Mutations\<close>

definition rescan_file_cmd :: "string \<Rightarrow> string" where
  "rescan_file_cmd path =
     ''am broadcast -a android.intent.action.MEDIA_SCANNER_SCAN_FILE -d '' @ [squote]
     @ ''file://'' @ shell_escape_path path @ [squote]"

definition rescan_dir_cmd :: "string \<Rightarrow> string" where
  "rescan_dir_cmd path =
     ''am broadcast -a android.intent.action.MEDIA_UNMOUNTED -d '' @ [squote]
     @ ''file://'' @ shell_escape_path path @ [squote]"

definition rescan_file :: "'d dev_env \<Rightarrow> string \<Rightarrow> ('d, unit) dev_op" where
  "rescan_file E path w = try_res (run_shell E (rescan_file_cmd path) w) (\<lambda>_ w. (Ok (), w))"

definition rescan_dir_removed :: "'d dev_env \<Rightarrow> string \<Rightarrow> ('d, unit) dev_op" where
  "rescan_dir_removed E path w = try_res (run_shell E (rescan_dir_cmd path) w) (\<lambda>_ w. (Ok (), w))"

definition mutation_outcome :: "string \<Rightarrow> shell_output \<Rightarrow> (device_error, unit) res" where
  "mutation_outcome cmd o1 =
     (case first_message o1 of
        Some message \<Rightarrow> Err (Failed (errno_for_message message) message)
      | None \<Rightarrow>
          if so_exit_code o1 \<noteq> 0
          then Err (Failed EIO ([backtick] @ cmd @ [backtick] @ '' exited with '' @ show_int (so_exit_code o1)))
          else Ok ())"

definition run_mutation :: "'d dev_env \<Rightarrow> string \<Rightarrow> ('d, unit) dev_op" where
  "run_mutation E cmd w =
     try_res (run_shell_with_stderr E cmd w) (\<lambda>o1 w. (mutation_outcome cmd o1, w))"

definition mkdir_cmd :: "string \<Rightarrow> string" where "mkdir_cmd path = ''mkdir '' @ single_quoted path"
definition rm_cmd :: "string \<Rightarrow> string" where "rm_cmd path = ''rm '' @ single_quoted path"
definition rmdir_cmd :: "string \<Rightarrow> string" where "rmdir_cmd path = ''rmdir '' @ single_quoted path"
definition mv_cmd :: "string \<Rightarrow> string \<Rightarrow> string" where
  "mv_cmd src dst = ''mv '' @ single_quoted src @ '' '' @ single_quoted dst"

definition dev_mkdir :: "'d dev_env \<Rightarrow> string \<Rightarrow> ('d, unit) dev_op" where
  "dev_mkdir E path w = run_mutation E (mkdir_cmd path) w"

definition dev_rm :: "'d dev_env \<Rightarrow> string \<Rightarrow> ('d, unit) dev_op" where
  "dev_rm E path w =
     try_res (run_mutation E (rm_cmd path) w) (\<lambda>_ w.
       if d_rescan E then rescan_file E path w else (Ok (), w))"

definition dev_rmdir :: "'d dev_env \<Rightarrow> string \<Rightarrow> ('d, unit) dev_op" where
  "dev_rmdir E path w =
     try_res (run_mutation E (rmdir_cmd path) w) (\<lambda>_ w.
       if d_rescan E then rescan_dir_removed E path w else (Ok (), w))"

definition dev_mv :: "'d dev_env \<Rightarrow> string \<Rightarrow> string \<Rightarrow> ('d, unit) dev_op" where
  "dev_mv E src dst w =
     try_res (run_mutation E (mv_cmd src dst) w) (\<lambda>_ w.
       if d_rescan E then
         try_res (rescan_file E src w) (\<lambda>_ w. rescan_file E dst w)
       else (Ok (), w))"

fun join :: "string \<Rightarrow> string list \<Rightarrow> string" where
  "join sep [] = []"
| "join sep [x] = x"
| "join sep (x # xs) = x @ sep @ join sep xs"

definition touch_parts :: "bool \<Rightarrow> string \<Rightarrow> int option \<Rightarrow> int option \<Rightarrow> string list" where
  "touch_parts gnu path atime mt =
     (case atime of None \<Rightarrow> []
      | Some t \<Rightarrow> [''touch -a -d '' @ format_touch_time t gnu @ '' '' @ single_quoted path])
   @ (case mt of None \<Rightarrow> []
      | Some t \<Rightarrow> [''touch -m -d '' @ format_touch_time t gnu @ '' '' @ single_quoted path])"

definition is_date_err :: "string \<Rightarrow> bool" where
  "is_date_err message =
     (prefix TOUCH_TOYBOX_ERR_PREFIX message \<or> prefix TOUCH_BUSYBOX_ERR_PREFIX message)"

text \<open>The retry after a date error runs with \<open>touch_gnu_mode\<close> cleared, so it is the last.\<close>

function dev_touch ::
  "'d dev_env \<Rightarrow> string \<Rightarrow> int option \<Rightarrow> int option \<Rightarrow> bool \<times> 'd world
    \<Rightarrow> (device_error, unit) res \<times> bool \<times> 'd world" where
  "dev_touch E path atime mt (gnu, w) =
     (let parts = touch_parts gnu path atime mt
      in if parts = [] then (Ok (), gnu, w)
      else case run_shell_with_stderr E (join '' && '' parts) w of
        (Err e, w) \<Rightarrow> (Err e, gnu, w)
      | (Panicked, w) \<Rightarrow> (Panicked, gnu, w)
      | (Ok o1, w) \<Rightarrow>
          (case first_message o1 of
             Some message \<Rightarrow>
               if is_date_err message then
                 (if \<not> gnu then (Err NotSupported, gnu, w)
                  else dev_touch E path atime mt (False, w))
               else (Err (Failed (errno_for_message message) message), gnu, w)
           | None \<Rightarrow>
               if d_rescan E then (case rescan_file E path w of (r, w) \<Rightarrow> (r, gnu, w))
               else (Ok (), gnu, w)))"
  by pat_completeness auto
termination
  by (relation "measure (\<lambda>(E, p, a, m, (gnu, w)). if gnu then 1 else 0)") auto

declare dev_touch.simps [simp del]

definition dev_pull :: "'d dev_env \<Rightarrow> string \<Rightarrow> string \<Rightarrow> ('d, unit) dev_op" where
  "dev_pull E remote local_path w = map_err_res Adb (adb_pull (d_adb E) remote local_path w)"

definition dev_push :: "'d dev_env \<Rightarrow> string \<Rightarrow> string \<Rightarrow> ('d, unit) dev_op" where
  "dev_push E local_path remote w = map_err_res Adb (adb_push (d_adb E) local_path remote w)"

definition dev_sync_device :: "'d dev_env \<Rightarrow> ('d, unit) dev_op" where
  "dev_sync_device E w = map_err_res Adb (adb_sync_device (d_adb E) w)"

subsection \<open>The commands the shell sees\<close>

lemma file_url_quoted:
  "[squote] @ ''file://'' @ shell_escape_path p @ [squote] = single_quoted (''file://'' @ p)"
  by (simp add: single_quoted_def)

lemma fixed_words:
  "plain_words [''ls'', ''-l'', ''-a'', ''-d'']" "plain_words [''ls'', ''-l'', ''-a'']"
  "plain_words [''mkdir'']" "plain_words [''rm'']" "plain_words [''rmdir'']" "plain_words [''mv'']"
  "plain_words [''am'', ''broadcast'', ''-a'', ''android.intent.action.MEDIA_SCANNER_SCAN_FILE'', ''-d'']"
  "plain_words [''am'', ''broadcast'', ''-a'', ''android.intent.action.MEDIA_UNMOUNTED'', ''-d'']"
  by (simp_all add: plain_words_def plain_char_def byte_def)

lemma simple_commands:
  "sh_parse (ls_path_cmd p) = Some [[''ls'', ''-l'', ''-a'', ''-d'', p]]"
  "sh_parse (ls_dir_cmd p) = Some [[''ls'', ''-l'', ''-a'', p]]"
  "sh_parse (mkdir_cmd p) = Some [[''mkdir'', p]]"
  "sh_parse (rm_cmd p) = Some [[''rm'', p]]"
  "sh_parse (rmdir_cmd p) = Some [[''rmdir'', p]]"
  "sh_parse (mv_cmd p q) = Some [[''mv'', p, q]]"
  using fixed_words(1-6)[THEN sq.parse_cmd1, of p] sq.parse_cmd2[OF fixed_words(6), of p q]
  by (simp_all add: words_sp_def ls_path_cmd_def ls_dir_cmd_def mkdir_cmd_def rm_cmd_def
      rmdir_cmd_def mv_cmd_def)

lemma rescan_commands:
  "sh_parse (rescan_file_cmd p) = Some [[''am'', ''broadcast'', ''-a'',
     ''android.intent.action.MEDIA_SCANNER_SCAN_FILE'', ''-d'', ''file://'' @ p]]"
  "sh_parse (rescan_dir_cmd p) = Some [[''am'', ''broadcast'', ''-a'',
     ''android.intent.action.MEDIA_UNMOUNTED'', ''-d'', ''file://'' @ p]]"
  using fixed_words(7,8)[THEN sq.parse_cmd1, of "''file://'' @ p"]
  unfolding rescan_file_cmd_def rescan_dir_cmd_def file_url_quoted
  by (simp_all add: words_sp_def)

lemma plain_digit: "48 \<le> byte c \<Longrightarrow> byte c \<le> 57 \<Longrightarrow> plain_char c"
  by (simp add: plain_char_def)

lemma plain_gnu_time: "list_all plain_char (format_touch_time t True)"
  using show_nat_digits
  by (auto simp: format_touch_time_def Let_def list_all_iff pad_zero_def plain_digit)
    (auto simp: plain_char_def byte_def)

lemma gnu_time_nonempty: "format_touch_time t True \<noteq> []"
  by (simp add: format_touch_time_def Let_def)

lemma touch_words: "x \<in> {''-a'', ''-m''} \<Longrightarrow> plain_words [''touch'', x, ''-d'', format_touch_time t True]"
  using plain_gnu_time[of t] gnu_time_nonempty[of t]
  by (auto simp: plain_words_def plain_char_def byte_def)

lemma touch_parts_words:
  defines "wa \<equiv> \<lambda>t. words_sp [''touch'', ''-a'', ''-d'', format_touch_time t True]"
    and "wm \<equiv> \<lambda>t. words_sp [''touch'', ''-m'', ''-d'', format_touch_time t True]"
  shows "touch_parts True p (Some a) None = [wa a @ single_quoted p]"
    and "touch_parts True p None (Some m) = [wm m @ single_quoted p]"
    and "touch_parts True p (Some a) (Some m) = [wa a @ single_quoted p, wm m @ single_quoted p]"
  by (simp_all add: touch_parts_def words_sp_def wa_def wm_def)

lemma touch_commands:
  "sh_parse (join '' && '' (touch_parts True p (Some a) None))
     = Some [[''touch'', ''-a'', ''-d'', format_touch_time a True, p]]"
  "sh_parse (join '' && '' (touch_parts True p None (Some m)))
     = Some [[''touch'', ''-m'', ''-d'', format_touch_time m True, p]]"
  "sh_parse (join '' && '' (touch_parts True p (Some a) (Some m)))
     = Some [[''touch'', ''-a'', ''-d'', format_touch_time a True, p],
             [''touch'', ''-m'', ''-d'', format_touch_time m True, p]]"
proof -
  have w: "plain_words [''touch'', ''-a'', ''-d'', format_touch_time a True]"
    "plain_words [''touch'', ''-m'', ''-d'', format_touch_time m True]"
    by (rule touch_words, simp)+
  show "sh_parse (join '' && '' (touch_parts True p (Some a) None))
     = Some [[''touch'', ''-a'', ''-d'', format_touch_time a True, p]]"
    using sq.parse_cmd1[OF w(1), of p] by (simp only: touch_parts_words join.simps) simp
  show "sh_parse (join '' && '' (touch_parts True p None (Some m)))
     = Some [[''touch'', ''-m'', ''-d'', format_touch_time m True, p]]"
    using sq.parse_cmd1[OF w(2), of p] by (simp only: touch_parts_words join.simps) simp
  show "sh_parse (join '' && '' (touch_parts True p (Some a) (Some m)))
     = Some [[''touch'', ''-a'', ''-d'', format_touch_time a True, p],
             [''touch'', ''-m'', ''-d'', format_touch_time m True, p]]"
    using sq.parse_and[OF w, of p p] by (simp only: touch_parts_words join.simps) simp
qed

subsection \<open>Outcomes of mutations\<close>

lemma first_message_None: "first_message o1 = None \<longleftrightarrow> (\<forall>l \<in> set (so_stderr o1 @ so_stdout o1). trim l = [])"
  by (auto simp: first_message_def find_None_iff)

lemma mutation_outcome_Ok:
  "mutation_outcome cmd o1 = Ok () \<longleftrightarrow>
     (\<forall>l \<in> set (so_stderr o1 @ so_stdout o1). trim l = []) \<and> so_exit_code o1 = 0"
  using first_message_None[of o1] by (auto simp: mutation_outcome_def split: option.splits)

lemma mutation_outcome_not_Panicked: "mutation_outcome cmd o1 \<noteq> Panicked"
  by (simp add: mutation_outcome_def split: option.splits)

lemma run_mutation_Ok:
  "run_mutation E cmd w = (Ok (), w') \<longleftrightarrow>
     (\<exists>o1. adb_shell_with_stderr (d_adb E) cmd w = (Ok o1, w')
       \<and> (\<forall>l \<in> set (so_stderr o1 @ so_stdout o1). trim l = []) \<and> so_exit_code o1 = 0)"
  by (auto simp: run_mutation_def run_shell_with_stderr_def try_res_Ok_iff mutation_outcome_Ok)

subsection \<open>The retry of touch\<close>

lemma dev_touch_run:
  assumes "atime \<noteq> None \<or> mt \<noteq> None"
    and "adb_shell_with_stderr (d_adb E) (join '' && '' (touch_parts gnu path atime mt)) w = (Ok o1, w1)"
  shows "dev_touch E path atime mt (gnu, w) =
     (case first_message o1 of
        Some message \<Rightarrow>
          if is_date_err message then
            (if \<not> gnu then (Err NotSupported, gnu, w1) else dev_touch E path atime mt (False, w1))
          else (Err (Failed (errno_for_message message) message), gnu, w1)
      | None \<Rightarrow>
          if d_rescan E then (case rescan_file E path w1 of (r, w2) \<Rightarrow> (r, gnu, w2))
          else (Ok (), gnu, w1))"
proof -
  have "touch_parts gnu path atime mt \<noteq> []"
    using assms(1) by (auto simp: touch_parts_def split: option.splits)
  then show ?thesis
    using assms(2) by (subst dev_touch.simps) (simp add: Let_def run_shell_with_stderr_def)
qed

lemma dev_touch_mode:
  "(case snd (dev_touch E path atime mt (gnu, w)) of (gnu', w') \<Rightarrow> gnu' \<longrightarrow> gnu)"
proof (induction E path atime mt "(gnu, w)" arbitrary: gnu w rule: dev_touch.induct)
  case (1 E path atime mt gnu w)
  show ?case
    using 1[OF refl] by (subst dev_touch.simps)
      (auto simp: Let_def split: res.splits option.splits prod.splits)
qed

subsection \<open>Listings\<close>

lemma print_ls_head: "\<exists>r. print_ls pad e = ls_mode_string (e_mode e) @ r"
proof -
  let ?cs = "nlink_cols e @ [e_owner e, e_group e] @ size_cols e @ [date_col e]"
  have "zip (entry_cols e) (map pad [0..<length (entry_cols e)])
      = (ls_mode_string (e_mode e), pad 0) # zip ?cs (map pad [1..<length (entry_cols e)])"
    by (simp add: entry_cols_def upt_conv_Cons del: upt_Suc)
  then show ?thesis by (simp add: print_ls_def columns_def)
qed

lemma valid_append: "2 \<le> length u \<Longrightarrow> is_valid_ls_output (u @ r) = is_valid_ls_output u"
  by (cases u; cases "tl u") (auto simp: is_valid_ls_output_def)

lemma print_ls_valid: "entry_ok e \<Longrightarrow> is_valid_ls_output (print_ls pad e) \<and> 3 \<le> length (print_ls pad e)"
proof -
  assume "entry_ok e"
  then have "known_type (e_mode e)" by (simp add: entry_ok_def)
  moreover obtain r where "print_ls pad e = ls_mode_string (e_mode e) @ r"
    using print_ls_head by blast
  ultimately show ?thesis by (simp add: valid_append mode_string_valid)
qed

text \<open>An entry whose line parses: the time is one \<open>mktime\<close> represents, from the epoch on.\<close>

definition time_ok :: "libc \<Rightarrow> ls_entry \<Rightarrow> bool" where
  "time_ok L e = (0 \<le> mktime L (entry_tm e) \<and> mktime L (entry_tm e) < 2 ^ 63)"

definition entry_result :: "libc \<Rightarrow> (nat \<Rightarrow> nat) \<Rightarrow> ls_entry \<Rightarrow> file_meta" where
  "entry_result L pad e = entry_meta L e (mktime L (entry_tm e)) (print_ls pad e)"

lemma parse_print_ls_ok:
  "entry_ok e \<Longrightarrow> time_ok L e \<Longrightarrow>
   parse_ls_line L (print_ls pad e) = Done (Some (entry_result L pad e))"
  using parse_print_ls[of e L pad] by (auto simp: time_ok_def entry_result_def)

lemma list_dir_line_printed:
  "entry_ok e \<Longrightarrow> name_ok e \<Longrightarrow> time_ok L e \<Longrightarrow>
   list_dir_line L (print_ls pad e) = Done [(e_name e, Some (entry_result L pad e))]"
  using print_ls_valid[of e pad]
  by (simp add: list_dir_line_def extract_print_ls parse_print_ls_ok)

text \<open>The message of a directory entry that may not be read: \<open>lstat '//efs' failed: ...\<close>.\<close>

definition perm_line :: "string \<Rightarrow> string \<Rightarrow> string" where
  "perm_line dir name =
     ''lstat '' @ [squote] @ dir @ ''/'' @ name @ [squote] @ '' failed: Permission denied''"

lemma find_sub_quote: "squote \<notin> set u \<Longrightarrow> find_sub [squote, CHR 0x20] (u @ squote # CHR 0x20 # v) = Some (length u)"
  by (induction u) auto

lemma rfind_char_none_before: "x \<notin> set v \<Longrightarrow> rfind_char x (u @ x # v) = Some (length u)"
  by (rule rfind_char_append)

lemma find_sub_quote_skip:
  "squote \<notin> set u \<Longrightarrow> find_sub [squote, CHR 0x20] (squote # slash # u @ squote # CHR 0x20 # v)
    = Some (Suc (Suc (length u)))"
  using find_sub_quote[of u v] by simp

lemma list_dir_line_perm:
  assumes "name \<noteq> []" and "slash \<notin> set name" and "squote \<notin> set name" and "squote \<notin> set dir"
    and "utf8_valid name" and "dir = [] \<or> hd dir = slash"
  shows "list_dir_line L (perm_line dir name) = Done [(name, None)]"
proof -
  let ?pre = "''lstat '' @ [squote] @ dir"
  let ?l = "perm_line dir name"
  have l: "?l = ?pre @ slash # (name @ squote # '' failed: Permission denied'')"
    by (simp add: perm_line_def)
  have slash_pos: "rfind_char slash ?l = Some (length ?pre)"
    unfolding l using assms(2) by (intro rfind_char_append) auto
  have "find_sub [squote, CHR 0x20] ((squote # dir @ slash # name) @ squote # CHR 0x20 # v)
      = Some (length (squote # dir @ slash # name))" for v
  proof (cases dir)
    case Nil
    then show ?thesis using find_sub_quote[of "slash # name" v] assms(3) by simp
  next
    case (Cons d ds)
    then show ?thesis
      using find_sub_quote[of "dir @ slash # name" v] assms(3,4,6) by simp
  qed
  then have quote_pos: "find_sub [squote, CHR 0x20] ?l = Some (length ?pre + 1 + length name)"
    by (simp add: perm_line_def)
  obtain c cs where c: "name = c # cs" "\<not> is_cont c"
    using assms(1,5) by (cases name) (auto simp: utf8_valid_hd simp del: utf8_valid.simps)
  have b1: "is_char_boundary ?l (length ?pre + 1)"
    using c(2) unfolding l by (simp add: c(1) is_char_boundary_def nth_append)
  have b2: "is_char_boundary ?l (length ?pre + 1 + length name)"
    unfolding l by (rule boundary_at_ascii) (simp_all add: nth_append byte_def)
  have "slice_range ?l (length ?pre + 1) (length ?pre + 1 + length name) = Done name"
    using b1 b2 by (simp add: slice_range_def) (simp add: l)
  then have "extract_name_from_perm_error ?l = Done (Some name)"
    by (simp add: extract_name_from_perm_error_def slash_pos quote_pos)
  moreover have "\<not> is_valid_ls_output ?l" "3 \<le> length ?l" "suffix PERMISSION_ERR_SUFFIX ?l"
    by (simp_all add: perm_line_def is_valid_ls_output_def PERMISSION_ERR_SUFFIX_def suffix_def)
  ultimately show ?thesis by (simp add: list_dir_line_def)
qed

lemma list_dir_loop_lines:
  "list_all (\<lambda>(l, es). list_dir_line L l = Done es) ps \<Longrightarrow>
   list_dir_loop L (map fst ps) = Done (concat (map snd ps))"
  by (induction ps) auto

text \<open>What a listing prints: entries and refusals; what it stands for.\<close>

datatype listed = Listed "nat \<Rightarrow> nat" ls_entry | Refused string string

fun listed_ok :: "libc \<Rightarrow> listed \<Rightarrow> bool" where
  "listed_ok L (Listed pad e) = (entry_ok e \<and> name_ok e \<and> time_ok L e)"
| "listed_ok L (Refused dir name) =
     (name \<noteq> [] \<and> slash \<notin> set name \<and> squote \<notin> set name \<and> squote \<notin> set dir
      \<and> utf8_valid name \<and> (dir = [] \<or> hd dir = slash))"

fun listed_line :: "listed \<Rightarrow> string" where
  "listed_line (Listed pad e) = print_ls pad e"
| "listed_line (Refused dir name) = perm_line dir name"

fun listed_entry :: "libc \<Rightarrow> listed \<Rightarrow> string \<times> file_meta option" where
  "listed_entry L (Listed pad e) = (e_name e, Some (entry_result L pad e))"
| "listed_entry L (Refused dir name) = (name, None)"

lemma list_dir_line_listed:
  "listed_ok L x \<Longrightarrow> list_dir_line L (listed_line x) = Done [listed_entry L x]"
  by (cases x) (auto simp: list_dir_line_printed intro: list_dir_line_perm)

lemma list_dir_loop_listed:
  "list_all (listed_ok L) xs \<Longrightarrow> list_dir_loop L (map listed_line xs) = Done (map (listed_entry L) xs)"
  by (induction xs) (auto simp: list_dir_line_listed)

subsection \<open>Links\<close>

lemma arrow_free_line:
  assumes "CHR ''>'' \<notin> set u" and "u = [] \<or> last u \<noteq> CHR 0x20" and "arrow_free (CHR 0x20 # n)"
  shows "arrow_free (u @ CHR 0x20 # n)"
  using assms
proof (induction u)
  case (Cons c u)
  then have IH: "arrow_free (u @ CHR 0x20 # n)" by (cases u) auto
  have no: "\<not> prefix arrow (c # u @ CHR 0x20 # n @ '' ->'')"
    using Cons.prems by (cases u; cases "tl u") (auto simp: prefix_def)
  show ?case
    using IH no by (simp add: arrow_free_def contains_sub_def)
qed simp

definition link_ok :: "ls_entry \<Rightarrow> bool" where
  "link_ok e =
     (arrow_free (CHR 0x20 # e_name e) \<and> CHR ''>'' \<notin> set (e_owner e) \<and> CHR ''>'' \<notin> set (e_group e)
      \<and> (case e_target e of None \<Rightarrow> False | Some t \<Rightarrow> t \<noteq> [] \<and> utf8_valid t))"

lemma no_gt_digits: "(\<And>c. c \<in> set s \<Longrightarrow> 48 \<le> byte c \<and> byte c \<le> 57) \<Longrightarrow> CHR ''>'' \<notin> set s"
  by (force simp: byte_def)

lemma no_gt_cols:
  assumes "link_ok e"
  shows "CHR ''>'' \<notin> set (columns (zip (entry_cols e) (map pad [0..<length (entry_cols e)])) @ time_col e)"
proof -
  have mode: "CHR ''>'' \<notin> set (ls_mode_string m)" for m
    by (auto simp: ls_mode_string_def ls_type_char_def flag_char_def exec_char_def Let_def
        split: if_splits)
  have num: "CHR ''>'' \<notin> set (show_nat n)" "CHR ''>'' \<notin> set (show_pad w n)" for w n
    using show_nat_digits show_pad_digits by (intro no_gt_digits; blast)+
  have "CHR ''>'' \<notin> \<Union> (set ` set (entry_cols e))"
    using assms mode num
    by (auto simp: entry_cols_def nlink_cols_def size_cols_def link_ok_def date_col_def
        split: option.splits if_splits)
  then show ?thesis
    using set_columns[of "zip (entry_cols e) (map pad [0..<length (entry_cols e)])"] num
    by (auto simp: time_col_def)
qed

lemma find_arrow_line:
  assumes "link_ok e" and "e_target e = Some t"
  obtains u where "print_ls pad e = u @ arrow @ t"
    and "find_sub arrow (print_ls pad e) = Some (length u)"
proof -
  let ?pre = "columns (zip (entry_cols e) (map pad [0..<length (entry_cols e)])) @ time_col e"
  let ?u = "?pre @ CHR 0x20 # e_name e"
  have line: "print_ls pad e = ?u @ arrow @ t"
    using assms(2) by (simp add: print_ls_def name_col_def)
  have "last (time_col e) \<in> set (show_pad 2 (e_minute e))"
    by (simp add: time_col_def)
  then have "last ?pre \<noteq> CHR 0x20"
    using show_pad_digits[of "last (time_col e)" 2 "e_minute e"]
    by (auto simp: time_col_def byte_def)
  then have "arrow_free ?u"
    using arrow_free_line[OF no_gt_cols[OF assms(1), of pad]] assms(1) by (simp add: link_ok_def)
  then have "find_sub arrow (print_ls pad e) = Some (length ?u)"
    unfolding line by (rule find_arrow)
  with line show ?thesis by (rule that)
qed

subsection \<open>Concrete devices\<close>

definition mock_world :: "(adb_error, shell_output) res list \<Rightarrow> mock_adb world" where
  "mock_world rs = \<lparr>w_dev = mock_new rs,
     w_host = \<lparr>h_names = Map.empty, h_files = (\<lambda>_. []), h_next = 0, h_faults = []\<rparr>\<rparr>"

definition mock_env :: "int \<Rightarrow> bool \<Rightarrow> mock_adb dev_env" where
  "mock_env t rescan = \<lparr>d_adb = mock_device, d_libc = sample_libc t, d_rescan = rescan\<rparr>"

subsection \<open>Properties\<close>


text \<open>A run that printed nothing but blank lines and exited with 0.\<close>

definition silent :: "shell_output \<Rightarrow> bool" where
  "silent o1 = ((\<forall>l \<in> set (so_stderr o1 @ so_stdout o1). trim l = []) \<and> so_exit_code o1 = 0)"


lemma mock_run_one:
  "adb_shell_with_stderr (d_adb (mock_env t r)) cmd (mock_world [mock_out ls])
    = (Ok \<lparr>so_stdout = ls, so_stderr = [], so_exit_code = 0\<rparr>, snd (mock_next cmd (mock_world [mock_out ls])))"
  by (simp add: mock_env_def mock_world_def mock_device_def mock_next_def mock_out_def mock_new_def Let_def)




subsection \<open>Error messages\<close>

lemma sublist_split_sep:
  assumes "x \<notin> set n"
  shows "sublist n (u @ x # v) \<longleftrightarrow> sublist n u \<or> sublist n v"
proof
  assume "sublist n (u @ x # v)"
  then obtain a b where e: "u @ x # v = a @ n @ b" by (auto simp: sublist_def)
  then consider us where "a = u @ us" | us where "u = a @ us" "us @ x # v = n @ b"
    by (auto simp: append_eq_append_conv2)
  then show "sublist n u \<or> sublist n v"
  proof cases
    case 1
    with e have eq: "x # v = us @ n @ b" by simp
    show ?thesis
    proof (cases us)
      case Nil
      with eq assms have "n = []" by (cases n) auto
      then show ?thesis by simp
    next
      case (Cons y ys)
      with eq show ?thesis by (auto simp: sublist_def)
    qed
  next
    case 2
    note u = 2(1)
    from 2(2) consider ws where "n = us @ ws" "ws @ b = x # v" | ws where "us = n @ ws"
      by (auto simp: append_eq_append_conv2)
    then show ?thesis
    proof cases
      case 1
      with assms have "ws = []" by (cases ws) auto
      with 1 u have "u = a @ n @ []" by simp
      then show ?thesis unfolding sublist_def by blast
    next
      case 2
      with u show ?thesis by (auto simp: sublist_def)
    qed
  qed
next
  assume "sublist n u \<or> sublist n v"
  moreover have "sublist u (u @ x # v)" "sublist v (u @ x # v)"
    using sublist_appendI[of v "u @ [x]" "[]"] by simp_all
  ultimately show "sublist n (u @ x # v)"
    using sublist_order.order.trans by blast
qed

lemma find_other:
  assumes "(n, e) \<in> set xs" and "P n" and "\<And>n' e'. (n', e') \<in> set xs \<Longrightarrow> P n' \<Longrightarrow> n' = n"
    and "distinct (map fst xs)"
  shows "List.find (\<lambda>(k, _). P k) xs = Some (n, e)"
proof (cases "List.find (\<lambda>(k, _). P k) xs")
  case None
  with assms(1,2) show ?thesis by (auto simp: find_None_iff)
next
  case (Some y)
  obtain k f where y: "y = (k, f)" by (cases y)
  with Some have "P k" "(k, f) \<in> set xs" by (auto simp: find_Some_iff in_set_conv_nth)
  with assms(3) have "k = n" "(n, f) \<in> set xs" by auto
  with eq_key_imp_eq_value[OF assms(4) assms(1)] Some y show ?thesis by simp
qed

lemma errno_needles:
  assumes "(n, e) \<in> set errno_table"
  shows "CHR '':'' \<notin> set n" and "hd n \<noteq> CHR 0x20"
  using assms by (auto simp: errno_table_def)

lemma errno_table_distinct: "distinct (map fst errno_table)"
  by (simp add: errno_table_def)

lemma errno_needles_table:
  "list_all (\<lambda>(n, _). list_all (\<lambda>(n', _). contains_sub (CHR 0x20 # n) n' \<longrightarrow> n' = n) errno_table)
     errno_table"
  by code_simp

lemma errno_needles_apart:
  assumes "(n, e) \<in> set errno_table" and "(n', e') \<in> set errno_table"
    and "sublist n' (CHR 0x20 # n)"
  shows "n' = n"
  using errno_needles_table assms unfolding list_all_iff contains_sub_iff by fast

lemma lower_sep: "to_ascii_lowercase (pre @ '': '' @ t) =
   to_ascii_lowercase pre @ CHR '':'' # CHR 0x20 # to_ascii_lowercase t"
  by (simp add: to_ascii_lowercase_def ascii_lower_def byte_def char_of_def bit_0)

lemma errno_for_tail:
  assumes "(to_ascii_lowercase t, e) \<in> set errno_table"
    and "\<And>n' e'. (n', e') \<in> set errno_table \<Longrightarrow> \<not> contains_sub (to_ascii_lowercase pre) n'"
  shows "errno_for_message (pre @ '': '' @ t) = e"
proof -
  let ?n = "to_ascii_lowercase t"
  let ?l = "to_ascii_lowercase (pre @ '': '' @ t)"
  have c: "contains_sub ?l n' \<longleftrightarrow> sublist n' (CHR 0x20 # ?n)" if "(n', e') \<in> set errno_table" for n' e'
    using assms(2)[OF that] sublist_split_sep[OF errno_needles(1)[OF that]]
    by (simp only: lower_sep contains_sub_iff simp_thms)
  have "List.find (\<lambda>(k, _). contains_sub ?l k) errno_table = Some (?n, e)"
  proof (rule find_other[OF assms(1) _ _ errno_table_distinct])
    show "contains_sub ?l ?n"
      using c[OF assms(1)] by (auto simp: sublist_def intro: exI[of _ "[CHR 0x20]"])
  next
    fix n' e' assume m: "(n', e') \<in> set errno_table" and "contains_sub ?l n'"
    with c[OF m] show "n' = ?n" using errno_needles_apart[OF assms(1) m] by simp
  qed
  then show ?thesis by (simp add: errno_for_message_def)
qed


subsection \<open>Listings and metadata\<close>

text \<open>The \<open>total\<close> line a listing starts with is skipped.\<close>

lemma total_line: "list_dir_line L (''total '' @ show_nat n) = Done []"
proof -
  let ?l = "''total '' @ show_nat n"
  have "last ?l \<in> set (show_nat n)" using show_nat_nonempty[of n] by simp
  then have "last ?l \<noteq> CHR ''d''" using show_nat_digits[of "last ?l" n] by (auto simp: byte_def)
  moreover have "last (u @ PERMISSION_ERR_SUFFIX) = CHR ''d''" for u
    by (simp add: PERMISSION_ERR_SUFFIX_def)
  ultimately have "\<not> suffix PERMISSION_ERR_SUFFIX ?l" by (metis suffix_def)
  then show ?thesis by (simp add: list_dir_line_def is_valid_ls_output_def)
qed

lemma list_dir_of_lines:
  assumes "adb_shell (d_adb E) (ls_dir_cmd p) w = (Ok lines, w')"
    and "list_dir_loop (d_libc E) lines = Done es"
  shows "list_dir E p w = (Ok es, w')"
  using assms by (simp add: list_dir_def run_shell_def)

text \<open>C33. The listing of a directory is read entry for entry, in order: from the lines the
  device prints for its entries, in any column padding, come their names and metadata; an entry
  the device could not examine comes with its name alone, and the \<open>total\<close> line is skipped.\<close>

theorem list_dir_printed:
  assumes "adb_shell (d_adb E) (ls_dir_cmd p) w
      = (Ok ((''total '' @ show_nat n) # map listed_line xs), w')"
    and "list_all (listed_ok (d_libc E)) xs"
  shows "list_dir E p w = (Ok (map (listed_entry (d_libc E)) xs), w')"
  using list_dir_of_lines[OF assms(1)] list_dir_loop_listed[OF assms(2)] total_line by simp

text \<open>A message of \<open>ls\<close> is no entry.\<close>

lemma parse_ls_message: "parse_ls_line L (''ls: '' @ r) = Done None"
proof -
  have "split_whitespace ((''ls:'' @ replicate (Suc 0) (CHR 0x20)) @ r) = ''ls:'' # split_ws [] r"
    unfolding split_whitespace_def
    by (rule split_ws_column) (simp add: word_ok_def graphic_def byte_def)
  then show ?thesis by (simp add: parse_ls_line_def is_valid_ls_output_def Let_def)
qed


text \<open>An error message of the form "command: path: reason" is read by its reason, in any
  case of letters, as long as nothing before the last colon contains one of the phrases of
  the table.\<close>

theorem errno_for_message_tail:
  assumes "(to_ascii_lowercase t, e) \<in> set errno_table"
    and "list_all (\<lambda>(n, _). \<not> contains_sub (to_ascii_lowercase pre) n) errno_table"
  shows "errno_for_message (pre @ '': '' @ t) = e"
  by (rule errno_for_tail) (use assms in \<open>auto simp: list_all_iff\<close>)

theorem errno_for_message_tail_witness:
  "errno_for_message (''rm: /sdcard/a: '' @ ''No such file or directory'') = ENOENT"
proof -
  have t: "to_ascii_lowercase ''No such file or directory'' = ''no such file or directory''"
    by (simp add: to_ascii_lowercase_def ascii_lower_def byte_def char_of_def bit_0)
  then have "(to_ascii_lowercase ''No such file or directory'', ENOENT) \<in> set errno_table"
    by (simp add: errno_table_def)
  moreover have "list_all (\<lambda>(n, _). \<not> contains_sub (to_ascii_lowercase ''rm: /sdcard/a'') n) errno_table"
    by (simp add: errno_table_def contains_sub_def to_ascii_lowercase_def ascii_lower_def byte_def char_of_def bit_0)
  ultimately show ?thesis using errno_for_message_tail by fastforce
qed


definition sample_link :: ls_entry where
  "sample_link = sample_entry\<lparr>e_mode := 0xA1FF, e_size := None, e_name := ''sdcard'',
     e_target := Some ''/mnt/sdcard''\<rparr>"


subsection \<open>What the classification does not do\<close>

text \<open>The match is not on the tail: a phrase in the path itself decides.\<close>

lemma errno_of_path_phrase:
  "errno_for_message ''rm: /sdcard/file exists: No such file or directory'' = ENOENT
   \<and> errno_for_message ''rm: /sdcard/permission denied: No such file or directory'' = EACCES"
  by (simp add: errno_for_message_def errno_table_def contains_sub_def to_ascii_lowercase_def
      ascii_lower_def byte_def char_of_def bit_0 Let_def)

text \<open>The message of \<open>adb\<close> itself, when no device is connected, is read as the absence of the
  file, not of the device.\<close>

lemma no_device_is_not_found:
  "metadata_of_output L p \<lparr>so_stdout = [], so_stderr = [''error: no devices/emulators found''],
     so_exit_code = 1\<rparr> = Err (NotFound p)"
proof -
  have "length (split_whitespace ''error: no devices/emulators found'') = 4"
    by (simp add: split_whitespace_def ascii_ws_def ws2_def ws3_def byte_def Let_def)
  then show ?thesis
    by (simp add: metadata_of_output_def parse_ls_line_def Let_def PERMISSION_ERR_SUFFIX_def
        suffix_to_prefix)
qed


lemma mock_shell_one:
  "adb_shell (d_adb (mock_env t r)) cmd (mock_world [mock_out ls])
    = (Ok ls, snd (mock_next cmd (mock_world [mock_out ls])))"
  by (simp add: mock_env_def mock_world_def mock_device_def mock_shell_def mock_next_def mock_out_def
      mock_new_def Let_def)

theorem list_dir_printed_witness:
  "fst (list_dir (mock_env 5 False) ''/'' (mock_world [mock_out
     [''total 8'', print_ls (\<lambda>_. 0) sample_entry, perm_line ''/'' ''efs'']]))
   = Ok [(''file.html'', Some (entry_result (sample_libc 5) (\<lambda>_. 0) sample_entry)), (''efs'', None)]"
proof -
  let ?xs = "[Listed (\<lambda>_. 0) sample_entry, Refused ''/'' ''efs'']"
  have ok: "list_all (listed_ok (d_libc (mock_env 5 False))) ?xs"
    using sample_entry_ok sample_name_ok utf8_valid_ascii[of "''efs''"]
    by (simp add: mock_env_def time_ok_def sample_libc_def byte_def del: utf8_valid.simps)
  have t: "''total 8'' = ''total '' @ show_nat 8" by (simp add: show_nat.simps)
  show ?thesis
    unfolding t using list_dir_printed[OF mock_shell_one ok, of "''/''" 8]
    by (simp add: mock_env_def) (simp add: sample_entry_def)
qed


end
