(* ===== verification/Inodes.thy ===== *)
theory Inodes
  imports Paths
begin

text \<open>
  The inode table of \<open>AdbFs\<close> (\<open>src/src/fs.rs\<close>): the kernel names files by inode numbers, the
  device by paths. The two maps and the counter are the fields \<open>path_to_ino\<close>, \<open>ino_to_path\<close>
  and \<open>next_ino\<close>. A \<open>DashMap\<close> iterates in no order the code relies on, so the entries
  \<open>rekey_paths\<close> reads are an argument, any enumeration of the map.
\<close>

subsection \<open>The operations\<close>

record ino_table =
  path_to_ino :: "string \<Rightarrow> u64 option"
  ino_to_path :: "u64 \<Rightarrow> string option"
  next_ino :: u64

definition FUSE_ROOT_INO :: u64 where "FUSE_ROOT_INO = 1"

definition ino_table_new :: ino_table where
  "ino_table_new = \<lparr>path_to_ino = [''/'' \<mapsto> FUSE_ROOT_INO],
     ino_to_path = [FUSE_ROOT_INO \<mapsto> ''/''], next_ino = FUSE_ROOT_INO + 1\<rparr>"

definition get_or_assign_ino :: "string \<Rightarrow> ino_table \<Rightarrow> u64 \<times> ino_table" where
  "get_or_assign_ino path t =
     (case path_to_ino t path of
        Some ino \<Rightarrow> (ino, t)
      | None \<Rightarrow>
          let ino = next_ino t in
          (ino, t\<lparr>next_ino := ino + 1, path_to_ino := (path_to_ino t)(path \<mapsto> ino),
                  ino_to_path := (ino_to_path t)(ino \<mapsto> path)\<rparr>))"

definition get_path :: "u64 \<Rightarrow> ino_table \<Rightarrow> string option" where
  "get_path ino t = ino_to_path t ino"

definition strip_prefix :: "string \<Rightarrow> string \<Rightarrow> string option" where
  "strip_prefix p s = (if prefix p s then Some (drop (length p) s) else None)"

definition rekeyed :: "string \<Rightarrow> string \<Rightarrow> string \<Rightarrow> string" where
  "rekeyed dir to old = (case strip_prefix dir old of
     Some rest \<Rightarrow> to @ ''/'' @ rest | None \<Rightarrow> to)"

text \<open>The body of the loop: the entry \<open>old\<close> moves, an entry it replaces goes.\<close>

definition rekey_one :: "string \<Rightarrow> string \<Rightarrow> string \<times> u64 \<Rightarrow> ino_table \<Rightarrow> ino_table" where
  "rekey_one dir to e t =
     (let (old, ino) = e;
          new = rekeyed dir to old;
          p2i = (path_to_ino t)(old := None);
          (p2i, i2p) = (case p2i new of
             Some replaced \<Rightarrow> (p2i(new := None), (ino_to_path t)(replaced := None))
           | None \<Rightarrow> (p2i, ino_to_path t))
      in t\<lparr>path_to_ino := p2i(new \<mapsto> ino), ino_to_path := i2p(ino \<mapsto> new)\<rparr>)"

definition rekey_paths ::
  "(string \<times> u64) list \<Rightarrow> string \<Rightarrow> string \<Rightarrow> ino_table \<Rightarrow> ino_table" where
  "rekey_paths iter from to t =
     (let dir = from @ ''/'';
          moved = filter (\<lambda>(key, v). at_or_under from dir key) iter
      in fold (rekey_one dir to) moved t)"

subsection \<open>The invariant\<close>

text \<open>Both maps are finite and inverse to each other, and no number at or above the counter is in use.\<close>

definition ino_table_ok :: "ino_table \<Rightarrow> bool" where
  "ino_table_ok t = (inverse_maps (path_to_ino t) (ino_to_path t)
    \<and> (\<forall>i p. ino_to_path t i = Some p \<longrightarrow> i < next_ino t))"

text \<open>Any order in which the map may be read.\<close>

definition enumerates :: "('k \<times> 'v) list \<Rightarrow> ('k \<Rightarrow> 'v option) \<Rightarrow> bool" where
  "enumerates es m = (distinct (map fst es) \<and> (\<forall>k v. (k, v) \<in> set es \<longleftrightarrow> m k = Some v))"

lemma enumerates_fst: "enumerates es m \<Longrightarrow> k \<in> fst ` set es \<longleftrightarrow> (\<exists>v. m k = Some v)"
  by (force simp: enumerates_def image_iff)

lemma ino_table_okD:
  "ino_table_ok t \<Longrightarrow> path_to_ino t p = Some i \<longleftrightarrow> ino_to_path t i = Some p"
  by (simp add: ino_table_ok_def inverse_mapsD)

lemma ino_table_ok_new: "ino_table_ok ino_table_new"
  by (auto simp: ino_table_ok_def inverse_maps_def ino_table_new_def FUSE_ROOT_INO_def)

text \<open>The counter does not wrap before \<open>2 ^ 64 - 1\<close> assignments.\<close>

lemma fresh_ino:
  assumes "ino_table_ok t" and "next_ino t \<noteq> - 1"
  shows "ino_to_path t (next_ino t) = None" and "next_ino t < next_ino t + 1"
proof -
  show "ino_to_path t (next_ino t) = None"
    using assms(1) by (cases "ino_to_path t (next_ino t)") (auto simp: ino_table_ok_def)
  show "next_ino t < next_ino t + 1"
    using assms(2) by (rule word_less_Suc)
qed


lemma get_or_assign_ino_ok:
  assumes "ino_table_ok t" and "next_ino t \<noteq> - 1" and "get_or_assign_ino p t = (i, t')"
  shows "ino_table_ok t'" and "get_path i t' = Some p"
proof -
  note fresh = fresh_ino[OF assms(1,2)]
  have "ino_table_ok t' \<and> get_path i t' = Some p"
  proof (cases "path_to_ino t p")
    case None
    have lt: "\<And>j q. ino_to_path t j = Some q \<Longrightarrow> j < next_ino t + 1"
      using assms(1) fresh(2) by (metis ino_table_ok_def order_less_trans)
    from None assms fresh lt show ?thesis
      by (auto simp: ino_table_ok_def get_or_assign_ino_def Let_def get_path_def
          intro: inverse_maps_insert split: if_splits)
  next
    case (Some j)
    with assms show ?thesis
      by (auto simp: get_or_assign_ino_def ino_table_ok_def get_path_def inverse_mapsD)
  qed
  then show "ino_table_ok t'" "get_path i t' = Some p" by auto
qed

lemma get_or_assign_ino_keeps:
  assumes "ino_table_ok t" and "next_ino t \<noteq> - 1" and "get_or_assign_ino p t = (i, t')"
    and "get_path j t = Some q"
  shows "get_path j t' = Some q"
  using assms fresh_ino[OF assms(1,2)]
  by (auto simp: get_or_assign_ino_def Let_def get_path_def split: option.splits)

lemma get_or_assign_ino_again:
  "get_or_assign_ino p t = (i, t') \<Longrightarrow> get_or_assign_ino p t' = (i, t')"
  by (auto simp: get_or_assign_ino_def Let_def split: option.splits)

subsection \<open>The contract of an inode table\<close>

locale inode_map =
  fixes assign :: "string \<Rightarrow> 't \<Rightarrow> 'i \<times> 't"
    and path_of :: "'i \<Rightarrow> 't \<Rightarrow> string option"
    and ok :: "'t \<Rightarrow> bool"
    and room :: "'t \<Rightarrow> bool"
  assumes assign_ok: "ok t \<Longrightarrow> room t \<Longrightarrow> ok (snd (assign p t))"
    and assign_path: "ok t \<Longrightarrow> room t \<Longrightarrow> path_of (fst (assign p t)) (snd (assign p t)) = Some p"
    and assign_keeps: "ok t \<Longrightarrow> room t \<Longrightarrow> path_of j t = Some q \<Longrightarrow> path_of j (snd (assign p t)) = Some q"
    and path_inj: "ok t \<Longrightarrow> path_of i t = Some p \<Longrightarrow> path_of j t = Some p \<Longrightarrow> i = j"
begin

lemma assign_known:
  assumes "ok t" "room t" "path_of i t = Some p"
  shows "fst (assign p t) = i"
  using assms assign_keeps assign_ok assign_path path_inj by metis

lemma assign_distinct:
  assumes "ok t" "room t" "room (snd (assign p t))" "p \<noteq> q"
  shows "fst (assign p t) \<noteq> fst (assign q (snd (assign p t)))"
proof
  let ?t = "snd (assign p t)"
  assume e: "fst (assign p t) = fst (assign q ?t)"
  have "path_of (fst (assign p t)) (snd (assign q ?t)) = Some p"
    using assms assign_keeps[OF assign_ok[OF assms(1,2)] assms(3)] assign_path[OF assms(1,2)] by blast
  moreover have "path_of (fst (assign q ?t)) (snd (assign q ?t)) = Some q"
    using assign_path[OF assign_ok[OF assms(1,2)] assms(3)] .
  ultimately show False using e assms(4) by simp
qed

end

definition ino_room :: "ino_table \<Rightarrow> bool" where
  "ino_room t = (next_ino t \<noteq> - 1)"

interpretation inos: inode_map get_or_assign_ino get_path ino_table_ok ino_room
proof unfold_locales
  fix t p assume ok: "ino_table_ok t" "ino_room t"
  show "ino_table_ok (snd (get_or_assign_ino p t))"
    "get_path (fst (get_or_assign_ino p t)) (snd (get_or_assign_ino p t)) = Some p"
    using get_or_assign_ino_ok[OF ok(1) _ prod.collapse[symmetric]] ok(2)
    by (simp_all add: ino_room_def)
  fix j q assume "get_path j t = Some q"
  then show "get_path j (snd (get_or_assign_ino p t)) = Some q"
    using get_or_assign_ino_keeps[OF ok(1) _ prod.collapse[symmetric]] ok(2)
    by (simp add: ino_room_def)
next
  fix t i p j assume "ino_table_ok t" "get_path i t = Some p" "get_path j t = Some p"
  then show "i = j" unfolding get_path_def by (metis ino_table_okD option.inject)
qed

subsection \<open>Moving a subtree\<close>

text \<open>What a step of the loop does to the first map.\<close>

lemma rekey_one_p2i:
  "path_to_ino (rekey_one dir to (old, i) t) = (path_to_ino t)(old := None, rekeyed dir to old \<mapsto> i)"
  by (auto simp: rekey_one_def Let_def fun_eq_iff split: option.splits prod.splits if_splits)

lemma rekey_one_next [simp]: "next_ino (rekey_one dir to e t) = next_ino t"
  by (auto simp: rekey_one_def Let_def split: option.splits prod.splits)

lemma rekey_one_ok:
  assumes "ino_table_ok t" and "path_to_ino t old = Some i"
  shows "ino_table_ok (rekey_one dir to (old, i) t)"
proof -
  let ?new = "rekeyed dir to old"
  let ?f = "(path_to_ino t)(old := None)" and ?g = "(ino_to_path t)(i := None)"
  have inv: "inverse_maps (path_to_ino t) (ino_to_path t)" using assms(1) by (simp add: ino_table_ok_def)
  have lt: "i < next_ino t" "\<And>j p. ino_to_path t j = Some p \<Longrightarrow> j < next_ino t"
    using assms inverse_mapsD[OF inv] by (auto simp: ino_table_ok_def)
  have fg: "inverse_maps ?f ?g" by (rule inverse_maps_remove[OF inv assms(2)])
  show ?thesis
  proof (cases "?f ?new")
    case None
    then have "inverse_maps (?f(?new \<mapsto> i)) (?g(i \<mapsto> ?new))" by (intro inverse_maps_insert[OF fg]) auto
    with None lt show ?thesis by (auto simp: ino_table_ok_def rekey_one_def Let_def)
  next
    case (Some j)
    then have "?g j = Some ?new" using inverse_mapsD[OF fg] by blast
    then have "j \<noteq> i" by auto
    have "inverse_maps (?f(?new := None, ?new \<mapsto> i)) (?g(j := None, i \<mapsto> ?new))"
      by (rule inverse_maps_insert[OF inverse_maps_remove[OF fg Some]]) simp_all
    moreover have "?g(j := None, i \<mapsto> ?new) = (ino_to_path t)(j := None, i \<mapsto> ?new)" by auto
    ultimately show ?thesis
      using Some lt by (auto simp: ino_table_ok_def rekey_one_def Let_def)
  qed
qed


lemma rekey_fold:
  assumes "ino_table_ok t" and "distinct (map fst ms)"
    and "\<forall>(k, i) \<in> set ms. path_to_ino t k = Some i"
    and "\<forall>k \<in> fst ` set ms. \<forall>k' \<in> fst ` set ms. rekeyed dir to k \<noteq> k'"
    and "inj_on (rekeyed dir to) (fst ` set ms)"
  defines "t' \<equiv> fold (rekey_one dir to) ms t"
  shows "ino_table_ok t'"
    and "next_ino t' = next_ino t"
    and "\<forall>(k, i) \<in> set ms. path_to_ino t' (rekeyed dir to k) = Some i \<and> path_to_ino t' k = None"
    and "\<forall>k. k \<notin> fst ` set ms \<and> k \<notin> rekeyed dir to ` fst ` set ms \<longrightarrow> path_to_ino t' k = path_to_ino t k"
proof -
  have "ino_table_ok t' \<and> next_ino t' = next_ino t
      \<and> (\<forall>(k, i) \<in> set ms. path_to_ino t' (rekeyed dir to k) = Some i \<and> path_to_ino t' k = None)
      \<and> (\<forall>k. k \<notin> fst ` set ms \<and> k \<notin> rekeyed dir to ` fst ` set ms \<longrightarrow> path_to_ino t' k = path_to_ino t k)"
    using assms(1-5) unfolding t'_def
  proof (induction ms arbitrary: t)
    case Nil
    then show ?case by simp
  next
    case (Cons m ms)
    obtain k i where m: "m = (k, i)" by (cases m)
    let ?t = "rekey_one dir to m t"
    have p2i: "path_to_ino ?t = (path_to_ino t)(k := None, rekeyed dir to k \<mapsto> i)"
      by (simp add: m rekey_one_p2i)
    have k: "k \<notin> fst ` set ms" using Cons.prems(2) m by simp
    have apart: "rekeyed dir to k \<noteq> k'" "rekeyed dir to k' \<noteq> k" if "k' \<in> fst ` set ms" for k'
      using Cons.prems(4) m that by auto
    have inj: "rekeyed dir to k \<noteq> rekeyed dir to k'" if "k' \<in> fst ` set ms" for k'
      using Cons.prems(5) m that k by (auto simp: inj_on_def)
    have self: "rekeyed dir to k \<noteq> k" using Cons.prems(4) m by auto
    have "\<forall>(k', j) \<in> set ms. path_to_ino ?t k' = Some j"
    proof clarify
      fix k' j assume a: "(k', j) \<in> set ms"
      then have k': "k' \<in> fst ` set ms" by force
      then have "k' \<noteq> rekeyed dir to k" "k' \<noteq> k" using apart(1) k by blast+
      moreover have "path_to_ino t k' = Some j" using a Cons.prems(3) by auto
      ultimately show "path_to_ino ?t k' = Some j" unfolding p2i by simp
    qed
    moreover have "ino_table_ok ?t" using rekey_one_ok Cons.prems(1,3) m by simp
    ultimately have ih: "ino_table_ok (fold (rekey_one dir to) ms ?t)"
      "next_ino (fold (rekey_one dir to) ms ?t) = next_ino ?t"
      "\<forall>(k', j) \<in> set ms. path_to_ino (fold (rekey_one dir to) ms ?t) (rekeyed dir to k') = Some j
          \<and> path_to_ino (fold (rekey_one dir to) ms ?t) k' = None"
      "\<forall>k'. k' \<notin> fst ` set ms \<and> k' \<notin> rekeyed dir to ` fst ` set ms \<longrightarrow>
          path_to_ino (fold (rekey_one dir to) ms ?t) k' = path_to_ino ?t k'"
      using Cons.IH[of ?t] Cons.prems(2,4,5) by (auto simp: inj_on_def)
    have "rekeyed dir to k \<notin> fst ` set ms" "rekeyed dir to k \<notin> rekeyed dir to ` fst ` set ms"
      "k \<notin> rekeyed dir to ` fst ` set ms"
      using apart inj by blast+
    then have "path_to_ino (fold (rekey_one dir to) ms ?t) (rekeyed dir to k) = Some i"
      "path_to_ino (fold (rekey_one dir to) ms ?t) k = None"
      using ih(4) self k unfolding p2i by auto
    with ih show ?case unfolding m p2i[unfolded m] by (auto simp: p2i[unfolded m])
  qed
  then show "ino_table_ok t'" "next_ino t' = next_ino t"
    "\<forall>(k, i) \<in> set ms. path_to_ino t' (rekeyed dir to k) = Some i \<and> path_to_ino t' k = None"
    "\<forall>k. k \<notin> fst ` set ms \<and> k \<notin> rekeyed dir to ` fst ` set ms \<longrightarrow> path_to_ino t' k = path_to_ino t k"
    by blast+
qed

subsection \<open>Moving a subtree, by components\<close>

definition paths_ok :: "ino_table \<Rightarrow> bool" where
  "paths_ok t = (\<forall>p i. path_to_ino t p = Some i \<longrightarrow> (\<exists>cs. list_all comp_ok cs \<and> p = path_str cs))"

lemma slashed_Nil_iff [simp]: "slashed cs = [] \<longleftrightarrow> cs = []"
  by (cases cs) auto

lemma path_str_append: "xs \<noteq> [] \<Longrightarrow> path_str (xs @ ys) = path_str xs @ slashed ys"
  by (simp add: path_str_def)

lemma rekeyed_path_str:
  assumes "fs \<noteq> []" "ts \<noteq> []"
  shows "rekeyed (path_str fs @ ''/'') (path_str ts) (path_str (fs @ r)) = path_str (ts @ r)"
  using assms
  by (cases r) (auto simp: rekeyed_def strip_prefix_def path_str_append dest: prefix_length_le)

text \<open>What a rename comes with: a table of device paths, an order in which it is read, and two
  paths that do not lie in each other (a move into its own subtree the kernel refuses, a move
  onto an ancestor the device refuses).\<close>

definition move_ok :: "ino_table \<Rightarrow> (string \<times> u64) list \<Rightarrow> string list \<Rightarrow> string list \<Rightarrow> bool" where
  "move_ok t iter fs ts =
     (ino_table_ok t \<and> paths_ok t \<and> enumerates iter (path_to_ino t)
      \<and> list_all comp_ok fs \<and> fs \<noteq> [] \<and> list_all comp_ok ts \<and> ts \<noteq> []
      \<and> \<not> prefix fs ts \<and> \<not> prefix ts fs)"

lemma move_okD:
  assumes "move_ok t iter fs ts"
  shows "ino_table_ok t" "paths_ok t" "enumerates iter (path_to_ino t)"
    "list_all comp_ok fs" "fs \<noteq> []" "list_all comp_ok ts" "ts \<noteq> []"
    "\<not> prefix fs ts" "\<not> prefix ts fs"
  using assms by (auto simp: move_ok_def)

abbreviation dir_of :: "string list \<Rightarrow> string" where
  "dir_of fs \<equiv> path_str fs @ ''/''"

abbreviation moved_of :: "(string \<times> u64) list \<Rightarrow> string list \<Rightarrow> (string \<times> u64) list" where
  "moved_of iter fs \<equiv> filter (\<lambda>(key, v). at_or_under (path_str fs) (dir_of fs) key) iter"

abbreviation after :: "(string \<times> u64) list \<Rightarrow> string list \<Rightarrow> string list \<Rightarrow> ino_table \<Rightarrow> ino_table" where
  "after iter fs ts t \<equiv> rekey_paths iter (path_str fs) (path_str ts) t"

lemma after_fold: "after iter fs ts t = fold (rekey_one (dir_of fs) (path_str ts)) (moved_of iter fs) t"
  by (simp add: rekey_paths_def Let_def)

lemma moved_iff:
  assumes m: "move_ok t iter fs ts"
  shows "(k, i) \<in> set (moved_of iter fs) \<longleftrightarrow>
    (\<exists>r. list_all comp_ok r \<and> k = path_str (fs @ r) \<and> path_to_ino t k = Some i)"
proof
  note fs = move_okD(4,5)[OF m]
  assume "(k, i) \<in> set (moved_of iter fs)"
  then have u: "at_or_under (path_str fs) (dir_of fs) k" and s: "path_to_ino t k = Some i"
    using move_okD(3)[OF m] by (auto simp: enumerates_def)
  then obtain cs where cs: "list_all comp_ok cs" "k = path_str cs"
    using move_okD(2)[OF m] by (auto simp: paths_ok_def)
  then have "prefix fs cs" using u at_or_under_str[OF fs(1) cs(1) fs(2)] by simp
  then obtain r where "cs = fs @ r" by (auto simp: prefix_def)
  with cs s show "\<exists>r. list_all comp_ok r \<and> k = path_str (fs @ r) \<and> path_to_ino t k = Some i" by auto
next
  note fs = move_okD(4,5)[OF m]
  assume "\<exists>r. list_all comp_ok r \<and> k = path_str (fs @ r) \<and> path_to_ino t k = Some i"
  then obtain r where r: "list_all comp_ok r" "k = path_str (fs @ r)" "path_to_ino t k = Some i" by blast
  then have "at_or_under (path_str fs) (dir_of fs) k"
    using at_or_under_str[OF fs(1) _ fs(2), of "fs @ r"] fs(1) by simp
  with r move_okD(3)[OF m] show "(k, i) \<in> set (moved_of iter fs)" by (simp add: enumerates_def)
qed

lemma moved_fst:
  assumes "move_ok t iter fs ts"
  shows "k \<in> fst ` set (moved_of iter fs) \<longleftrightarrow>
    (\<exists>r. list_all comp_ok r \<and> k = path_str (fs @ r) \<and> path_to_ino t k \<noteq> None)"
  unfolding in_fst_image moved_iff[OF assms] by auto

lemma apart_str:
  assumes "move_ok t iter fs ts" "list_all comp_ok r" "list_all comp_ok r'"
  shows "path_str (fs @ r) \<noteq> path_str (ts @ r')"
proof
  note m = move_okD[OF assms(1)]
  assume "path_str (fs @ r) = path_str (ts @ r')"
  then have "fs @ r = ts @ r'" using assms(2,3) m(4,6) by (simp add: path_str_inj)
  then show False using m(8,9) by (metis prefixI prefix_same_cases)
qed

lemma image_moved:
  assumes m: "move_ok t iter fs ts"
  shows "k \<in> rekeyed (dir_of fs) (path_str ts) ` fst ` set (moved_of iter fs) \<longleftrightarrow>
    (\<exists>r. list_all comp_ok r \<and> k = path_str (ts @ r) \<and> path_to_ino t (path_str (fs @ r)) \<noteq> None)"
  using rekeyed_path_str[OF move_okD(5,7)[OF m]]
  unfolding image_iff[of k] Bex_def moved_fst[OF m] by metis

lemma fold_pre:
  assumes m: "move_ok t iter fs ts"
  shows "distinct (map fst (moved_of iter fs))"
    and "\<forall>(k, i) \<in> set (moved_of iter fs). path_to_ino t k = Some i"
    and "\<forall>k \<in> fst ` set (moved_of iter fs). \<forall>k' \<in> fst ` set (moved_of iter fs).
      rekeyed (dir_of fs) (path_str ts) k \<noteq> k'"
    and "inj_on (rekeyed (dir_of fs) (path_str ts)) (fst ` set (moved_of iter fs))"
proof -
  note mv = rekeyed_path_str[OF move_okD(5,7)[OF m]]
  show "distinct (map fst (moved_of iter fs))"
    using move_okD(3)[OF m] by (simp add: enumerates_def distinct_map_filter)
  show "\<forall>(k, i) \<in> set (moved_of iter fs). path_to_ino t k = Some i"
    using move_okD(3)[OF m] by (auto simp: enumerates_def)
  show "\<forall>k \<in> fst ` set (moved_of iter fs). \<forall>k' \<in> fst ` set (moved_of iter fs).
      rekeyed (dir_of fs) (path_str ts) k \<noteq> k'"
    using mv apart_str[OF m] by (auto simp only: moved_fst[OF m] Ball_def; metis)
  show "inj_on (rekeyed (dir_of fs) (path_str ts)) (fst ` set (moved_of iter fs))"
  proof (rule inj_onI, unfold moved_fst[OF m])
    fix k k' assume "\<exists>r. list_all comp_ok r \<and> k = path_str (fs @ r) \<and> path_to_ino t k \<noteq> None"
      "\<exists>r. list_all comp_ok r \<and> k' = path_str (fs @ r) \<and> path_to_ino t k' \<noteq> None"
      and e: "rekeyed (dir_of fs) (path_str ts) k = rekeyed (dir_of fs) (path_str ts) k'"
    then obtain r r' where r: "list_all comp_ok r" "k = path_str (fs @ r)"
      "list_all comp_ok r'" "k' = path_str (fs @ r')" by blast
    then have "path_str (ts @ r) = path_str (ts @ r')" using e mv by simp
    then have "r = r'" using r move_okD(6)[OF m] by (simp add: path_str_inj)
    with r show "k = k'" by simp
  qed
qed

lemmas after_post = rekey_fold[OF move_okD(1) fold_pre, folded after_fold]

lemma after_moved:
  assumes m: "move_ok t iter fs ts" and r: "list_all comp_ok r"
  shows "path_to_ino (after iter fs ts t) (path_str (fs @ r)) = None
    \<and> path_to_ino (after iter fs ts t) (path_str (ts @ r)) =
      (case path_to_ino t (path_str (fs @ r)) of
         Some i \<Rightarrow> Some i | None \<Rightarrow> path_to_ino t (path_str (ts @ r)))"
proof (cases "path_to_ino t (path_str (fs @ r))")
  case None
  have "path_str (fs @ r) \<notin> fst ` set (moved_of iter fs)" "path_str (ts @ r) \<notin> fst ` set (moved_of iter fs)"
    using apart_str[OF m] r None unfolding moved_fst[OF m] by metis+
  moreover have "path_str (fs @ r) \<notin> rekeyed (dir_of fs) (path_str ts) ` fst ` set (moved_of iter fs)"
    using apart_str[OF m] r unfolding image_moved[OF m] by metis
  moreover have "path_str (ts @ r) \<notin> rekeyed (dir_of fs) (path_str ts) ` fst ` set (moved_of iter fs)"
    using None r move_okD(6)[OF m] unfolding image_moved[OF m] by (auto simp: path_str_inj)
  ultimately show ?thesis using after_post(4)[OF m m m m m] None by simp
next
  case (Some i)
  then have "(path_str (fs @ r), i) \<in> set (moved_of iter fs)" using moved_iff[OF m] r by blast
  then show ?thesis
    using after_post(3)[OF m m m m m] rekeyed_path_str[OF move_okD(5,7)[OF m], of r] Some by fastforce
qed

lemma after_elsewhere:
  assumes m: "move_ok t iter fs ts" and "list_all comp_ok cs" "\<not> prefix fs cs" "\<not> prefix ts cs"
  shows "path_to_ino (after iter fs ts t) (path_str cs) = path_to_ino t (path_str cs)"
proof -
  have "path_str cs \<notin> fst ` set (moved_of iter fs)"
    using assms move_okD(4)[OF m] unfolding moved_fst[OF m] by (auto simp: path_str_inj)
  moreover have "path_str cs \<notin> rekeyed (dir_of fs) (path_str ts) ` fst ` set (moved_of iter fs)"
    using assms move_okD(6)[OF m] unfolding image_moved[OF m] by (auto simp: path_str_inj)
  ultimately show ?thesis using after_post(4)[OF m m m m m] by blast
qed

lemma after_paths_ok:
  assumes m: "move_ok t iter fs ts"
  shows "paths_ok (after iter fs ts t)"
  unfolding paths_ok_def
proof (intro allI impI)
  fix p i assume p: "path_to_ino (after iter fs ts t) p = Some i"
  show "\<exists>cs. list_all comp_ok cs \<and> p = path_str cs"
  proof (cases "p \<in> rekeyed (dir_of fs) (path_str ts) ` fst ` set (moved_of iter fs)")
    case True
    then obtain r where "list_all comp_ok r" "p = path_str (ts @ r)" unfolding image_moved[OF m] by blast
    with move_okD(6)[OF m] show ?thesis by (intro exI[of _ "ts @ r"]) simp
  next
    case False
    moreover have "p \<notin> fst ` set (moved_of iter fs)"
    proof
      assume "p \<in> fst ` set (moved_of iter fs)"
      then obtain j where "(p, j) \<in> set (moved_of iter fs)" unfolding in_fst_image by blast
      then show False using after_post(3)[OF m m m m m] p by fastforce
    qed
    ultimately have "path_to_ino t p = Some i" using after_post(4)[OF m m m m m] p by simp
    with move_okD(2)[OF m] show ?thesis by (auto simp: paths_ok_def)
  qed
qed

subsection \<open>Properties\<close>

text \<open>Inodes are handed out once: an inode stands for one path and a path for one inode, a
  path asked for again gets the inode it has, and no other inode changes its path.\<close>

theorem get_or_assign_ino_correct:
  assumes "ino_table_ok t" and "next_ino t \<noteq> - 1" and "get_or_assign_ino p t = (i, t')"
  shows "ino_table_ok t' \<and> get_path i t' = Some p \<and> get_or_assign_ino p t' = (i, t')
    \<and> (\<forall>j q. get_path j t = Some q \<longrightarrow> get_path j t' = Some q)
    \<and> (\<forall>j. j \<noteq> i \<longrightarrow> get_path j t' = get_path j t)"
proof (intro conjI)
  show "\<forall>j. j \<noteq> i \<longrightarrow> get_path j t' = get_path j t"
    using assms(3) by (auto simp: get_or_assign_ino_def get_path_def Let_def split: option.splits)
qed (use get_or_assign_ino_ok[OF assms] get_or_assign_ino_keeps[OF assms]
    get_or_assign_ino_again[OF assms(3)] in blast)+

theorem get_or_assign_ino_correct_witness:
  "get_path 2 (snd (get_or_assign_ino ''/sdcard'' ino_table_new)) = Some ''/sdcard''"
proof -
  have g: "get_or_assign_ino ''/sdcard'' ino_table_new
      = (2, snd (get_or_assign_ino ''/sdcard'' ino_table_new))"
    by (simp add: get_or_assign_ino_def ino_table_new_def FUSE_ROOT_INO_def Let_def)
  have n: "next_ino ino_table_new \<noteq> - 1" by (simp add: ino_table_new_def FUSE_ROOT_INO_def)
  show ?thesis using get_or_assign_ino_correct[OF ino_table_ok_new n g] by blast
qed

text \<open>C22. A rename moves the inodes of the whole subtree, whatever the order in which the map is
  read: every inode at or below the old path resolves to the path with the new prefix, an inode
  it replaces resolves no more, every other inode keeps its path, and the two maps stay inverse
  to each other.\<close>

theorem rekey_paths_moves_subtree:
  assumes "move_ok t iter fs ts"
  shows "ino_table_ok (rekey_paths iter (path_str fs) (path_str ts) t)
    \<and> paths_ok (rekey_paths iter (path_str fs) (path_str ts) t)
    \<and> (\<forall>r i. list_all comp_ok r \<longrightarrow> get_path i t = Some (path_str (fs @ r)) \<longrightarrow>
         get_path i (rekey_paths iter (path_str fs) (path_str ts) t) = Some (path_str (ts @ r)))
    \<and> (\<forall>r i j. list_all comp_ok r \<longrightarrow> get_path i t = Some (path_str (fs @ r)) \<longrightarrow>
         get_path j t = Some (path_str (ts @ r)) \<longrightarrow>
         get_path j (rekey_paths iter (path_str fs) (path_str ts) t) = None)
    \<and> (\<forall>cs i. list_all comp_ok cs \<longrightarrow> \<not> prefix fs cs \<longrightarrow> \<not> prefix ts cs \<longrightarrow>
         get_path i t = Some (path_str cs) \<longrightarrow>
         get_path i (rekey_paths iter (path_str fs) (path_str ts) t) = Some (path_str cs))"
proof -
  let ?t = "after iter fs ts t"
  have ok: "ino_table_ok ?t" by (rule after_post(1)[OF assms assms assms assms assms])
  note by_path = ino_table_okD[OF move_okD(1)[OF assms], symmetric] ino_table_okD[OF ok, symmetric]
  have sub: "get_path i ?t = Some (path_str (ts @ r))"
    if "list_all comp_ok r" "get_path i t = Some (path_str (fs @ r))" for r i
    using after_moved[OF assms that(1)] that(2) by (simp add: get_path_def by_path)
  have gone: "get_path j ?t = None"
    if r: "list_all comp_ok r" "get_path i t = Some (path_str (fs @ r))"
      "get_path j t = Some (path_str (ts @ r))" for r i j
  proof (rule ccontr)
    assume "get_path j ?t \<noteq> None"
    then obtain p where p: "path_to_ino ?t p = Some j" by (auto simp: get_path_def by_path)
    then obtain cs where cs: "list_all comp_ok cs" "p = path_str cs"
      using after_paths_ok[OF assms] by (auto simp: paths_ok_def)
    have at_t: "path_to_ino t q = Some j \<longleftrightarrow> q = path_str (ts @ r)" for q
      using r(3) by (auto simp: get_path_def simp flip: by_path)
    have ts: "list_all comp_ok (ts @ r)" using move_okD(6)[OF assms] r(1) by simp
    consider r' where "cs = fs @ r'" | r' where "cs = ts @ r'" | "\<not> prefix fs cs" "\<not> prefix ts cs"
      by (auto simp: prefix_def)
    then show False
    proof cases
      case 1
      then show False using after_moved[OF assms, of r'] p cs by simp
    next
      case 2
      then have ok': "list_all comp_ok r'" using cs(1) by simp
      have "path_str (fs @ r') \<noteq> path_str (ts @ r)" by (rule apart_str[OF assms ok' r(1)])
      then have none: "path_to_ino t (path_str (fs @ r')) = None"
        and "path_to_ino t (path_str (ts @ r')) = Some j"
        using after_moved[OF assms ok'] p 2 cs(2) at_t by (auto split: option.splits)
      then have "r' = r" using at_t ts cs(1) 2 by (simp add: path_str_inj)
      with none r(2) show False by (simp add: get_path_def by_path)
    next
      case 3
      then have "cs = ts @ r"
        using after_elsewhere[OF assms cs(1)] p cs at_t ts by (simp add: path_str_inj)
      with 3 show False by simp
    qed
  qed
  show ?thesis
    using ok after_paths_ok[OF assms] sub gone after_elsewhere[OF assms]
    by (auto simp: get_path_def by_path)
qed

theorem rekey_paths_moves_subtree_witness:
  "\<exists>t iter. get_path 2 t = Some ''/a'' \<and> get_path 3 t = Some ''/a/x'' \<and> get_path 4 t = Some ''/b''
     \<and> get_path 5 t = Some ''/ab''
     \<and> get_path 2 (rekey_paths iter ''/a'' ''/b'' t) = Some ''/b''
     \<and> get_path 3 (rekey_paths iter ''/a'' ''/b'' t) = Some ''/b/x''
     \<and> get_path 4 (rekey_paths iter ''/a'' ''/b'' t) = None
     \<and> get_path 5 (rekey_paths iter ''/a'' ''/b'' t) = Some ''/ab''"
proof -
  define iter :: "(string \<times> u64) list" where
    "iter = [(''/a/x'', 3), (''/b'', 4), (''/'', 1), (''/ab'', 5), (''/a'', 2)]"
  define t where "t = \<lparr>path_to_ino = [''/a/x'' \<mapsto> 3, ''/b'' \<mapsto> 4, ''/'' \<mapsto> 1, ''/ab'' \<mapsto> 5, ''/a'' \<mapsto> 2],
    ino_to_path = [3 \<mapsto> ''/a/x'', 4 \<mapsto> ''/b'', 1 \<mapsto> ''/'', 5 \<mapsto> ''/ab'', 2 \<mapsto> ''/a''], next_ino = 6\<rparr>"
  have cs: "list_all comp_ok [''a'']" "list_all comp_ok [''b'']" "list_all comp_ok [''x'']"
    "list_all comp_ok [''ab'']" "list_all comp_ok ([] :: string list)"
    by (simp_all add: comp_ok_def)
  have ps: "path_str [''a''] = ''/a''" "path_str [''b''] = ''/b''" "path_str ([''a''] @ [''x'']) = ''/a/x''"
    "path_str ([''b''] @ [''x'']) = ''/b/x''" "path_str [''ab''] = ''/ab''" "path_str ([''a''] @ []) = ''/a''"
    "path_str ([''b''] @ []) = ''/b''" "path_str [] = ''/''"
    by (simp_all add: path_str_def)
  have "ino_table_ok t"
    by (auto simp: t_def ino_table_ok_def inverse_maps_def split: if_splits)
  moreover have "paths_ok t"
    unfolding paths_ok_def
  proof (intro allI impI)
    fix p i assume "path_to_ino t p = Some i"
    then have "p \<in> {''/a/x'', ''/b'', ''/'', ''/ab'', ''/a''}" by (auto simp: t_def split: if_splits)
    then have "p = path_str ([''a''] @ [''x'']) \<or> p = path_str [''b''] \<or> p = path_str []
        \<or> p = path_str [''ab''] \<or> p = path_str [''a'']"
      unfolding ps by blast
    then show "\<exists>cs. list_all comp_ok cs \<and> p = path_str cs"
      using cs by (metis list_all_append)
  qed
  moreover have "enumerates iter (path_to_ino t)"
    by (auto simp: t_def iter_def enumerates_def split: if_splits)
  ultimately have m: "move_ok t iter [''a''] [''b'']" using cs by (simp add: move_ok_def)
  have at: "get_path 2 t = Some ''/a''" "get_path 3 t = Some ''/a/x''" "get_path 4 t = Some ''/b''"
    "get_path 5 t = Some ''/ab''"
    by (simp_all add: t_def get_path_def)
  let ?t = "rekey_paths iter (path_str [''a'']) (path_str [''b'']) t"
  have to_b: "get_path i ?t = Some (path_str ([''b''] @ r))"
    if "list_all comp_ok r" "get_path i t = Some (path_str ([''a''] @ r))" for r i
    using rekey_paths_moves_subtree[OF m] that by blast
  have "get_path 4 ?t = None"
    using rekey_paths_moves_subtree[OF m] cs(5) at(1,3) ps(6,7) by metis
  moreover have "get_path 5 ?t = Some ''/ab''"
    using rekey_paths_moves_subtree[OF m] cs(4) at(4) ps(5) by fastforce
  moreover have "get_path 2 ?t = Some ''/b''" "get_path 3 ?t = Some ''/b/x''"
    using to_b[OF cs(5), of 2] to_b[OF cs(3), of 3] at ps by simp_all
  ultimately show ?thesis using at unfolding ps by blast
qed

text \<open>The boundary of the property: into its own subtree the loop would undo its own work.\<close>

lemma rekey_into_itself_breaks:
  "let t = \<lparr>path_to_ino = [''/a'' \<mapsto> 2, ''/a/b'' \<mapsto> 3], ino_to_path = [2 \<mapsto> ''/a'', 3 \<mapsto> ''/a/b''],
         next_ino = 4\<rparr>;
       t' = rekey_paths [(''/a'', 2), (''/a/b'', 3)] ''/a'' ''/a/b'' t
   in ino_table_ok t \<and> get_path 2 t' = Some ''/a/b'' \<and> path_to_ino t' ''/a/b'' = None"
  by (auto simp: Let_def rekey_paths_def rekey_one_def at_or_under_def get_path_def rekeyed_def
      strip_prefix_def ino_table_ok_def inverse_maps_def split: if_splits)

end
