(* ===== verification/FsState.thy ===== *)
theory FsState
  imports Cache MountOpts DeviceOps Inodes
begin

unbundle bit_operations_syntax

text \<open>
  The state of the file system (\<open>AdbFs\<close>, \<open>LocalCopy\<close>, \<open>CopyState\<close>, \<open>OpenFile\<close> and \<open>OpenDir\<close> in
  \<open>src/src/fs.rs\<close>) and the helpers every request is built from. An \<open>Arc<LocalCopy>\<close> is an
  address into a store of copies, so that two handles on one inode share one copy as they do
  in the code. One request runs at a time here; the interleavings are in the theories
  CopyProtocol, InodeRace, FlushRace and CacheRace.
\<close>

subsection \<open>Local copies, open files, the file system\<close>

record local_copy =
  lc_path :: string
  lc_dirty :: bool
  lc_refs :: nat
  lc_pulled :: bool
  lc_evicted :: bool
  lc_poisoned :: bool

datatype copy_init = PullInit | EmptyInit

definition local_copy_new :: "string \<Rightarrow> local_copy" where
  "local_copy_new path = \<lparr>lc_path = path, lc_dirty = False, lc_refs = 0, lc_pulled = False,
     lc_evicted = False, lc_poisoned = False\<rparr>"

datatype file_type = RegularFile | Directory | Symlink | BlockDevice | CharDevice | NamedPipe | Socket

record open_file =
  of_ino :: u64
  of_copy :: nat
  of_file :: nat

type_synonym dir_entry = "u64 \<times> file_type \<times> string"

record 'd adb_fs =
  fs_cache :: metadata_cache
  open_files :: "u64 \<Rightarrow> open_file option"
  open_copies :: "u64 \<Rightarrow> nat option"
  copy_at :: "nat \<Rightarrow> local_copy"
  next_copy :: nat
  open_dirs :: "u64 \<Rightarrow> dir_entry list option"
  next_fh :: u64
  inodes :: ino_table
  touch_gnu_mode :: bool
  fs_world :: "'d world"

text \<open>
  What does not change while the file system runs, and what is not under \<open>src/\<close>: the device
  operations, the options, the path of the temporary directory, the two clocks, the order in
  which the path map is read, and the \<open>tempfile\<close> crate (a directory and its removal).
\<close>

record 'd fs_env =
  e_ops :: "'d dev_env"
  e_opts :: fs_options
  e_tmp_dir :: string
  e_instant_now :: "'d world \<Rightarrow> nat"
  e_system_now :: "'d world \<Rightarrow> int"
  e_iter :: "(string \<Rightarrow> u64 option) \<Rightarrow> (string \<times> u64) list"
  e_tempdir_in :: "string \<Rightarrow> 'd world \<Rightarrow> (int, string) res \<times> 'd world"
  e_tempdir_drop :: "string \<Rightarrow> 'd world \<Rightarrow> 'd world"

type_synonym ('d, 'e, 'a) fs_op = "'d adb_fs \<Rightarrow> ('e, 'a) res \<times> 'd adb_fs"

definition adb_fs_new :: "nat \<Rightarrow> 'd world \<Rightarrow> 'd adb_fs" where
  "adb_fs_new ttl w =
     \<lparr>fs_cache = cache_new ttl, open_files = Map.empty, open_copies = Map.empty,
      copy_at = (\<lambda>_. local_copy_new []), next_copy = 0, open_dirs = Map.empty, next_fh = 1,
      inodes = ino_table_new, touch_gnu_mode = True, fs_world = w\<rparr>"

subsection \<open>Calls of the layers below\<close>

definition device_err :: "device_error \<Rightarrow> int" where
  "device_err e = to_errno e"

definition on_world :: "('d world \<Rightarrow> ('e, 'a) res \<times> 'd world) \<Rightarrow> ('d, 'e, 'a) fs_op" where
  "on_world f s = (case f (fs_world s) of (r, w) \<Rightarrow> (r, s\<lparr>fs_world := w\<rparr>))"

definition on_host_fs :: "(host \<Rightarrow> (int, 'a) res \<times> host) \<Rightarrow> ('d, int, 'a) fs_op" where
  "on_host_fs f = on_world (on_host f)"

definition set_copy :: "nat \<Rightarrow> local_copy \<Rightarrow> 'd adb_fs \<Rightarrow> 'd adb_fs" where
  "set_copy c k s = s\<lparr>copy_at := (copy_at s)(c := k)\<rparr>"

definition upd_cache :: "(metadata_cache \<Rightarrow> metadata_cache) \<Rightarrow> 'd adb_fs \<Rightarrow> 'd adb_fs" where
  "upd_cache f s = s\<lparr>fs_cache := f (fs_cache s)\<rparr>"

definition invalidate :: "string \<Rightarrow> 'd adb_fs \<Rightarrow> 'd adb_fs" where
  "invalidate path = upd_cache (cache_invalidate path)"

definition remember :: "'d fs_env \<Rightarrow> string \<Rightarrow> file_meta option \<Rightarrow> 'd adb_fs \<Rightarrow> 'd adb_fs" where
  "remember E path m s = upd_cache (cache_insert path m (e_instant_now E (fs_world s))) s"

definition assign_ino :: "string \<Rightarrow> 'd adb_fs \<Rightarrow> u64 \<times> 'd adb_fs" where
  "assign_ino path s = (case get_or_assign_ino path (inodes s) of (i, t) \<Rightarrow> (i, s\<lparr>inodes := t\<rparr>))"

definition ino_path :: "u64 \<Rightarrow> 'd adb_fs \<Rightarrow> string option" where
  "ino_path ino s = get_path ino (inodes s)"

subsection \<open>Helpers of the requests\<close>

text \<open>\<open>Path::join\<close> with a relative name.\<close>

definition path_join :: "string \<Rightarrow> string \<Rightarrow> string" where
  "path_join dir name = (if dir = [] \<or> suffix ''/'' dir then dir @ name else dir @ ''/'' @ name)"

definition local_path_for :: "'d fs_env \<Rightarrow> u64 \<Rightarrow> string" where
  "local_path_for E ino = path_join (e_tmp_dir E) (show_nat (unat ino))"

definition push_and_sync :: "'d fs_env \<Rightarrow> string \<Rightarrow> string \<Rightarrow> ('d, device_error, unit) fs_op" where
  "push_and_sync E local_path device_path s =
     try_res (on_world (dev_push (e_ops E) local_path device_path) s) (\<lambda>_.
       on_world (dev_sync_device (e_ops E)))"

definition fetch_meta :: "'d fs_env \<Rightarrow> string \<Rightarrow> ('d, device_error, file_meta) fs_op" where
  "fetch_meta E path s =
     (case cache_get path (e_instant_now E (fs_world s)) (fs_cache s) of
        (hit, c) \<Rightarrow>
          let s = s\<lparr>fs_cache := c\<rparr>
          in case hit of
            Some (Some m) \<Rightarrow> (Ok m, s)
          | Some None \<Rightarrow> (Err (NotFound path), s)
          | None \<Rightarrow>
              (case on_world (get_metadata (e_ops E) path) s of
                 (Ok m, s) \<Rightarrow> (Ok m, remember E path (Some m) s)
               | (Err (NotFound p), s) \<Rightarrow> (Err (NotFound p), remember E path None s)
               | (Err e, s) \<Rightarrow> (Err e, s)
               | (Panicked, s) \<Rightarrow> (Panicked, s)))"

subsection \<open>Attributes\<close>

record file_attr =
  at_ino :: u64
  at_size :: u64
  at_blocks :: u64
  at_atime :: int
  at_mtime :: int
  at_ctime :: int
  at_crtime :: int
  at_kind :: file_type
  at_perm :: u16
  at_nlink :: u32
  at_uid :: u32
  at_gid :: u32
  at_rdev :: u32
  at_blksize :: u32
  at_flags :: u32

text \<open>Times are nanoseconds since the epoch; \<open>UNIX_EPOCH\<close> is 0.\<close>

definition mode_to_filetype :: "u32 \<Rightarrow> file_type" where
  "mode_to_filetype md =
     (let ft = md AND S_IFMT in
      if ft = S_IFDIR then Directory
      else if ft = S_IFLNK then Symlink
      else if ft = S_IFBLK then BlockDevice
      else if ft = S_IFCHR then CharDevice
      else if ft = S_IFIFO then NamedPipe
      else if ft = S_IFSOCK then Socket
      else RegularFile)"

text \<open>\<open>u64::div_ceil\<close>.\<close>

definition div_ceil :: "u64 \<Rightarrow> u64 \<Rightarrow> u64" where
  "div_ceil n d = (if n mod d > 0 then n div d + 1 else n div d)"

definition meta_to_attr :: "fs_options \<Rightarrow> u64 \<Rightarrow> file_meta \<Rightarrow> file_attr" where
  "meta_to_attr opts ino meta =
     (case apply_ownership opts (m_mode meta) (m_uid meta) (m_gid meta) of (md, u, g) \<Rightarrow>
       \<lparr>at_ino = ino, at_size = m_size meta, at_blocks = div_ceil (m_size meta) 512,
        at_atime = m_mtime meta, at_mtime = m_mtime meta, at_ctime = m_mtime meta, at_crtime = 0,
        at_kind = mode_to_filetype md, at_perm = ucast (md AND 0xFFF), at_nlink = m_nlink meta,
        at_uid = u, at_gid = g, at_rdev = ucast (m_rdev meta), at_blksize = 512, at_flags = 0\<rparr>)"

definition NEGATIVE_ENTRY :: file_attr where
  "NEGATIVE_ENTRY =
     \<lparr>at_ino = 0, at_size = 0, at_blocks = 0, at_atime = 0, at_mtime = 0, at_ctime = 0,
      at_crtime = 0, at_kind = RegularFile, at_perm = 0, at_nlink = 0, at_uid = 0, at_gid = 0,
      at_rdev = 0, at_blksize = 0, at_flags = 0\<rparr>"

text \<open>The cache hints of an open file, \<open>FOPEN_DIRECT_IO\<close> and \<open>FOPEN_KEEP_CACHE\<close>.\<close>

record fopen_flags =
  fopen_direct_io :: bool
  fopen_keep_cache :: bool

definition no_flags :: fopen_flags where
  "no_flags = \<lparr>fopen_direct_io = False, fopen_keep_cache = False\<rparr>"

definition file_open_flags :: "fs_options \<Rightarrow> fopen_flags" where
  "file_open_flags opts = \<lparr>fopen_direct_io = direct_io opts, fopen_keep_cache = kernel_cache opts\<rparr>"

subsection \<open>Local copies\<close>

text \<open>\<open>entry(ino).or_insert_with(...)\<close>.\<close>

definition copy_entry :: "'d fs_env \<Rightarrow> u64 \<Rightarrow> 'd adb_fs \<Rightarrow> nat \<times> 'd adb_fs" where
  "copy_entry E ino s =
     (case open_copies s ino of
        Some c \<Rightarrow> (c, s)
      | None \<Rightarrow>
          let c = next_copy s
          in (c, set_copy c (local_copy_new (local_path_for E ino))
                (s\<lparr>next_copy := Suc c, open_copies := (open_copies s)(ino \<mapsto> c)\<rparr>)))"

text \<open>\<open>remove_if(&ino, |_, v| Arc::ptr_eq(v, copy))\<close>.\<close>

definition forget_copy :: "u64 \<Rightarrow> nat \<Rightarrow> 'd adb_fs \<Rightarrow> 'd adb_fs" where
  "forget_copy ino c s =
     (if open_copies s ino = Some c then s\<lparr>open_copies := (open_copies s)(ino := None)\<rparr> else s)"

definition mark_dirty :: "nat \<Rightarrow> bool \<Rightarrow> 'd adb_fs \<Rightarrow> 'd adb_fs" where
  "mark_dirty c b s = set_copy c ((copy_at s c)\<lparr>lc_dirty := b\<rparr>) s"

text \<open>What \<open>acquire_copy\<close> does to the local file while it holds the lock of the copy.\<close>

definition populate :: "'d fs_env \<Rightarrow> nat \<Rightarrow> string \<Rightarrow> copy_init \<Rightarrow> ('d, int, unit) fs_op" where
  "populate E c path init s =
     (case init of
        EmptyInit \<Rightarrow>
          try_res (on_host_fs (host_create (lc_path (copy_at s c))) s) (\<lambda>_ s.
            (Ok (), mark_dirty c True s))
      | PullInit \<Rightarrow>
          if \<not> lc_pulled (copy_at s c) then
            map_err_res device_err (on_world (dev_pull (e_ops E) path (lc_path (copy_at s c))) s)
          else (Ok (), s))"

text \<open>
  One round of the loop of \<open>acquire_copy\<close>; \<open>None\<close> is \<open>continue\<close>. A panic while the lock is
  held poisons it, and \<open>expect\<close> panics on a poisoned lock.
\<close>

definition acquire_round ::
  "'d fs_env \<Rightarrow> u64 \<Rightarrow> string \<Rightarrow> copy_init \<Rightarrow> 'd adb_fs \<Rightarrow> (int, nat) res option \<times> 'd adb_fs" where
  "acquire_round E ino path init s0 =
     (case copy_entry E ino s0 of (c, s) \<Rightarrow>
        if lc_poisoned (copy_at s c) then (Some Panicked, s)
        else if lc_evicted (copy_at s c) then (None, s)
        else case populate E c path init s of
          (Err e, s) \<Rightarrow>
            (Some (Err e),
             if lc_refs (copy_at s c) = 0
             then forget_copy ino c (set_copy c ((copy_at s c)\<lparr>lc_evicted := True\<rparr>) s)
             else s)
        | (Panicked, s) \<Rightarrow> (Some Panicked, set_copy c ((copy_at s c)\<lparr>lc_poisoned := True\<rparr>) s)
        | (Ok _, s) \<Rightarrow>
            (Some (Ok c),
             set_copy c ((copy_at s c)\<lparr>lc_pulled := True, lc_refs := lc_refs (copy_at s c) + 1\<rparr>) s))"

text \<open>
  The loop, with a bound on its rounds. With one request at a time nobody can take an evicted
  copy out of the map, so the loop would not end on one; no reachable state has one, and the
  first round decides (\<open>acquire_copy_round\<close> below).
\<close>

fun acquire_loop ::
  "nat \<Rightarrow> 'd fs_env \<Rightarrow> u64 \<Rightarrow> string \<Rightarrow> copy_init \<Rightarrow> ('d, int, nat) fs_op" where
  "acquire_loop 0 E ino path init s = (Panicked, s)"
| "acquire_loop (Suc n) E ino path init s =
     (case acquire_round E ino path init s of
        (Some r, s) \<Rightarrow> (r, s)
      | (None, s) \<Rightarrow> acquire_loop n E ino path init s)"

definition acquire_copy :: "'d fs_env \<Rightarrow> u64 \<Rightarrow> string \<Rightarrow> copy_init \<Rightarrow> ('d, int, nat) fs_op" where
  "acquire_copy E ino path init s = acquire_loop 2 E ino path init s"

text \<open>Counting down from zero is an overflow, which panics.\<close>

definition release_copy :: "u64 \<Rightarrow> nat \<Rightarrow> ('d, int, unit) fs_op" where
  "release_copy ino c s =
     (let k = copy_at s c in
      if lc_poisoned k then (Panicked, s)
      else if lc_refs k = 0 then (Panicked, set_copy c (k\<lparr>lc_poisoned := True\<rparr>) s)
      else
        let k = k\<lparr>lc_refs := lc_refs k - 1\<rparr> in
        if lc_refs k = 0 then
          (case on_host_fs (host_remove (lc_path k)) (set_copy c (k\<lparr>lc_evicted := True\<rparr>) s) of
             (r, s) \<Rightarrow> (Ok (), forget_copy ino c s))
        else (Ok (), set_copy c k s))"

definition push_if_dirty :: "'d fs_env \<Rightarrow> u64 \<Rightarrow> nat \<Rightarrow> ('d, int, unit) fs_op" where
  "push_if_dirty E ino c s =
     (if \<not> lc_dirty (copy_at s c) then (Ok (), s)
      else
        let s = mark_dirty c False s in
        case ino_path ino s of
          None \<Rightarrow> (Err ENOENT, mark_dirty c True s)
        | Some path \<Rightarrow>
            (case push_and_sync E (lc_path (copy_at s c)) path s of
               (Err e, s) \<Rightarrow> (Err (device_err e), mark_dirty c True s)
             | (Panicked, s) \<Rightarrow> (Panicked, s)
             | (Ok _, s) \<Rightarrow> (Ok (), invalidate path s)))"

end
