(* ===== verification/Requests.thy ===== *)
theory Requests
  imports FsState
begin

text \<open>
  The requests of the kernel: \<open>impl Filesystem for AdbFs\<close> in \<open>src/src/fs.rs\<close>, one definition
  per method, with every reply a value. A method that replies with an error and returns is an
  \<open>Err\<close>; a method that panics sends no reply of its own. The arguments the methods ignore
  (their names start with an underscore in the code) are left out.
\<close>

subsection \<open>Replies\<close>

type_synonym dirent = "u64 \<times> u64 \<times> file_type \<times> string"

datatype reply =
    ReplyError int
  | ReplyAttr nat file_attr
  | ReplyEntry nat file_attr u64
  | ReplyOpened u64 fopen_flags
  | ReplyDirectory "dirent list"
  | ReplyOk
  | ReplyData string
  | ReplyWritten u32
  | ReplyCreated nat file_attr u64 u64 fopen_flags
  | NoReply

definition answer :: "(int, reply) res \<times> 's \<Rightarrow> reply \<times> 's" where
  "answer r = (case r of
     (Ok x, s) \<Rightarrow> (x, s) | (Err e, s) \<Rightarrow> (ReplyError e, s) | (Panicked, s) \<Rightarrow> (NoReply, s))"

lemma answer_simps [simp, outcome_simps]:
  "answer (Ok x, s) = (x, s)" "answer (Err e, s) = (ReplyError e, s)"
  "answer (Panicked, s) = (NoReply, s)"
  by (simp_all add: answer_def)

text \<open>The start of most methods: the path of an inode, or \<open>ENOENT\<close>.\<close>

definition with_path :: "u64 \<Rightarrow> (string \<Rightarrow> ('d, int, 'a) fs_op) \<Rightarrow> ('d, int, 'a) fs_op" where
  "with_path ino k s = (case ino_path ino s of None \<Rightarrow> (Err ENOENT, s) | Some p \<Rightarrow> k p s)"

text \<open>A device operation whose failure is the reply.\<close>

definition on_device :: "('d world \<Rightarrow> (device_error, 'a) res \<times> 'd world) \<Rightarrow> ('d, int, 'a) fs_op" where
  "on_device f s = map_err_res device_err (on_world f s)"

text \<open>The end of \<open>mkdir\<close> and \<open>mknod\<close>: look the new entry up, remember it, reply with it.\<close>

definition reply_new_entry :: "'d fs_env \<Rightarrow> string \<Rightarrow> ('d, int, reply) fs_op" where
  "reply_new_entry E full_path s =
     try_res (on_device (get_metadata (e_ops E) full_path) s) (\<lambda>meta s.
       case assign_ino full_path s of (ino, s) \<Rightarrow>
         (Ok (ReplyEntry (entry_timeout (e_opts E)) (meta_to_attr (e_opts E) ino meta) 0),
          remember E full_path (Some meta) s))"

subsection \<open>Metadata\<close>

definition fs_getattr :: "'d fs_env \<Rightarrow> u64 \<Rightarrow> 'd adb_fs \<Rightarrow> reply \<times> 'd adb_fs" where
  "fs_getattr E ino s = answer (with_path ino (\<lambda>path s.
     try_res (map_err_res device_err (fetch_meta E path s)) (\<lambda>meta s.
       (Ok (ReplyAttr (attr_timeout (e_opts E)) (meta_to_attr (e_opts E) ino meta)), s))) s)"

definition fs_lookup :: "'d fs_env \<Rightarrow> u64 \<Rightarrow> string \<Rightarrow> 'd adb_fs \<Rightarrow> reply \<times> 'd adb_fs" where
  "fs_lookup E parent name s = answer (with_path parent (\<lambda>parent_path s.
     let full_path = child_path parent_path name in
     case fetch_meta E full_path s of
       (Ok meta, s) \<Rightarrow>
         (case assign_ino full_path s of (ino, s) \<Rightarrow>
           (Ok (ReplyEntry (entry_timeout (e_opts E)) (meta_to_attr (e_opts E) ino meta) 0), s))
     | (Err e, s) \<Rightarrow>
         (if (case e of NotFound _ \<Rightarrow> True | _ \<Rightarrow> False) \<and> negative_timeout (e_opts E) \<noteq> 0
          then (Ok (ReplyEntry (negative_timeout (e_opts E)) NEGATIVE_ENTRY 0), s)
          else (Err (device_err e), s))
     | (Panicked, s) \<Rightarrow> (Panicked, s)) s)"

definition fs_readlink :: "'d fs_env \<Rightarrow> u64 \<Rightarrow> 'd adb_fs \<Rightarrow> reply \<times> 'd adb_fs" where
  "fs_readlink E ino s = answer (with_path ino (\<lambda>path s.
     try_res (map_err_res device_err (fetch_meta E path s)) (\<lambda>meta s.
       try_res (map_err_res device_err (resolve_symlink path (m_raw_line meta), s)) (\<lambda>target s.
         (Ok (ReplyData target), s)))) s)"

definition fs_access :: "'d fs_env \<Rightarrow> u64 \<Rightarrow> 'd adb_fs \<Rightarrow> reply \<times> 'd adb_fs" where
  "fs_access E ino s = (ReplyOk, s)"

subsection \<open>Directories\<close>

text \<open>The loop of \<open>opendir\<close>: every entry gets its inode, metadata that came with it is kept.\<close>

fun opendir_loop ::
  "'d fs_env \<Rightarrow> string \<Rightarrow> (string \<times> file_meta option) list \<Rightarrow> dir_entry list \<Rightarrow> 'd adb_fs
    \<Rightarrow> dir_entry list \<times> 'd adb_fs" where
  "opendir_loop E path [] full_entries s = (full_entries, s)"
| "opendir_loop E path ((name, meta) # es) full_entries s =
     (if name = ''.'' \<or> name = ''..'' then opendir_loop E path es full_entries s
      else
        let cpath = child_path path name in
        case assign_ino cpath s of (child_ino, s) \<Rightarrow>
          opendir_loop E path es
            (full_entries @
               [(child_ino, (case meta of Some m \<Rightarrow> mode_to_filetype (m_mode m) | None \<Rightarrow> RegularFile), name)])
            (case meta of Some m \<Rightarrow> remember E cpath (Some m) s | None \<Rightarrow> s))"

definition fs_opendir :: "'d fs_env \<Rightarrow> u64 \<Rightarrow> 'd adb_fs \<Rightarrow> reply \<times> 'd adb_fs" where
  "fs_opendir E ino s = answer (with_path ino (\<lambda>path s.
     try_res (on_device (list_dir (e_ops E) path) s) (\<lambda>es s.
       case opendir_loop E path es [(ino, Directory, ''.''), (ino, Directory, ''..'')] s of
         (full_entries, s) \<Rightarrow>
           let fh = next_fh s in
           (Ok (ReplyOpened fh no_flags),
            s\<lparr>next_fh := fh + 1, open_dirs := (open_dirs s)(fh \<mapsto> full_entries)\<rparr>))) s)"

text \<open>
  The loop of \<open>readdir\<close>. \<open>full acc d\<close> is \<open>ReplyDirectory::add\<close> of fuser: whether the reply
  buffer has no room for \<open>d\<close> after the entries \<open>acc\<close>; then \<open>d\<close> is not added.
\<close>

fun add_entries ::
  "(dirent list \<Rightarrow> dirent \<Rightarrow> bool) \<Rightarrow> nat \<Rightarrow> dir_entry list \<Rightarrow> dirent list \<Rightarrow> dirent list" where
  "add_entries full i [] acc = acc"
| "add_entries full i ((child_ino, ft, name) # es) acc =
     (let d = (child_ino, of_nat (i + 1), ft, name)
      in if full acc d then acc else add_entries full (i + 1) es (acc @ [d]))"

definition fs_readdir ::
  "(dirent list \<Rightarrow> dirent \<Rightarrow> bool) \<Rightarrow> u64 \<Rightarrow> u64 \<Rightarrow> 'd adb_fs \<Rightarrow> reply \<times> 'd adb_fs" where
  "fs_readdir full fh offset s =
     (case open_dirs s fh of
        None \<Rightarrow> (ReplyError EBADF, s)
      | Some dir \<Rightarrow>
          (ReplyDirectory (add_entries full (unat offset) (drop (unat offset) dir) []), s))"

definition fs_releasedir :: "u64 \<Rightarrow> 'd adb_fs \<Rightarrow> reply \<times> 'd adb_fs" where
  "fs_releasedir fh s = (ReplyOk, s\<lparr>open_dirs := (open_dirs s)(fh := None)\<rparr>)"

subsection \<open>Open files\<close>

text \<open>A fresh handle on a copy.\<close>

definition insert_handle :: "u64 \<Rightarrow> nat \<Rightarrow> nat \<Rightarrow> 'd adb_fs \<Rightarrow> u64 \<times> 'd adb_fs" where
  "insert_handle ino c f s =
     (let fh = next_fh s in
      (fh, s\<lparr>next_fh := fh + 1,
             open_files := (open_files s)(fh \<mapsto> \<lparr>of_ino = ino, of_copy = c, of_file = f\<rparr>)\<rparr>))"

definition fs_open :: "'d fs_env \<Rightarrow> u64 \<Rightarrow> 'd adb_fs \<Rightarrow> reply \<times> 'd adb_fs" where
  "fs_open E ino s = answer (with_path ino (\<lambda>path s.
     try_res (acquire_copy E ino path PullInit s) (\<lambda>c s.
       case on_host_fs (host_open (lc_path (copy_at s c))) s of
         (Ok f, s) \<Rightarrow>
           (case insert_handle ino c f s of (fh, s) \<Rightarrow>
             (Ok (ReplyOpened fh (file_open_flags (e_opts E))), s))
       | (Err e, s) \<Rightarrow> try_res (release_copy ino c s) (\<lambda>_ s. (Err e, s))
       | (Panicked, s) \<Rightarrow> (Panicked, s))) s)"

definition fs_read :: "u64 \<Rightarrow> u64 \<Rightarrow> u32 \<Rightarrow> 'd adb_fs \<Rightarrow> reply \<times> 'd adb_fs" where
  "fs_read fh offset sz s =
     (case open_files s fh of
        None \<Rightarrow> (ReplyError EBADF, s)
      | Some f \<Rightarrow> answer (try_res (on_host_fs (host_read_at (of_file f) offset (unat sz)) s)
          (\<lambda>bytes s. (Ok (ReplyData bytes), s))))"

definition fs_write :: "u64 \<Rightarrow> u64 \<Rightarrow> string \<Rightarrow> 'd adb_fs \<Rightarrow> reply \<times> 'd adb_fs" where
  "fs_write fh offset data s =
     (case open_files s fh of
        None \<Rightarrow> (ReplyError EBADF, s)
      | Some f \<Rightarrow> answer (try_res (on_host_fs (host_write_at (of_file f) offset data) s)
          (\<lambda>n s. (Ok (ReplyWritten (of_nat n)), mark_dirty (of_copy f) True s))))"

definition fs_flush :: "'d fs_env \<Rightarrow> u64 \<Rightarrow> 'd adb_fs \<Rightarrow> reply \<times> 'd adb_fs" where
  "fs_flush E fh s =
     (case open_files s fh of
        None \<Rightarrow> (ReplyError EBADF, s)
      | Some f \<Rightarrow> answer (try_res (push_if_dirty E (of_ino f) (of_copy f) s) (\<lambda>_ s. (Ok ReplyOk, s))))"

definition fs_release :: "u64 \<Rightarrow> 'd adb_fs \<Rightarrow> reply \<times> 'd adb_fs" where
  "fs_release fh s =
     (case open_files s fh of
        None \<Rightarrow> (ReplyOk, s)
      | Some f \<Rightarrow> answer (try_res
          (release_copy (of_ino f) (of_copy f) (s\<lparr>open_files := (open_files s)(fh := None)\<rparr>))
          (\<lambda>_ s. (Ok ReplyOk, s))))"

subsection \<open>Changes of the tree\<close>

definition fs_mkdir :: "'d fs_env \<Rightarrow> u64 \<Rightarrow> string \<Rightarrow> 'd adb_fs \<Rightarrow> reply \<times> 'd adb_fs" where
  "fs_mkdir E parent name s = answer (with_path parent (\<lambda>parent_path s.
     let full_path = child_path parent_path name in
     try_res (on_device (dev_mkdir (e_ops E) full_path) s) (\<lambda>_ s.
       reply_new_entry E full_path (invalidate full_path s))) s)"

definition fs_unlink :: "'d fs_env \<Rightarrow> u64 \<Rightarrow> string \<Rightarrow> 'd adb_fs \<Rightarrow> reply \<times> 'd adb_fs" where
  "fs_unlink E parent name s = answer (with_path parent (\<lambda>parent_path s.
     let full_path = child_path parent_path name in
     try_res (on_device (dev_rm (e_ops E) full_path) s) (\<lambda>_ s.
       (Ok ReplyOk, invalidate full_path s))) s)"

definition fs_rmdir :: "'d fs_env \<Rightarrow> u64 \<Rightarrow> string \<Rightarrow> 'd adb_fs \<Rightarrow> reply \<times> 'd adb_fs" where
  "fs_rmdir E parent name s = answer (with_path parent (\<lambda>parent_path s.
     let full_path = child_path parent_path name in
     try_res (on_device (dev_rmdir (e_ops E) full_path) s) (\<lambda>_ s.
       (Ok ReplyOk, upd_cache (cache_invalidate_prefix full_path) s))) s)"

definition fs_rename ::
  "'d fs_env \<Rightarrow> u64 \<Rightarrow> string \<Rightarrow> u64 \<Rightarrow> string \<Rightarrow> 'd adb_fs \<Rightarrow> reply \<times> 'd adb_fs" where
  "fs_rename E parent name newparent newname s =
     (let from = map_option (\<lambda>p. child_path p name) (ino_path parent s);
          to = map_option (\<lambda>p. child_path p newname) (ino_path newparent s)
      in answer (case (from, to) of
        (Some from, Some to) \<Rightarrow>
          try_res (on_device (dev_mv (e_ops E) from to) s) (\<lambda>_ s.
            let s = s\<lparr>inodes := rekey_paths (e_iter E (path_to_ino (inodes s))) from to (inodes s)\<rparr>
            in (Ok ReplyOk,
                upd_cache (cache_invalidate_prefix to) (upd_cache (cache_invalidate_prefix from) s)))
      | _ \<Rightarrow> (Err ENOENT, s)))"

subsection \<open>setattr\<close>

datatype time_or_now = SpecificTime int | Now

definition resolve_time :: "'d fs_env \<Rightarrow> 'd adb_fs \<Rightarrow> time_or_now \<Rightarrow> int" where
  "resolve_time E s t = (case t of SpecificTime st \<Rightarrow> st | Now \<Rightarrow> e_system_now E (fs_world s))"

text \<open>The value of \<open>truncated\<close>: open for writing, set the length, mark, push.\<close>

definition truncate_and_push :: "'d fs_env \<Rightarrow> u64 \<Rightarrow> nat \<Rightarrow> u64 \<Rightarrow> ('d, int, unit) fs_op" where
  "truncate_and_push E ino c new_size s =
     try_res (on_host_fs (host_open (lc_path (copy_at s c))) s) (\<lambda>f s.
       try_res (on_host_fs (host_set_len f new_size) s) (\<lambda>_ s.
         push_if_dirty E ino c (mark_dirty c True s)))"

text \<open>The reference on the copy is released whether the truncation succeeds or not.\<close>

definition truncate_file :: "'d fs_env \<Rightarrow> u64 \<Rightarrow> string \<Rightarrow> u64 \<Rightarrow> ('d, int, unit) fs_op" where
  "truncate_file E ino path new_size s =
     (let init = (if new_size = 0 then EmptyInit else PullInit) in
      try_res (acquire_copy E ino path init s) (\<lambda>c s.
        case truncate_and_push E ino c new_size s of
          (Panicked, s) \<Rightarrow> (Panicked, s)
        | (Ok _, s) \<Rightarrow> release_copy ino c s
        | (Err e, s) \<Rightarrow> try_res (release_copy ino c s) (\<lambda>_ s. (Err e, s))))"

text \<open>\<open>touch\<close> keeps its mode in the file system's state.\<close>

definition fs_touch :: "'d fs_env \<Rightarrow> string \<Rightarrow> int option \<Rightarrow> int option \<Rightarrow> ('d, int, unit) fs_op" where
  "fs_touch E path a m s =
     (case dev_touch (e_ops E) path a m (touch_gnu_mode s, fs_world s) of
        (r, g, w) \<Rightarrow> map_err_res device_err (r, s\<lparr>touch_gnu_mode := g, fs_world := w\<rparr>))"

definition fs_setattr ::
  "'d fs_env \<Rightarrow> u64 \<Rightarrow> u64 option \<Rightarrow> time_or_now option \<Rightarrow> time_or_now option \<Rightarrow> 'd adb_fs
    \<Rightarrow> reply \<times> 'd adb_fs" where
  "fs_setattr E ino sz atime mt s = answer (with_path ino (\<lambda>path s.
     try_res (case sz of Some n \<Rightarrow> truncate_file E ino path n s | None \<Rightarrow> (Ok (), s)) (\<lambda>_ s.
       let a = map_option (resolve_time E s) atime;
           m = map_option (resolve_time E s) mt
       in try_res
         (if a \<noteq> None \<or> m \<noteq> None
          then try_res (fs_touch E path a m s) (\<lambda>_ s. (Ok (), invalidate path s))
          else (Ok (), s)) (\<lambda>_ s.
            try_res (on_device (get_metadata (e_ops E) path) s) (\<lambda>meta s.
              (Ok (ReplyAttr (attr_timeout (e_opts E)) (meta_to_attr (e_opts E) ino meta)),
               remember E path (Some meta) s))))) s)"

subsection \<open>New files\<close>

text \<open>The value of \<open>opened\<close> in \<open>create\<close>.\<close>

definition create_opened :: "'d fs_env \<Rightarrow> u64 \<Rightarrow> nat \<Rightarrow> string \<Rightarrow> ('d, int, nat \<times> file_meta) fs_op" where
  "create_opened E ino c full_path s =
     try_res (on_host_fs (host_open (lc_path (copy_at s c))) s) (\<lambda>f s.
       try_res (push_if_dirty E ino c s) (\<lambda>_ s.
         try_res (on_device (get_metadata (e_ops E) full_path) s) (\<lambda>meta s. (Ok (f, meta), s))))"

definition fs_create :: "'d fs_env \<Rightarrow> u64 \<Rightarrow> string \<Rightarrow> 'd adb_fs \<Rightarrow> reply \<times> 'd adb_fs" where
  "fs_create E parent name s = answer (with_path parent (\<lambda>parent_path s.
     let full_path = child_path parent_path name in
     case assign_ino full_path s of (ino, s) \<Rightarrow>
       try_res (acquire_copy E ino full_path EmptyInit s) (\<lambda>c s.
         case create_opened E ino c full_path s of
           (Panicked, s) \<Rightarrow> (Panicked, s)
         | (Err e, s) \<Rightarrow> try_res (release_copy ino c s) (\<lambda>_ s. (Err e, s))
         | (Ok (f, meta), s) \<Rightarrow>
             (case insert_handle ino c f (remember E full_path (Some meta) s) of (fh, s) \<Rightarrow>
               (Ok (ReplyCreated (entry_timeout (e_opts E)) (meta_to_attr (e_opts E) ino meta) 0 fh
                     (file_open_flags (e_opts E))), s)))) s)"

text \<open>The scratch directory goes when it is dropped, on every way out.\<close>

definition drop_scratch :: "'d fs_env \<Rightarrow> string \<Rightarrow> 'd adb_fs \<Rightarrow> 'd adb_fs" where
  "drop_scratch E scratch s = s\<lparr>fs_world := e_tempdir_drop E scratch (fs_world s)\<rparr>"

definition fs_mknod :: "'d fs_env \<Rightarrow> u64 \<Rightarrow> string \<Rightarrow> 'd adb_fs \<Rightarrow> reply \<times> 'd adb_fs" where
  "fs_mknod E parent name s = answer (with_path parent (\<lambda>parent_path s.
     let full_path = child_path parent_path name in
     try_res (on_world (e_tempdir_in E (e_tmp_dir E)) s) (\<lambda>scratch s.
       let local_path = path_join scratch ''node'';
           c_path = utf8_lossy local_path
       in if CHR 0x00 \<in> set c_path then (Err EINVAL, drop_scratch E scratch s)
       else case on_host_fs (host_mknod c_path) s of
         (Err e, s) \<Rightarrow> (Err e, drop_scratch E scratch s)
       | (Panicked, s) \<Rightarrow> (Panicked, drop_scratch E scratch s)
       | (Ok _, s) \<Rightarrow>
           (case map_err_res device_err (push_and_sync E local_path full_path s) of
              (Err e, s) \<Rightarrow> (Err e, drop_scratch E scratch s)
            | (Panicked, s) \<Rightarrow> (Panicked, drop_scratch E scratch s)
            | (Ok _, s) \<Rightarrow>
                reply_new_entry E full_path (drop_scratch E scratch (invalidate full_path s))))) s)"

subsection \<open>All requests\<close>

datatype request =
    Getattr u64
  | Lookup u64 string
  | Opendir u64
  | Readdir u64 u64
  | Releasedir u64
  | Open u64
  | Read u64 u64 u32
  | Write u64 u64 string
  | Flush u64
  | Release u64
  | Access u64
  | Mkdir u64 string
  | Unlink u64 string
  | Rmdir u64 string
  | Rename u64 string u64 string
  | Setattr u64 "u64 option" "time_or_now option" "time_or_now option"
  | Readlink u64
  | Create u64 string
  | Mknod u64 string

text \<open>What fuser does with a request: it calls the method of its name.\<close>

fun serve ::
  "(dirent list \<Rightarrow> dirent \<Rightarrow> bool) \<Rightarrow> 'd fs_env \<Rightarrow> request \<Rightarrow> 'd adb_fs \<Rightarrow> reply \<times> 'd adb_fs" where
  "serve full E (Getattr ino) s = fs_getattr E ino s"
| "serve full E (Lookup parent name) s = fs_lookup E parent name s"
| "serve full E (Opendir ino) s = fs_opendir E ino s"
| "serve full E (Readdir fh offset) s = fs_readdir full fh offset s"
| "serve full E (Releasedir fh) s = fs_releasedir fh s"
| "serve full E (Open ino) s = fs_open E ino s"
| "serve full E (Read fh offset sz) s = fs_read fh offset sz s"
| "serve full E (Write fh offset data) s = fs_write fh offset data s"
| "serve full E (Flush fh) s = fs_flush E fh s"
| "serve full E (Release fh) s = fs_release fh s"
| "serve full E (Access ino) s = fs_access E ino s"
| "serve full E (Mkdir parent name) s = fs_mkdir E parent name s"
| "serve full E (Unlink parent name) s = fs_unlink E parent name s"
| "serve full E (Rmdir parent name) s = fs_rmdir E parent name s"
| "serve full E (Rename parent name newparent newname) s = fs_rename E parent name newparent newname s"
| "serve full E (Setattr ino sz a m) s = fs_setattr E ino sz a m s"
| "serve full E (Readlink ino) s = fs_readlink E ino s"
| "serve full E (Create parent name) s = fs_create E parent name s"
| "serve full E (Mknod parent name) s = fs_mknod E parent name s"

end
