(* ===== verification/FsInvariant.thy ===== *)
theory FsInvariant
  imports Requests
begin

text \<open>
  The invariant of the file system's state, and its preservation by every request: the inode
  table is a bijection, every open handle has its copy in the map of copies, and the count of
  references of a copy is the number of its handles. While a request holds a reference that
  no handle has yet, the copy is \<open>held\<close>.
\<close>

subsection \<open>Names of local copies\<close>

lemma path_join_inj: "path_join d a = path_join d b \<longleftrightarrow> a = b"
  by (simp add: path_join_def)

lemma local_path_inj: "local_path_for E i = local_path_for E j \<longleftrightarrow> i = j"
proof
  assume "local_path_for E i = local_path_for E j"
  then have "show_nat (unat i) = show_nat (unat j)" by (simp add: local_path_for_def path_join_inj)
  then have "unat i = unat j" by (rule show_nat_inj)
  then show "i = j" by (simp add: word_unat_eq_iff)
qed simp

subsection \<open>The invariant\<close>

definition handles :: "'d adb_fs \<Rightarrow> nat \<Rightarrow> u64 set" where
  "handles s c = {fh. \<exists>f. open_files s fh = Some f \<and> of_copy f = c}"

definition holds :: "(u64 \<times> nat) option \<Rightarrow> nat \<Rightarrow> nat" where
  "holds held c = (case held of Some (i, d) \<Rightarrow> if d = c then 1 else 0 | None \<Rightarrow> 0)"

text \<open>A copy in use: named after its inode, populated, its lock sound, every reference counted.\<close>

definition copy_ok :: "'d fs_env \<Rightarrow> u64 \<Rightarrow> nat \<Rightarrow> local_copy \<Rightarrow> bool" where
  "copy_ok E i n k = (lc_path k = local_path_for E i \<and> lc_pulled k \<and> \<not> lc_evicted k
    \<and> \<not> lc_poisoned k \<and> lc_refs k = n \<and> 0 < n)"

definition copies_ok :: "'d fs_env \<Rightarrow> (u64 \<times> nat) option \<Rightarrow> 'd adb_fs \<Rightarrow> bool" where
  "copies_ok E held s =
     (finite (dom (open_files s))
      \<and> (\<forall>fh f. open_files s fh = Some f \<longrightarrow> open_copies s (of_ino f) = Some (of_copy f))
      \<and> (\<forall>i c. held = Some (i, c) \<longrightarrow> open_copies s i = Some c)
      \<and> (\<forall>i c. open_copies s i = Some c \<longrightarrow> c < next_copy s
           \<and> copy_ok E i (card (handles s c) + holds held c) (copy_at s c)))"

definition handles_fresh :: "'d adb_fs \<Rightarrow> bool" where
  "handles_fresh s = ((\<forall>fh f. open_files s fh = Some f \<longrightarrow> fh < next_fh s)
    \<and> (\<forall>fh d. open_dirs s fh = Some d \<longrightarrow> fh < next_fh s))"

definition fs_ok :: "'d fs_env \<Rightarrow> 'd adb_fs \<Rightarrow> bool" where
  "fs_ok E s = (ino_table_ok (inodes s) \<and> copies_ok E None s \<and> handles_fresh s)"

lemma copies_okD:
  assumes "copies_ok E held s"
  shows "finite (dom (open_files s))"
    and "open_files s fh = Some f \<Longrightarrow> open_copies s (of_ino f) = Some (of_copy f)"
    and "held = Some (i, c) \<Longrightarrow> open_copies s i = Some c"
    and "open_copies s i = Some c \<Longrightarrow> c < next_copy s"
    and "open_copies s i = Some c \<Longrightarrow> copy_ok E i (card (handles s c) + holds held c) (copy_at s c)"
  using assms by (auto simp: copies_ok_def)

lemma open_copies_inj:
  assumes "copies_ok E held s" "open_copies s i = Some c" "open_copies s j = Some c"
  shows "i = j"
  using copies_okD(5)[OF assms(1,2)] copies_okD(5)[OF assms(1,3)] local_path_inj[of E i j]
  by (simp add: copy_ok_def)

lemma finite_handles: "copies_ok E held s \<Longrightarrow> finite (handles s c)"
  by (rule finite_subset[of _ "dom (open_files s)"]) (auto simp: handles_def copies_ok_def)

subsection \<open>What a step leaves alone\<close>

lemma on_world_sel [simp]:
  "fs_cache (snd (on_world f s)) = fs_cache s" "open_files (snd (on_world f s)) = open_files s"
  "open_copies (snd (on_world f s)) = open_copies s" "copy_at (snd (on_world f s)) = copy_at s"
  "next_copy (snd (on_world f s)) = next_copy s" "open_dirs (snd (on_world f s)) = open_dirs s"
  "next_fh (snd (on_world f s)) = next_fh s" "inodes (snd (on_world f s)) = inodes s"
  "touch_gnu_mode (snd (on_world f s)) = touch_gnu_mode s"
  by (simp_all add: on_world_def split: prod.splits)

lemma upd_cache_sel [simp]:
  "open_files (upd_cache g s) = open_files s" "open_copies (upd_cache g s) = open_copies s"
  "copy_at (upd_cache g s) = copy_at s" "next_copy (upd_cache g s) = next_copy s"
  "open_dirs (upd_cache g s) = open_dirs s" "next_fh (upd_cache g s) = next_fh s"
  "inodes (upd_cache g s) = inodes s" "touch_gnu_mode (upd_cache g s) = touch_gnu_mode s"
  "fs_world (upd_cache g s) = fs_world s" "fs_cache (upd_cache g s) = g (fs_cache s)"
  by (simp_all add: upd_cache_def)

lemma set_copy_sel [simp]:
  "fs_cache (set_copy c k s) = fs_cache s" "open_files (set_copy c k s) = open_files s"
  "open_copies (set_copy c k s) = open_copies s" "next_copy (set_copy c k s) = next_copy s"
  "copy_at (set_copy c k s) = (copy_at s)(c := k)"
  "open_dirs (set_copy c k s) = open_dirs s" "next_fh (set_copy c k s) = next_fh s"
  "inodes (set_copy c k s) = inodes s" "touch_gnu_mode (set_copy c k s) = touch_gnu_mode s"
  "fs_world (set_copy c k s) = fs_world s"
  by (simp_all add: set_copy_def)

lemma handles_cong: "open_files s' = open_files s \<Longrightarrow> handles s' = handles s"
  by (simp add: handles_def fun_eq_iff)

text \<open>Only the fields named here matter to the copies, and of a copy not the dirty mark.\<close>

lemma copies_ok_cong:
  assumes "copies_ok E held s" and "open_files s' = open_files s" and "open_copies s' = open_copies s"
    and "next_copy s' = next_copy s"
    and "\<And>c. (copy_at s' c)\<lparr>lc_dirty := False\<rparr> = (copy_at s c)\<lparr>lc_dirty := False\<rparr>"
  shows "copies_ok E held s'"
proof -
  have "copy_ok E i n (copy_at s' c) = copy_ok E i n (copy_at s c)" for i n c
    using arg_cong[OF assms(5)[of c], of lc_path] arg_cong[OF assms(5)[of c], of lc_pulled]
      arg_cong[OF assms(5)[of c], of lc_evicted] arg_cong[OF assms(5)[of c], of lc_poisoned]
      arg_cong[OF assms(5)[of c], of lc_refs]
    by (simp add: copy_ok_def)
  then show ?thesis using assms(1-4) handles_cong[OF assms(2)] by (simp add: copies_ok_def)
qed

lemma copies_ok_mark_dirty: "copies_ok E held s \<Longrightarrow> copies_ok E held (mark_dirty c b s)"
  by (erule copies_ok_cong) (simp_all add: mark_dirty_def)

text \<open>Steps that touch neither the inodes nor the handles nor the copies.\<close>

definition same_core :: "'d adb_fs \<Rightarrow> 'd adb_fs \<Rightarrow> bool" where
  "same_core s s' = (inodes s' = inodes s \<and> open_files s' = open_files s \<and> open_copies s' = open_copies s
    \<and> next_copy s' = next_copy s \<and> open_dirs s' = open_dirs s \<and> next_fh s' = next_fh s
    \<and> (\<forall>c. (copy_at s' c)\<lparr>lc_dirty := False\<rparr> = (copy_at s c)\<lparr>lc_dirty := False\<rparr>))"

lemma same_core_refl [simp, intro]: "same_core s s"
  by (simp add: same_core_def)

lemma same_core_trans: "same_core s s' \<Longrightarrow> same_core s' s'' \<Longrightarrow> same_core s s''"
  by (simp add: same_core_def)

lemma same_core_copies: "same_core s s' \<Longrightarrow> copies_ok E held s \<Longrightarrow> copies_ok E held s'"
  by (rule copies_ok_cong) (auto simp: same_core_def)

lemma same_core_ok: "same_core s s' \<Longrightarrow> fs_ok E s \<Longrightarrow> fs_ok E s'"
  using same_core_copies[of s s' E None]
  by (auto simp: fs_ok_def same_core_def handles_fresh_def)

named_theorems core_intro \<open>steps that leave the core of the state alone\<close>

lemma same_core_on_world [core_intro, simp]: "same_core s (snd (on_world f s))"
  by (simp add: same_core_def)

lemma same_core_upd_cache [core_intro, simp]: "same_core s (upd_cache g s)"
  by (simp add: same_core_def)

lemma same_core_mark_dirty [core_intro, simp]: "same_core s (mark_dirty c b s)"
  by (simp add: same_core_def mark_dirty_def)

lemma same_core_gnu [core_intro, simp]: "same_core s (s\<lparr>touch_gnu_mode := g, fs_world := w\<rparr>)"
  "same_core s (s\<lparr>fs_world := w\<rparr>)" "same_core s (s\<lparr>fs_cache := k\<rparr>)"
  by (simp_all add: same_core_def)

lemma core_cache_step [core_intro, simp]:
  "same_core s (invalidate p s)" "same_core s (remember E p m s)"
  by (simp_all add: invalidate_def remember_def)

lemma core_after_try:
  assumes "same_core s (snd r)" and "\<And>a s'. r = (Ok a, s') \<Longrightarrow> same_core s s' \<Longrightarrow> same_core s (snd (k a s'))"
  shows "same_core s (snd (try_res r k))"
  using assms by (cases r; cases "fst r") auto

lemma core_world_step: "on_world f s = (r, s') \<Longrightarrow> same_core s s'"
  by (metis same_core_on_world snd_conv)

lemma core_push_and_sync [core_intro, simp]: "same_core s (snd (push_and_sync E l p s))"
  unfolding push_and_sync_def
  by (rule core_after_try) (simp_all add: same_core_trans[OF _ same_core_on_world])

lemma core_fetch_meta [core_intro, simp]: "same_core s (snd (fetch_meta E p s))"
proof -
  obtain hit c where h: "cache_get p (e_instant_now E (fs_world s)) (fs_cache s) = (hit, c)"
    by (cases "cache_get p (e_instant_now E (fs_world s)) (fs_cache s)")
  let ?s = "s\<lparr>fs_cache := c\<rparr>"
  obtain r s' where w: "on_world (get_metadata (e_ops E) p) ?s = (r, s')"
    by (cases "on_world (get_metadata (e_ops E) p) ?s")
  have c: "same_core s s'" by (rule same_core_trans[OF same_core_gnu(3) core_world_step[OF w]])
  then have "same_core s (remember E p m s')" for m
    by (rule same_core_trans) (rule core_cache_step)
  with c show ?thesis
    by (simp add: fetch_meta_def h w Let_def split: option.splits res.splits device_error.splits)
qed

lemma core_push_if_dirty [core_intro, simp]: "same_core s (snd (push_if_dirty E i c s))"
proof -
  let ?s = "mark_dirty c False s"
  have push: "same_core s s'" if "push_and_sync E l p ?s = (r, s')" for l p r s'
    using core_push_and_sync[of ?s E l p] that same_core_trans[OF same_core_mark_dirty] by fastforce
  then have "same_core s (mark_dirty c True s')" "same_core s (invalidate q s')"
    if "push_and_sync E l p ?s = (r, s')" for l p r s' q
    using that same_core_trans[OF push same_core_mark_dirty] same_core_trans[OF push core_cache_step(1)]
    by blast+
  moreover have "same_core s (mark_dirty c True ?s)"
    by (rule same_core_trans[OF same_core_mark_dirty same_core_mark_dirty])
  ultimately show ?thesis
    using push by (simp add: push_if_dirty_def Let_def split: prod.splits option.splits res.splits)
qed

subsection \<open>Taking and dropping references\<close>

lemma same_core_copy:
  assumes "same_core s s'"
  shows "lc_refs (copy_at s' c) = lc_refs (copy_at s c)" "lc_path (copy_at s' c) = lc_path (copy_at s c)"
    "lc_pulled (copy_at s' c) = lc_pulled (copy_at s c)" "lc_evicted (copy_at s' c) = lc_evicted (copy_at s c)"
    "lc_poisoned (copy_at s' c) = lc_poisoned (copy_at s c)"
proof -
  have e: "(copy_at s' c)\<lparr>lc_dirty := False\<rparr> = (copy_at s c)\<lparr>lc_dirty := False\<rparr>"
    using assms by (simp add: same_core_def)
  show "lc_refs (copy_at s' c) = lc_refs (copy_at s c)" "lc_path (copy_at s' c) = lc_path (copy_at s c)"
    "lc_pulled (copy_at s' c) = lc_pulled (copy_at s c)" "lc_evicted (copy_at s' c) = lc_evicted (copy_at s c)"
    "lc_poisoned (copy_at s' c) = lc_poisoned (copy_at s c)"
    using arg_cong[OF e, of lc_refs] arg_cong[OF e, of lc_path] arg_cong[OF e, of lc_pulled]
      arg_cong[OF e, of lc_evicted] arg_cong[OF e, of lc_poisoned] by simp_all
qed

lemma handles_sel [simp]:
  "handles (set_copy c k s) = handles s" "handles (snd (on_world f s)) = handles s"
  "handles (upd_cache g s) = handles s"
  by (simp_all add: handles_def fun_eq_iff)

text \<open>The state inside \<open>acquire_copy\<close>, after the entry was looked up or made.\<close>

definition entered :: "'d fs_env \<Rightarrow> u64 \<Rightarrow> nat \<Rightarrow> 'd adb_fs \<Rightarrow> bool" where
  "entered E ino c s =
     (finite (dom (open_files s))
      \<and> (\<forall>fh f. open_files s fh = Some f \<longrightarrow> open_copies s (of_ino f) = Some (of_copy f))
      \<and> open_copies s ino = Some c \<and> c < next_copy s
      \<and> (\<forall>i d. open_copies s i = Some d \<longrightarrow> i \<noteq> ino \<longrightarrow> d \<noteq> c \<and> d < next_copy s
           \<and> copy_ok E i (card (handles s d)) (copy_at s d))
      \<and> lc_path (copy_at s c) = local_path_for E ino \<and> \<not> lc_evicted (copy_at s c)
      \<and> \<not> lc_poisoned (copy_at s c) \<and> lc_refs (copy_at s c) = card (handles s c)
      \<and> (lc_refs (copy_at s c) \<noteq> 0 \<longrightarrow> lc_pulled (copy_at s c)))"

text \<open>The fields of the state that \<open>acquire_copy\<close> and \<open>release_copy\<close> never change.\<close>

definition same_handles :: "'d adb_fs \<Rightarrow> 'd adb_fs \<Rightarrow> bool" where
  "same_handles s s' = (inodes s' = inodes s \<and> open_files s' = open_files s
    \<and> open_dirs s' = open_dirs s \<and> next_fh s' = next_fh s)"

lemma same_handles_refl [simp]: "same_handles s s"
  by (simp add: same_handles_def)

lemma same_handles_trans: "same_handles s s' \<Longrightarrow> same_handles s' s'' \<Longrightarrow> same_handles s s''"
  by (simp add: same_handles_def)

lemma same_core_handles: "same_core s s' \<Longrightarrow> same_handles s s'"
  by (simp add: same_handles_def same_core_def)

lemma handles_empty:
  assumes "copies_ok E held s" "next_copy s \<le> c"
  shows "handles s c = {}"
proof -
  have "of_copy f < next_copy s" if "open_files s fh = Some f" for fh f
    using copies_okD(4)[OF assms(1) copies_okD(2)[OF assms(1) that]] .
  with assms(2) show ?thesis by (fastforce simp: handles_def)
qed

lemma copy_entry_entered:
  assumes "copies_ok E None s" "copy_entry E ino s = (c, s')"
  shows "entered E ino c s'" and "same_handles s s'"
proof -
  have "entered E ino c s' \<and> same_handles s s'"
  proof (cases "open_copies s ino")
    case None
    then have s': "s' = set_copy c (local_copy_new (local_path_for E ino))
        (s\<lparr>next_copy := Suc c, open_copies := (open_copies s)(ino \<mapsto> c)\<rparr>)" and c: "c = next_copy s"
      using assms(2) by (auto simp: copy_entry_def Let_def)
    have h: "handles s' = handles s" by (rule handles_cong) (simp add: s')
    have "handles s c = {}" using handles_empty[OF assms(1)] c by simp
    then show ?thesis
      using assms(1) None c copies_okD(4,5)[OF assms(1)]
      unfolding entered_def h
      by (auto simp: s' copies_ok_def local_copy_new_def same_handles_def holds_def less_Suc_eq)
  next
    case (Some d)
    then have "s' = s" "d = c" using assms(2) by (simp_all add: copy_entry_def)
    moreover have "copy_ok E ino (card (handles s d)) (copy_at s d)"
      using copies_okD(5)[OF assms(1) Some] by (simp add: holds_def)
    ultimately show ?thesis
      using assms(1) Some open_copies_inj[OF assms(1)]
      by (auto simp: entered_def copies_ok_def copy_ok_def holds_def)
  qed
  then show "entered E ino c s'" "same_handles s s'" by auto
qed

lemma entered_core: "same_core s s' \<Longrightarrow> entered E ino c s \<Longrightarrow> entered E ino c s'"
proof -
  assume core: "same_core s s'" and e: "entered E ino c s"
  then have f: "open_files s' = open_files s" "open_copies s' = open_copies s" "next_copy s' = next_copy s"
    by (auto simp: same_core_def)
  have "copy_ok E i n (copy_at s' d) = copy_ok E i n (copy_at s d)" for i n d
    using same_core_copy[OF core] by (simp add: copy_ok_def)
  then show "entered E ino c s'"
    using e unfolding entered_def f handles_cong[OF f(1)] same_core_copy[OF core] by blast
qed

lemma entered_acquired:
  assumes "entered E ino c s"
  shows "copies_ok E (Some (ino, c))
    (set_copy c ((copy_at s c)\<lparr>lc_pulled := True, lc_refs := lc_refs (copy_at s c) + 1\<rparr>) s)"
    (is "copies_ok _ _ ?s")
proof -
  have h: "handles ?s = handles s" by (rule handles_cong) simp
  have "d < next_copy ?s \<and> copy_ok E i (card (handles ?s d) + holds (Some (ino, c)) d) (copy_at ?s d)"
    if "open_copies ?s i = Some d" for i d
  proof (cases "i = ino")
    case True
    with assms that show ?thesis by (simp add: h entered_def copy_ok_def holds_def)
  next
    case False
    with assms that have "d \<noteq> c" "d < next_copy s" "copy_ok E i (card (handles s d)) (copy_at s d)"
      by (auto simp: entered_def)
    then show ?thesis by (simp add: h holds_def)
  qed
  with assms show ?thesis by (simp add: copies_ok_def entered_def)
qed

lemma entered_failed:
  assumes "entered E ino c s"
  shows "copies_ok E None
    (if lc_refs (copy_at s c) = 0
     then forget_copy ino c (set_copy c ((copy_at s c)\<lparr>lc_evicted := True\<rparr>) s) else s)"
proof (cases "lc_refs (copy_at s c) = 0")
  case True
  let ?s = "forget_copy ino c (set_copy c ((copy_at s c)\<lparr>lc_evicted := True\<rparr>) s)"
  have s: "?s = s\<lparr>copy_at := (copy_at s)(c := (copy_at s c)\<lparr>lc_evicted := True\<rparr>),
      open_copies := (open_copies s)(ino := None)\<rparr>"
    using assms by (simp add: forget_copy_def entered_def set_copy_def)
  have h: "handles ?s = handles s" by (rule handles_cong) (simp add: s)
  have none: "of_ino f \<noteq> ino" if "open_files s fh = Some f" for fh f
  proof
    assume "of_ino f = ino"
    then have "fh \<in> handles s c" using assms that by (auto simp: entered_def handles_def)
    moreover have "finite (handles s c)"
      using assms by (auto simp: entered_def handles_def intro: finite_subset[of _ "dom (open_files s)"])
    ultimately show False using True assms by (auto simp: entered_def)
  qed
  show ?thesis
    using True assms none unfolding copies_ok_def entered_def
    by (auto simp: s h[unfolded s] holds_def)
next
  case False
  have "copy_ok E ino (card (handles s c)) (copy_at s c)"
    using False assms by (simp add: entered_def copy_ok_def)
  moreover have "copy_ok E i (card (handles s d)) (copy_at s d) \<and> d < next_copy s"
    if "open_copies s i = Some d" "i \<noteq> ino" for i d
    using assms that by (auto simp: entered_def)
  ultimately have "copy_ok E i (card (handles s d)) (copy_at s d) \<and> d < next_copy s"
    if "open_copies s i = Some d" for i d
    using that assms by (cases "i = ino") (auto simp: entered_def)
  with assms have "copies_ok E None s" by (simp add: copies_ok_def entered_def holds_def)
  with False show ?thesis by simp
qed


lemma core_populate: "same_core s (snd (populate E c path init s))"
proof (cases init)
  case EmptyInit
  have "same_core s (snd (try_res (on_host_fs (host_create p) s) (\<lambda>_ s. (Ok (), mark_dirty c True s))))" for p
    by (rule core_after_try)
      (auto simp: on_host_fs_def intro: same_core_trans[OF _ same_core_mark_dirty])
  with EmptyInit show ?thesis by (simp add: populate_def)
qed (simp add: populate_def)

lemma acquire_round_ok:
  assumes "copies_ok E None s"
  obtains r s' where "acquire_round E ino path init s = (Some r, s')"
    and "post (r, s') (\<lambda>c s'. copies_ok E (Some (ino, c)) s' \<and> same_handles s s')
      (\<lambda>e s'. copies_ok E None s' \<and> same_handles s s')"
proof -
  obtain c s1 where c: "copy_entry E ino s = (c, s1)" by (cases "copy_entry E ino s")
  note e = copy_entry_entered[OF assms c]
  obtain r s2 where p: "populate E c path init s1 = (r, s2)" by (cases "populate E c path init s1")
  then have core: "same_core s1 s2" using core_populate[of s1 E c path init] by simp
  note e2 = entered_core[OF core e(1)]
  have h: "same_handles s s2" using same_handles_trans[OF e(2) same_core_handles[OF core]] .
  have free: "\<not> lc_poisoned (copy_at s1 c)" "\<not> lc_evicted (copy_at s1 c)"
    using e(1) by (auto simp: entered_def)
  show ?thesis
  proof (cases r)
    case (Ok u)
    let ?s = "set_copy c ((copy_at s2 c)\<lparr>lc_pulled := True, lc_refs := lc_refs (copy_at s2 c) + 1\<rparr>) s2"
    have "acquire_round E ino path init s = (Some (Ok c), ?s)"
      using c free p Ok by (simp add: acquire_round_def)
    then show ?thesis
    proof (rule that)
      have "same_handles s ?s" using h by (simp add: same_handles_def)
      then show "post (Ok c, ?s) (\<lambda>c s'. copies_ok E (Some (ino, c)) s' \<and> same_handles s s')
          (\<lambda>e s'. copies_ok E None s' \<and> same_handles s s')"
        using entered_acquired[OF e2] by simp
    qed
  next
    case (Err x)
    let ?s = "if lc_refs (copy_at s2 c) = 0
      then forget_copy ino c (set_copy c ((copy_at s2 c)\<lparr>lc_evicted := True\<rparr>) s2) else s2"
    have "acquire_round E ino path init s = (Some (Err x), ?s)"
      using c free p Err by (simp add: acquire_round_def)
    then show ?thesis
    proof (rule that)
      have "same_handles s ?s" using h by (simp add: same_handles_def forget_copy_def)
      then show "post (Err x, ?s) (\<lambda>c s'. copies_ok E (Some (ino, c)) s' \<and> same_handles s s')
          (\<lambda>e s'. copies_ok E None s' \<and> same_handles s s')"
        using entered_failed[OF e2] by (simp del: if_split)
    qed
  next
    case Panicked
    show ?thesis
      by (rule that[of Panicked]) (use c free p Panicked in \<open>simp_all add: acquire_round_def\<close>)
  qed
qed

text \<open>The loop of \<open>acquire_copy\<close> ends in its first round.\<close>

lemma acquire_copy_round:
  assumes "copies_ok E None s" "acquire_round E ino path init s = (Some r, s')"
  shows "acquire_copy E ino path init s = (r, s')"
  using assms by (simp add: acquire_copy_def numeral_2_eq_2)

lemma acquire_copy_ok:
  assumes "copies_ok E None s"
  shows "post (acquire_copy E ino path init s)
    (\<lambda>c s'. copies_ok E (Some (ino, c)) s' \<and> same_handles s s')
    (\<lambda>e s'. copies_ok E None s' \<and> same_handles s s')"
proof (rule acquire_round_ok[OF assms, of ino path init])
  fix r s'
  assume r: "acquire_round E ino path init s = (Some r, s')"
    and p: "post (r, s') (\<lambda>c s'. copies_ok E (Some (ino, c)) s' \<and> same_handles s s')
      (\<lambda>e s'. copies_ok E None s' \<and> same_handles s s')"
  show ?thesis using p by (simp only: acquire_copy_round[OF assms r])
qed

lemma held_copy:
  assumes "copies_ok E (Some (ino, c)) s"
  shows "open_copies s ino = Some c" "lc_path (copy_at s c) = local_path_for E ino"
    "lc_refs (copy_at s c) = Suc (card (handles s c))" "\<not> lc_poisoned (copy_at s c)"
proof -
  show o: "open_copies s ino = Some c" using assms by (simp add: copies_ok_def)
  show "lc_path (copy_at s c) = local_path_for E ino"
    "lc_refs (copy_at s c) = Suc (card (handles s c))" "\<not> lc_poisoned (copy_at s c)"
    using copies_okD(5)[OF assms o] by (simp_all add: copy_ok_def holds_def)
qed

lemma release_copy_ok:
  assumes "copies_ok E (Some (ino, c)) s"
  shows "post (release_copy ino c s) (\<lambda>_ s'. copies_ok E None s' \<and> same_handles s s') (\<lambda>_ _. False)"
    and "fst (release_copy ino c s) = Ok ()"
proof -
  let ?k = "(copy_at s c)\<lparr>lc_refs := card (handles s c)\<rparr>"
  note held = held_copy[OF assms]
  have ok: "d < next_copy s \<and> d \<noteq> c \<and> copy_ok E i (card (handles s d)) (copy_at s d)"
    if "open_copies s i = Some d" "i \<noteq> ino" for i d
  proof -
    have "d \<noteq> c" using open_copies_inj[OF assms that(1)] held(1) that(2) by blast
    then show ?thesis using copies_okD(4,5)[OF assms that(1)] by (simp add: holds_def)
  qed
  have fin: "finite (handles s c)" by (rule finite_handles[OF assms])
  show "post (release_copy ino c s) (\<lambda>_ s'. copies_ok E None s' \<and> same_handles s s') (\<lambda>_ _. False)"
  proof (cases "card (handles s c) = 0")
    case True
    have none: "of_ino f \<noteq> ino" if "open_files s fh = Some f" for fh f
    proof
      assume "of_ino f = ino"
      then have "fh \<in> handles s c" using that copies_okD(2)[OF assms that] held(1)
        by (simp add: handles_def)
      with True fin show False by auto
    qed
    obtain r s' where w: "on_host_fs (host_remove (lc_path ?k)) (set_copy c (?k\<lparr>lc_evicted := True\<rparr>) s) = (r, s')"
      by (cases "on_host_fs (host_remove (lc_path ?k)) (set_copy c (?k\<lparr>lc_evicted := True\<rparr>) s)")
    have sel: "open_files s' = open_files s" "open_copies s' = open_copies s" "inodes s' = inodes s"
      "open_dirs s' = open_dirs s" "next_fh s' = next_fh s" "next_copy s' = next_copy s"
      "copy_at s' = (copy_at s)(c := ?k\<lparr>lc_evicted := True\<rparr>)"
    proof -
      let ?f = "on_host (host_remove (lc_path ?k))" and ?s = "set_copy c (?k\<lparr>lc_evicted := True\<rparr>) s"
      have "snd (on_world ?f ?s) = s'" using w by (simp add: on_host_fs_def)
      note sel = on_world_sel[of ?f ?s, unfolded this]
      show "open_files s' = open_files s" "open_copies s' = open_copies s" "inodes s' = inodes s"
        "open_dirs s' = open_dirs s" "next_fh s' = next_fh s" "next_copy s' = next_copy s"
        "copy_at s' = (copy_at s)(c := ?k\<lparr>lc_evicted := True\<rparr>)"
        by (simp_all add: sel)
    qed
    have "release_copy ino c s = (Ok (), s'\<lparr>open_copies := (open_copies s')(ino := None)\<rparr>)"
      using held True w by (simp add: release_copy_def Let_def forget_copy_def sel)
    moreover have "handles (s'\<lparr>open_copies := m\<rparr>) = handles s" for m
      by (rule handles_cong) (simp add: sel)
    moreover have "finite (dom (open_files s))" by (rule copies_okD(1)[OF assms])
    ultimately show ?thesis
      using ok none copies_okD(2)[OF assms] by (auto simp: copies_ok_def sel holds_def same_handles_def)
  next
    case False
    then have "release_copy ino c s = (Ok (), set_copy c ?k s)"
      using held by (simp add: release_copy_def Let_def)
    moreover have "copy_ok E ino (card (handles s c)) ?k"
      using copies_okD(5)[OF assms held(1)] neq0_conv[THEN iffD1, OF False] by (simp add: copy_ok_def)
    moreover have "c < next_copy s" using copies_okD(4)[OF assms held(1)] .
    ultimately show ?thesis
      using ok held(1) copies_okD(1,2)[OF assms]
      by (simp add: copies_ok_def holds_def same_handles_def) (metis option.inject)
  qed
  show "fst (release_copy ino c s) = Ok ()"
    using held by (simp add: release_copy_def Let_def split: prod.splits)
qed

subsection \<open>Handles\<close>

lemma fresh_handle: "handles_fresh s \<Longrightarrow> open_files s (next_fh s) = None"
  by (cases "open_files s (next_fh s)") (auto simp: handles_fresh_def)

lemma handles_fresh_step:
  "handles_fresh s \<Longrightarrow> next_fh s \<noteq> - 1 \<Longrightarrow> fh < next_fh s \<Longrightarrow> fh < next_fh s + 1"
  using word_less_Suc order_less_trans by blast

lemma insert_handle_ok:
  assumes "copies_ok E (Some (ino, c)) s" "handles_fresh s" "next_fh s \<noteq> - 1"
    and "insert_handle ino c f s = (fh, s')"
  shows "copies_ok E None s'" "handles_fresh s'" "inodes s' = inodes s"
proof -
  have s': "s' = s\<lparr>next_fh := next_fh s + 1,
      open_files := (open_files s)(next_fh s \<mapsto> \<lparr>of_ino = ino, of_copy = c, of_file = f\<rparr>)\<rparr>"
    using assms(4) by (auto simp: insert_handle_def Let_def)
  note none = fresh_handle[OF assms(2)] and held = held_copy[OF assms(1)]
  have h: "handles s' d = (if d = c then insert (next_fh s) (handles s d) else handles s d)" for d
    using none by (auto simp: handles_def s' split: if_splits)
  have "next_fh s \<notin> handles s c" using none by (simp add: handles_def)
  then have card: "card (handles s' d) = card (handles s d) + holds (Some (ino, c)) d" for d
    using finite_handles[OF assms(1)] by (cases "d = c") (simp_all add: h holds_def)
  then show "copies_ok E None s'"
    using assms(1) held(1) unfolding copies_ok_def card by (simp add: s' holds_def)
  show "handles_fresh s'"
    using assms(2,3) handles_fresh_step[OF assms(2,3)] word_less_Suc[OF assms(3)]
    by (auto simp: handles_fresh_def s')
  show "inodes s' = inodes s" by (simp add: s')
qed

lemma remove_handle_held:
  assumes "copies_ok E None s" "open_files s fh = Some f"
  shows "copies_ok E (Some (of_ino f, of_copy f)) (s\<lparr>open_files := (open_files s)(fh := None)\<rparr>)"
    (is "copies_ok _ _ ?s")
proof -
  have h: "handles ?s d = handles s d - {fh}" for d
    by (auto simp: handles_def)
  have "fh \<in> handles s d \<longleftrightarrow> d = of_copy f" for d using assms(2) by (auto simp: handles_def)
  then have card: "card (handles ?s d) + holds (Some (of_ino f, of_copy f)) d = card (handles s d)" for d
    using finite_handles[OF assms(1), of d] card_gt_0_iff[of "handles s d"]
    by (auto simp: h holds_def card_Diff_singleton)
  show ?thesis
    using assms copies_okD(2)[OF assms] unfolding copies_ok_def card
    by (auto simp: holds_def)
qed

lemma handles_fresh_sub:
  assumes "handles_fresh s" "next_fh s' = next_fh s" "open_dirs s' = open_dirs s"
    and "\<And>fh f. open_files s' fh = Some f \<Longrightarrow> open_files s fh = Some f"
  shows "handles_fresh s'"
  using assms by (auto simp: handles_fresh_def)

lemma same_handles_fresh: "same_handles s s' \<Longrightarrow> handles_fresh s \<Longrightarrow> handles_fresh s'"
  by (auto simp: same_handles_def handles_fresh_def)

subsection \<open>What the parts of a request keep\<close>

lemma snd_answer [simp]: "snd (answer r) = snd r"
  by (cases r; cases "fst r") auto

lemma answer_post:
  assumes "post r (\<lambda>_. P) (\<lambda>_. P)" and "fst (answer r) \<noteq> NoReply"
  shows "P (snd (answer r))"
  using assms by (cases r; cases "fst r") auto

lemma core_on_device [core_intro, simp]: "same_core s (snd (on_device f s))"
  by (simp add: on_device_def)

lemma core_on_host [core_intro, simp]: "same_core s (snd (on_host_fs f s))"
  by (simp add: on_host_fs_def)

lemma core_with_path:
  assumes "\<And>p. same_core s (snd (k p s))"
  shows "same_core s (snd (with_path ino k s))"
  using assms by (simp add: with_path_def split: option.splits)

text \<open>A step that leaves the core alone, as a post-condition.\<close>

lemma post_core: "same_core s (snd r) \<Longrightarrow> post r (\<lambda>_. same_core s) (\<lambda>_. same_core s)"
  by (cases r; cases "fst r") auto

lemma post_core_ok:
  assumes "same_core s (snd r)" "fs_ok E s"
  shows "post r (\<lambda>_. fs_ok E) (\<lambda>_. fs_ok E)"
  using assms same_core_ok by (cases r; cases "fst r") auto

lemma fs_ok_assign:
  assumes "fs_ok E s" "next_ino (inodes s) \<noteq> - 1" "assign_ino p s = (i, s')"
  shows "fs_ok E s'" "ino_path i s' = Some p" "same_handles (s\<lparr>inodes := inodes s'\<rparr>) s'"
proof -
  obtain t where t: "get_or_assign_ino p (inodes s) = (i, t)" "s' = s\<lparr>inodes := t\<rparr>"
    using assms(3) by (auto simp: assign_ino_def split: prod.splits)
  have "ino_table_ok (inodes s)" using assms(1) by (simp add: fs_ok_def)
  note a = get_or_assign_ino_ok[OF this assms(2) t(1)]
  have "copies_ok E None s'"
    using assms(1) by (intro copies_ok_cong[of E None s s']) (simp_all add: fs_ok_def t)
  then show "fs_ok E s'" using a assms(1) by (simp add: fs_ok_def t handles_fresh_def)
  show "ino_path i s' = Some p" using a by (simp add: ino_path_def t)
  show "same_handles (s\<lparr>inodes := inodes s'\<rparr>) s'" by (simp add: same_handles_def t)
qed

lemma fs_ok_reply_new_entry:
  assumes "fs_ok E s" "next_ino (inodes s) \<noteq> - 1"
  shows "post (reply_new_entry E p s) (\<lambda>_. fs_ok E) (\<lambda>_. fs_ok E)"
  unfolding reply_new_entry_def
proof (rule post_try, rule post_mono[OF post_core[OF core_on_device]])
  fix meta s'
  assume c: "same_core s s'"
  then have "fs_ok E s'" "next_ino (inodes s') \<noteq> - 1"
    using same_core_ok assms by (auto simp: same_core_def)
  moreover obtain i t where a: "assign_ino p s' = (i, t)" by (cases "assign_ino p s'")
  ultimately have "fs_ok E (remember E p (Some meta) t)"
    using fs_ok_assign(1) same_core_ok[OF core_cache_step(2)] by blast
  then show "post (case assign_ino p s' of (ino, s) \<Rightarrow>
      (Ok (ReplyEntry (entry_timeout (e_opts E)) (meta_to_attr (e_opts E) ino meta) 0),
       remember E p (Some meta) s)) (\<lambda>_. fs_ok E) (\<lambda>_. fs_ok E)"
    by (simp add: a)
qed (use assms same_core_ok in blast)

subsection \<open>What a request needs\<close>

text \<open>
  Room for the inode numbers and the handle a request may take, and for a rename an
  enumeration of the path map and two paths that do not lie in each other.
\<close>

fun req_ok :: "'d fs_env \<Rightarrow> request \<Rightarrow> 'd adb_fs \<Rightarrow> bool" where
  "req_ok E (Opendir ino) s = (next_fh s \<noteq> - 1 \<and>
     (\<forall>p es w. ino_path ino s = Some p \<longrightarrow> list_dir (e_ops E) p (fs_world s) = (Ok es, w) \<longrightarrow>
        unat (next_ino (inodes s)) + length es < 2 ^ 64))"
| "req_ok E (Rename parent name newparent newname) s =
     (enumerates (e_iter E (path_to_ino (inodes s))) (path_to_ino (inodes s))
      \<and> (\<forall>p q. ino_path parent s = Some p \<longrightarrow> ino_path newparent s = Some q \<longrightarrow>
           (let from = child_path p name; to = child_path q newname in
            \<not> at_or_under from (from @ ''/'') to \<and> \<not> at_or_under to (to @ ''/'') from)))"
| "req_ok E req s = (next_ino (inodes s) \<noteq> - 1 \<and> next_fh s \<noteq> - 1)"

subsection \<open>Requests that leave the core alone\<close>

lemma core_getattr: "same_core s (snd (fs_getattr E ino s))"
  by (simp add: fs_getattr_def core_with_path core_after_try)

lemma core_readlink: "same_core s (snd (fs_readlink E ino s))"
proof -
  have "same_core s (snd (try_res (map_err_res device_err (r, s')) (\<lambda>t s. (Ok (ReplyData t), s))))"
    if "same_core s s'" for r :: "(device_error, string) res" and s'
    using that by (cases r) auto
  then show ?thesis by (simp add: fs_readlink_def core_with_path core_after_try)
qed

lemma core_read: "same_core s (snd (fs_read fh off n s))"
  by (simp add: fs_read_def core_after_try split: option.splits)

lemma core_write: "same_core s (snd (fs_write fh off d s))"
  by (auto simp: fs_write_def split: option.splits intro!: core_after_try
      intro: same_core_trans[OF _ same_core_mark_dirty])

lemma core_flush: "same_core s (snd (fs_flush E fh s))"
  by (simp add: fs_flush_def core_after_try split: option.splits)

lemma core_unlink: "same_core s (snd (fs_unlink E parent name s))"
  by (auto simp: fs_unlink_def Let_def intro!: core_with_path core_after_try
      intro: same_core_trans[OF _ core_cache_step(1)])

lemma core_rmdir: "same_core s (snd (fs_rmdir E parent name s))"
  by (auto simp: fs_rmdir_def Let_def intro!: core_with_path core_after_try
      intro: same_core_trans[OF _ same_core_upd_cache])

lemmas core_requests = core_getattr core_readlink core_read core_write core_flush core_unlink core_rmdir

subsection \<open>Requests on handles\<close>

lemma ok_release:
  assumes "fs_ok E s"
  shows "fs_ok E (snd (fs_release fh s))" and "fst (fs_release fh s) = ReplyOk"
proof -
  have "fs_ok E (snd (fs_release fh s)) \<and> fst (fs_release fh s) = ReplyOk"
  proof (cases "open_files s fh")
    case None
    with assms show ?thesis by (simp add: fs_release_def)
  next
    case (Some f)
    let ?s = "s\<lparr>open_files := (open_files s)(fh := None)\<rparr>"
    have c: "copies_ok E (Some (of_ino f, of_copy f)) ?s"
      using remove_handle_held[OF _ Some] assms by (simp add: fs_ok_def)
    note r = release_copy_ok[OF c]
    obtain s' where s': "release_copy (of_ino f) (of_copy f) ?s = (Ok (), s')"
      using r(2) by (cases "release_copy (of_ino f) (of_copy f) ?s") auto
    then have k: "copies_ok E None s'" "same_handles ?s s'" using r(1) by auto
    then have "handles_fresh s'"
      using assms by (auto simp: same_handles_def fs_ok_def handles_fresh_def split: if_splits)
    with k assms have "fs_ok E s'" by (simp add: fs_ok_def same_handles_def)
    then show ?thesis by (simp add: fs_release_def Some s')
  qed
  then show "fs_ok E (snd (fs_release fh s))" "fst (fs_release fh s) = ReplyOk" by auto
qed

text \<open>While a request holds a reference, the rest of the invariant stands.\<close>

definition fs_held :: "'d fs_env \<Rightarrow> u64 \<Rightarrow> nat \<Rightarrow> 'd adb_fs \<Rightarrow> bool" where
  "fs_held E ino c s = (ino_table_ok (inodes s) \<and> copies_ok E (Some (ino, c)) s \<and> handles_fresh s)"

lemma held_core: "same_core s s' \<Longrightarrow> fs_held E ino c s \<Longrightarrow> fs_held E ino c s'"
  using same_core_copies[of s s'] same_handles_fresh[OF same_core_handles]
  by (auto simp: fs_held_def same_core_def)

lemma post_core_held:
  assumes "same_core s (snd r)" "fs_held E ino c s"
  shows "post r (\<lambda>_. fs_held E ino c) (\<lambda>_. fs_held E ino c)"
  using assms held_core by (cases r; cases "fst r") auto

lemma fs_acquire:
  assumes "fs_ok E s"
  shows "post (acquire_copy E ino path init s)
    (\<lambda>c s'. fs_held E ino c s' \<and> next_fh s' = next_fh s \<and> inodes s' = inodes s)
    (\<lambda>_ s'. fs_ok E s' \<and> inodes s' = inodes s)"
  using acquire_copy_ok[of E s ino path init] assms same_handles_fresh
  by (auto elim!: post_mono simp: fs_ok_def fs_held_def same_handles_def)

lemma fs_release_held:
  assumes "fs_held E ino c s"
  shows "post (release_copy ino c s) (\<lambda>_. fs_ok E) (\<lambda>_ _. False)"
proof -
  have "copies_ok E (Some (ino, c)) s" using assms by (simp add: fs_held_def)
  from release_copy_ok(1)[OF this] show ?thesis
    by (rule post_mono)
      (use assms same_handles_fresh in \<open>auto simp: fs_ok_def fs_held_def same_handles_def\<close>)
qed

lemma fs_release_held_err:
  "fs_held E ino c s \<Longrightarrow> post (try_res (release_copy ino c s) (\<lambda>_ s. (Err e, s))) (\<lambda>_. fs_ok E) (\<lambda>_. fs_ok E)"
  using fs_release_held[of E ino c s] by (auto elim!: post_mono)

lemma fs_insert_held:
  assumes "fs_held E ino c s" "next_fh s \<noteq> - 1" "insert_handle ino c f s = (fh, s')"
  shows "fs_ok E s'"
  using insert_handle_ok[OF _ _ assms(2,3)] assms(1) by (auto simp: fs_ok_def fs_held_def)

lemma ok_open:
  assumes "fs_ok E s" "next_fh s \<noteq> - 1" "fst (fs_open E ino s) \<noteq> NoReply"
  shows "fs_ok E (snd (fs_open E ino s))"
  unfolding fs_open_def
proof (rule answer_post[OF _ assms(3)[unfolded fs_open_def]])
  let ?k = "\<lambda>c s. case on_host_fs (host_open (lc_path (copy_at s c))) s of
      (Ok f, s) \<Rightarrow> (case insert_handle ino c f s of (fh, s) \<Rightarrow>
        (Ok (ReplyOpened fh (file_open_flags (e_opts E))), s))
    | (Err e, s) \<Rightarrow> try_res (release_copy ino c s) (\<lambda>_ s. (Err e, s))
    | (Panicked, s) \<Rightarrow> (Panicked, s)"
  have k: "post (?k c s') (\<lambda>_. fs_ok E) (\<lambda>_. fs_ok E)"
    if "fs_held E ino c s' \<and> next_fh s' = next_fh s \<and> inodes s' = inodes s" for c s'
  proof -
    obtain r t where o: "on_host_fs (host_open (lc_path (copy_at s' c))) s' = (r, t)"
      by (cases "on_host_fs (host_open (lc_path (copy_at s' c))) s'")
    then have c: "same_core s' t" using core_on_host by (metis snd_conv)
    then have h: "fs_held E ino c t" "next_fh t \<noteq> - 1"
      using that held_core[OF c] c assms(2) by (simp, simp add: same_core_def)
    show ?thesis
      using fs_insert_held[OF h] fs_release_held_err[OF h(1)]
      by (cases r) (auto simp: o split: prod.splits)
  qed
  have "post (try_res (acquire_copy E ino p PullInit s) ?k) (\<lambda>_. fs_ok E) (\<lambda>_. fs_ok E)" for p
    by (rule post_try, rule post_mono[OF fs_acquire[OF assms(1)]]) (use k in blast)+
  then show "post (with_path ino (\<lambda>path s. try_res (acquire_copy E ino path PullInit s) ?k) s)
      (\<lambda>_. fs_ok E) (\<lambda>_. fs_ok E)"
    using assms(1) by (simp add: with_path_def split: option.splits)
qed

subsection \<open>Requests that hand out inodes\<close>

lemma post_with_path:
  assumes "fs_ok E s" and "\<And>p. ino_path ino s = Some p \<Longrightarrow> post (k p s) (\<lambda>_. fs_ok E) (\<lambda>_. fs_ok E)"
  shows "post (with_path ino k s) (\<lambda>_. fs_ok E) (\<lambda>_. fs_ok E)"
  using assms by (simp add: with_path_def split: option.splits)

lemma post_try_core:
  assumes "fs_ok E s" "same_core s (snd r)"
    and "\<And>a s'. same_core s s' \<Longrightarrow> fs_ok E s' \<Longrightarrow> post (k a s') (\<lambda>_. fs_ok E) (\<lambda>_. fs_ok E)"
  shows "post (try_res r k) (\<lambda>_. fs_ok E) (\<lambda>_. fs_ok E)"
  by (rule post_try, rule post_mono[OF post_core[OF assms(2)]])
    (use assms same_core_ok in blast)+

lemma core_next_ino: "same_core s s' \<Longrightarrow> next_ino (inodes s') = next_ino (inodes s)"
  by (simp add: same_core_def)

lemma core_next_fh: "same_core s s' \<Longrightarrow> next_fh s' = next_fh s"
  by (simp add: same_core_def)

lemma ok_lookup:
  assumes "fs_ok E s" "next_ino (inodes s) \<noteq> - 1"
  shows "fs_ok E (snd (fs_lookup E parent name s))"
proof -
  have "fs_ok E (snd (case fetch_meta E p s of
       (Ok meta, s) \<Rightarrow> (case assign_ino p s of (ino, s) \<Rightarrow>
           (Ok (ReplyEntry (entry_timeout (e_opts E)) (meta_to_attr (e_opts E) ino meta) 0), s))
     | (Err e, s) \<Rightarrow>
         (if (case e of NotFound _ \<Rightarrow> True | _ \<Rightarrow> False) \<and> negative_timeout (e_opts E) \<noteq> 0
          then (Ok (ReplyEntry (negative_timeout (e_opts E)) NEGATIVE_ENTRY 0), s)
          else (Err (device_err e), s))
     | (Panicked, s) \<Rightarrow> (Panicked, s)))" for p
  proof -
    obtain r t where f: "fetch_meta E p s = (r, t)" by (cases "fetch_meta E p s")
    then have c: "same_core s t" using core_fetch_meta by (metis snd_conv)
    have t: "fs_ok E t" "next_ino (inodes t) \<noteq> - 1"
      using assms same_core_ok[OF c] core_next_ino[OF c] by auto
    obtain i u where a: "assign_ino p t = (i, u)" by (cases "assign_ino p t")
    show ?thesis using fs_ok_assign(1)[OF t a] t(1) by (cases r) (simp_all add: f a)
  qed
  then show ?thesis
    using assms(1) by (simp add: fs_lookup_def with_path_def Let_def split: option.splits)
qed

lemma ok_mkdir:
  assumes "fs_ok E s" "next_ino (inodes s) \<noteq> - 1" "fst (fs_mkdir E parent name s) \<noteq> NoReply"
  shows "fs_ok E (snd (fs_mkdir E parent name s))"
  unfolding fs_mkdir_def
proof (rule answer_post[OF _ assms(3)[unfolded fs_mkdir_def]], rule post_with_path[OF assms(1)], unfold Let_def,
    rule post_try_core[OF assms(1) core_on_device])
  fix p a s' assume c: "same_core s s'" and ok: "fs_ok E s'"
  show "post (reply_new_entry E (child_path p name) (invalidate (child_path p name) s'))
      (\<lambda>_. fs_ok E) (\<lambda>_. fs_ok E)"
    by (rule fs_ok_reply_new_entry[OF same_core_ok[OF core_cache_step(1) ok]])
      (use assms(2) core_next_ino[OF c] in \<open>simp add: invalidate_def\<close>)
qed

lemma core_drop_scratch: "same_core s (drop_scratch E d s)"
  by (simp add: drop_scratch_def)

lemma ok_mknod:
  assumes "fs_ok E s" "next_ino (inodes s) \<noteq> - 1" "fst (fs_mknod E parent name s) \<noteq> NoReply"
  shows "fs_ok E (snd (fs_mknod E parent name s))"
  unfolding fs_mknod_def
proof (rule answer_post[OF _ assms(3)[unfolded fs_mknod_def]], rule post_with_path[OF assms(1)], unfold Let_def,
    rule post_try_core[OF assms(1) same_core_on_world])
  fix p d s1 assume c1: "same_core s s1" and ok1: "fs_ok E s1"
  let ?l = "path_join d ''node''" and ?p = "child_path p name"
  let ?push = "\<lambda>s. case map_err_res device_err (push_and_sync E ?l ?p s) of
      (Err e, s) \<Rightarrow> (Err e, drop_scratch E d s)
    | (Panicked, s) \<Rightarrow> (Panicked, drop_scratch E d s)
    | (Ok _, s) \<Rightarrow> reply_new_entry E ?p (drop_scratch E d (invalidate ?p s))"
  have drop: "fs_ok E (drop_scratch E d t)" if "fs_ok E t" for t
    using same_core_ok[OF core_drop_scratch that] .
  have push: "post (?push s2) (\<lambda>_. fs_ok E) (\<lambda>_. fs_ok E)" if c2: "same_core s1 s2" for s2
  proof -
    obtain r t where r: "map_err_res device_err (push_and_sync E ?l ?p s2) = (r, t)"
      by (cases "map_err_res device_err (push_and_sync E ?l ?p s2)")
    then have "snd (push_and_sync E ?l ?p s2) = t" using map_err_res_snd by (metis snd_conv)
    then have c: "same_core s1 t" using core_push_and_sync[of s2 E ?l ?p] same_core_trans[OF c2] by simp
    have t: "fs_ok E t" using same_core_ok[OF c ok1] .
    have "fs_ok E (drop_scratch E d (invalidate ?p t))"
      by (rule drop[OF same_core_ok[OF core_cache_step(1) t]])
    moreover have "next_ino (inodes (drop_scratch E d (invalidate ?p t))) \<noteq> - 1"
      using assms(2) core_next_ino[OF c] core_next_ino[OF c1] by (simp add: drop_scratch_def invalidate_def)
    ultimately show ?thesis
      using fs_ok_reply_new_entry drop[OF t] by (cases r) (auto simp: r)
  qed
  obtain r s2 where m: "on_host_fs (host_mknod (utf8_lossy ?l)) s1 = (r, s2)"
    by (cases "on_host_fs (host_mknod (utf8_lossy ?l)) s1")
  then have c2: "same_core s1 s2" using core_on_host by (metis snd_conv)
  show "post (if CHR 0x00 \<in> set (utf8_lossy ?l) then (Err EINVAL, drop_scratch E d s1)
      else case on_host_fs (host_mknod (utf8_lossy ?l)) s1 of
        (Err e, s) \<Rightarrow> (Err e, drop_scratch E d s)
      | (Panicked, s) \<Rightarrow> (Panicked, drop_scratch E d s)
      | (Ok _, s) \<Rightarrow> ?push s) (\<lambda>_. fs_ok E) (\<lambda>_. fs_ok E)"
    using push[OF c2] drop[OF ok1] drop[OF same_core_ok[OF c2 ok1]] by (cases r) (auto simp: m)
qed

lemma word_not_max: "unat (n :: u64) + Suc k < 2 ^ 64 \<Longrightarrow> n \<noteq> - 1 \<and> unat (n + 1) + k < 2 ^ 64"
proof -
  assume a: "unat n + Suc k < 2 ^ 64"
  then have "unat n + 1 < 2 ^ LENGTH(64)" by simp
  then have "unat (n + 1) = unat n + 1" by (simp add: unat_add_lem[THEN iffD1])
  moreover have "n \<noteq> - 1"
  proof
    assume "n = - 1"
    then have "unat (n + 1) = 0" by simp
    with calculation show False by simp
  qed
  ultimately show ?thesis using a by simp
qed

lemma assign_next: "assign_ino p s = (i, s') \<Longrightarrow>
    next_ino (inodes s') = next_ino (inodes s) \<or> next_ino (inodes s') = next_ino (inodes s) + 1"
  by (auto simp: assign_ino_def get_or_assign_ino_def Let_def split: prod.splits option.splits)

lemma ok_opendir_loop:
  assumes "fs_ok E s" "unat (next_ino (inodes s)) + length es < 2 ^ 64"
  shows "fs_ok E (snd (opendir_loop E p es acc s)) \<and> next_fh (snd (opendir_loop E p es acc s)) = next_fh s"
  using assms
proof (induction E p es acc s rule: opendir_loop.induct)
  case (1 E p acc s)
  then show ?case by simp
next
  case (2 E p name meta es acc s)
  show ?case
  proof (cases "name = ''.'' \<or> name = ''..''")
    case True
    have "fs_ok E (snd (opendir_loop E p es acc s)) \<and> next_fh (snd (opendir_loop E p es acc s)) = next_fh s"
      by (rule "2.IH"(1)[OF True]) (use "2.prems" in simp_all)
    with True show ?thesis by simp
  next
    case False
    let ?c = "child_path p name"
    obtain i t where a: "assign_ino ?c s = (i, t)" by (cases "assign_ino ?c s")
    let ?t = "case meta of Some m \<Rightarrow> remember E ?c (Some m) t | None \<Rightarrow> t"
    have room: "next_ino (inodes s) \<noteq> - 1" "unat (next_ino (inodes s) + 1) + length es < 2 ^ 64"
      using word_not_max "2.prems"(2) by auto
    note t = fs_ok_assign[OF "2.prems"(1) room(1) a]
    have core: "same_core t ?t" by (cases meta) simp_all
    have "fs_ok E ?t" using same_core_ok[OF core t(1)] .
    moreover have "unat (next_ino (inodes ?t)) + length es < 2 ^ 64"
      using core_next_ino[OF core] assign_next[OF a] room(2) "2.prems"(2) by auto
    moreover have "next_fh ?t = next_fh s"
      using core_next_fh[OF core] t(3) by (simp add: same_handles_def)
    ultimately show ?thesis
      using "2.IH"(2)[OF False refl a[symmetric]] False by (simp add: a Let_def)
  qed
qed

end
