(* ===== verification/Serving.thy ===== *)
theory Serving
  imports FsInvariant
begin

text \<open>
  The invariant over whole requests: \<open>opendir\<close>, \<open>rename\<close>, \<open>setattr\<close> and \<open>create\<close> keep it,
  hence \<open>serve\<close> does, and every reachable state of the file system has it.
\<close>

subsection \<open>opendir\<close>

lemma ok_opendir:
  assumes "fs_ok E s" "req_ok E (Opendir ino) s" "fst (fs_opendir E ino s) \<noteq> NoReply"
  shows "fs_ok E (snd (fs_opendir E ino s))"
  unfolding fs_opendir_def
proof (rule answer_post[OF _ assms(3)[unfolded fs_opendir_def]], rule post_with_path[OF assms(1)])
  fix p assume p: "ino_path ino s = Some p"
  obtain r t where l: "on_device (list_dir (e_ops E) p) s = (r, t)"
    by (cases "on_device (list_dir (e_ops E) p) s")
  then have c: "same_core s t" using core_on_device by (metis snd_conv)
  have t: "fs_ok E t" using same_core_ok[OF c assms(1)] .
  let ?k = "\<lambda>es s. case opendir_loop E p es [(ino, Directory, ''.''), (ino, Directory, ''..'')] s of
      (full_entries, s) \<Rightarrow> let fh = next_fh s in
        (Ok (ReplyOpened fh no_flags), s\<lparr>next_fh := fh + 1, open_dirs := (open_dirs s)(fh \<mapsto> full_entries)\<rparr>)"
  have "post (?k es t) (\<lambda>_. fs_ok E) (\<lambda>_. fs_ok E)" if "r = Ok es" for es
  proof -
    have "list_dir (e_ops E) p (fs_world s) = (Ok es, snd (list_dir (e_ops E) p (fs_world s)))"
      using l that by (auto simp: on_device_def on_world_def split: prod.splits)
    then have "unat (next_ino (inodes t)) + length es < 2 ^ 64"
      using assms(2) p core_next_ino[OF c] by auto
    note loop = ok_opendir_loop[OF t this]
    obtain d u where o: "opendir_loop E p es [(ino, Directory, ''.''), (ino, Directory, ''..'')] t = (d, u)"
      by (cases "opendir_loop E p es [(ino, Directory, ''.''), (ino, Directory, ''..'')] t")
    then have u: "fs_ok E u" "next_fh u \<noteq> - 1"
      using loop[where acc = "[(ino, Directory, ''.''), (ino, Directory, ''..'')]" and p = p] assms(2) core_next_fh[OF c] by auto
    let ?u = "u\<lparr>next_fh := next_fh u + 1, open_dirs := (open_dirs u)(next_fh u \<mapsto> d)\<rparr>"
    have "copies_ok E None ?u" by (rule copies_ok_cong[of E None u]) (use u(1) in \<open>simp_all add: fs_ok_def\<close>)
    moreover have "handles_fresh ?u"
      using u handles_fresh_step[OF _ u(2)] word_less_Suc[OF u(2)]
      by (auto simp: fs_ok_def handles_fresh_def)
    ultimately have "fs_ok E ?u" using u(1) by (simp add: fs_ok_def)
    then show ?thesis by (simp add: o Let_def)
  qed
  then show "post (try_res (on_device (list_dir (e_ops E) p) s) ?k) (\<lambda>_. fs_ok E) (\<lambda>_. fs_ok E)"
    using t by (cases r) (simp_all add: l)
qed

lemma ok_releasedir: "fs_ok E s \<Longrightarrow> fs_ok E (snd (fs_releasedir fh s))"
proof -
  assume ok: "fs_ok E s"
  have "copies_ok E None (snd (fs_releasedir fh s))"
    by (rule copies_ok_cong[of E None s]) (use ok in \<open>simp_all add: fs_ok_def fs_releasedir_def\<close>)
  moreover have "handles_fresh (snd (fs_releasedir fh s))"
    using ok by (simp add: fs_ok_def fs_releasedir_def handles_fresh_def)
  ultimately show ?thesis using ok by (simp add: fs_ok_def fs_releasedir_def)
qed

subsection \<open>rename\<close>

lemma strip_prefix_Some: "strip_prefix p s = Some r \<longleftrightarrow> s = p @ r"
  by (auto simp: strip_prefix_def prefix_def)

lemma rekeyed_cases:
  assumes "at_or_under from (from @ ''/'') k"
  obtains "k = from" "rekeyed (from @ ''/'') to k = to"
  | r where "k = from @ ''/'' @ r" "rekeyed (from @ ''/'') to k = to @ ''/'' @ r"
proof (cases "strip_prefix (from @ ''/'') k")
  case None
  with assms have "k = from" by (auto simp: at_or_under_def strip_prefix_def split: if_splits)
  with None show ?thesis using that(1) by (simp add: rekeyed_def)
next
  case (Some r)
  then have "rekeyed (from @ ''/'') to k = to @ ''/'' @ r" by (simp only: rekeyed_def option.case)
  with Some show ?thesis using that(2)[of r] by (simp add: strip_prefix_Some)
qed

lemma rekey_paths_ok:
  assumes "ino_table_ok t" "enumerates iter (path_to_ino t)"
    and "\<not> at_or_under from (from @ ''/'') to" "\<not> at_or_under to (to @ ''/'') from"
  shows "ino_table_ok (rekey_paths iter from to t)"
    and "get_path i t = Some k \<Longrightarrow> at_or_under from (from @ ''/'') k \<Longrightarrow>
      get_path i (rekey_paths iter from to t) = Some (rekeyed (from @ ''/'') to k)"
proof -
  let ?dir = "from @ ''/''"
  let ?ms = "filter (\<lambda>(key, v). at_or_under from ?dir key) iter"
  have zone: "at_or_under from ?dir k" if "k \<in> fst ` set ?ms" for k
    using that by auto
  have "distinct (map fst ?ms)" using assms(2) by (simp add: enumerates_def distinct_map_filter)
  moreover have "\<forall>(k, i) \<in> set ?ms. path_to_ino t k = Some i"
    using assms(2) by (auto simp: enumerates_def)
  moreover have "rekeyed ?dir to k \<noteq> k'" if k: "k \<in> fst ` set ?ms" "k' \<in> fst ` set ?ms" for k k'
  proof
    assume e: "rekeyed ?dir to k = k'"
    have u: "at_or_under from ?dir (rekeyed ?dir to k)" using zone[OF k(2)] e by simp
    show False
    proof (rule rekeyed_cases[OF zone[OF k(1)], of to])
      assume "rekeyed ?dir to k = to"
      with u assms(3) show False by simp
    next
      fix r assume "rekeyed ?dir to k = to @ ''/'' @ r"
      with u consider "to @ ''/'' @ r = from" | "prefix ?dir (to @ ''/'' @ r)"
        by (auto simp: at_or_under_def)
      then show False
      proof cases
        case 1
        then have "prefix (to @ ''/'') from" by (auto simp: prefix_def)
        with assms(4) show False by (simp add: at_or_under_def)
      next
        case 2
        moreover have "prefix (to @ ''/'') (to @ ''/'' @ r)" by simp
        ultimately have "prefix ?dir (to @ ''/'') \<or> prefix (to @ ''/'') ?dir"
          by (rule prefix_same_cases)
        then have "from = to \<or> prefix ?dir to \<or> prefix (to @ ''/'') from"
          by (auto simp: prefix_snoc)
        with assms(3,4) show False by (auto simp: at_or_under_def)
      qed
    qed
  qed
  moreover have "inj_on (rekeyed ?dir to) (fst ` set ?ms)"
  proof (rule inj_onI)
    fix k k' assume k: "k \<in> fst ` set ?ms" "k' \<in> fst ` set ?ms" and e: "rekeyed ?dir to k = rekeyed ?dir to k'"
    show "k = k'"
      by (rule rekeyed_cases[OF zone[OF k(1)], of to]; rule rekeyed_cases[OF zone[OF k(2)], of to])
        (use e in auto)
  qed
  ultimately have fold: "ino_table_ok (rekey_paths iter from to t)"
    "\<forall>(k, i) \<in> set ?ms. path_to_ino (rekey_paths iter from to t) (rekeyed ?dir to k) = Some i"
    using rekey_fold(1,3)[OF assms(1), of ?ms ?dir to] by (auto simp: rekey_paths_def Let_def)
  show "ino_table_ok (rekey_paths iter from to t)" by (rule fold(1))
  assume k: "get_path i t = Some k" "at_or_under from ?dir k"
  then have "(k, i) \<in> set ?ms"
    using assms(1,2) by (auto simp: get_path_def enumerates_def simp flip: ino_table_okD)
  with fold show "get_path i (rekey_paths iter from to t) = Some (rekeyed ?dir to k)"
    by (auto simp: get_path_def simp flip: ino_table_okD)
qed

lemma ok_rename:
  assumes "fs_ok E s" "req_ok E (Rename parent name newparent newname) s"
  shows "fs_ok E (snd (fs_rename E parent name newparent newname s))"
proof (cases "ino_path parent s = None \<or> ino_path newparent s = None")
  case True
  with assms(1) show ?thesis by (auto simp: fs_rename_def Let_def split: option.splits)
next
  case False
  then obtain p q where pq: "ino_path parent s = Some p" "ino_path newparent s = Some q" by auto
  let ?from = "child_path p name" and ?to = "child_path q newname"
  have r: "enumerates (e_iter E (path_to_ino (inodes s))) (path_to_ino (inodes s))"
    "\<not> at_or_under ?from (?from @ ''/'') ?to" "\<not> at_or_under ?to (?to @ ''/'') ?from"
    using assms(2) pq by (auto simp: Let_def)
  obtain x t where m: "on_device (dev_mv (e_ops E) ?from ?to) s = (x, t)"
    by (cases "on_device (dev_mv (e_ops E) ?from ?to) s")
  then have c: "same_core s t" using core_on_device by (metis snd_conv)
  have t: "fs_ok E t" using same_core_ok[OF c assms(1)] .
  have i: "inodes t = inodes s" using c by (simp add: same_core_def)
  let ?t = "t\<lparr>inodes := rekey_paths (e_iter E (path_to_ino (inodes t))) ?from ?to (inodes t)\<rparr>"
  have "ino_table_ok (inodes ?t)"
    using rekey_paths_ok(1)[OF _ r] assms(1) by (simp add: i fs_ok_def)
  moreover have "copies_ok E None ?t"
    by (rule copies_ok_cong[of E None t]) (use t in \<open>simp_all add: fs_ok_def\<close>)
  ultimately have "fs_ok E ?t" using t by (simp add: fs_ok_def handles_fresh_def)
  then have "fs_ok E (upd_cache g (upd_cache h ?t))" for g h
    using same_core_ok[OF same_core_upd_cache] by blast
  with t show ?thesis by (cases x) (simp_all add: fs_rename_def pq m Let_def)
qed

subsection \<open>setattr and create\<close>

lemma core_truncate_and_push: "same_core s (snd (truncate_and_push E ino c n s))"
  unfolding truncate_and_push_def
proof (rule core_after_try[OF core_on_host])
  fix f s1 assume c1: "same_core s s1"
  show "same_core s (snd (try_res (on_host_fs (host_set_len f n) s1)
      (\<lambda>_ s. push_if_dirty E ino c (mark_dirty c True s))))"
  proof (rule core_after_try)
    show "same_core s (snd (on_host_fs (host_set_len f n) s1))"
      by (rule same_core_trans[OF c1 core_on_host])
    fix a s2 assume "same_core s s2"
    then show "same_core s (snd (push_if_dirty E ino c (mark_dirty c True s2)))"
      using same_core_trans same_core_mark_dirty core_push_if_dirty by blast
  qed
qed

lemma ok_truncate:
  assumes "fs_ok E s"
  shows "post (truncate_file E ino path n s) (\<lambda>_ s'. fs_ok E s') (\<lambda>_ s'. fs_ok E s')"
proof -
  let ?init = "if n = 0 then EmptyInit else PullInit"
  let ?k = "\<lambda>c s. case truncate_and_push E ino c n s of
      (Panicked, s) \<Rightarrow> (Panicked, s)
    | (Ok _, s) \<Rightarrow> release_copy ino c s
    | (Err e, s) \<Rightarrow> try_res (release_copy ino c s) (\<lambda>_ s. (Err e, s))"
  have "post (?k c s') (\<lambda>_ s'. fs_ok E s') (\<lambda>_ s'. fs_ok E s')" if h: "fs_held E ino c s'" for c s'
  proof -
    obtain r t where t: "truncate_and_push E ino c n s' = (r, t)"
      by (cases "truncate_and_push E ino c n s'")
    then have "same_core s' t" using core_truncate_and_push by (metis snd_conv)
    then have "fs_held E ino c t" using held_core h by blast
    then show ?thesis
      using fs_release_held[of E ino c t] fs_release_held_err[of E ino c t]
      by (cases r) (auto simp: t elim!: post_mono)
  qed
  then have "post (try_res (acquire_copy E ino path ?init s) ?k) (\<lambda>_ s'. fs_ok E s') (\<lambda>_ s'. fs_ok E s')"
    by (intro post_try post_mono[OF fs_acquire[OF assms]]) auto
  then show ?thesis by (simp add: truncate_file_def Let_def)
qed

lemma core_fs_touch: "same_core s (snd (fs_touch E p a m s))"
  by (simp add: fs_touch_def split: prod.splits)

lemma ok_setattr:
  assumes "fs_ok E s" "fst (fs_setattr E ino sz a m s) \<noteq> NoReply"
  shows "fs_ok E (snd (fs_setattr E ino sz a m s))"
  unfolding fs_setattr_def
proof (rule answer_post[OF _ assms(2)[unfolded fs_setattr_def]], rule post_with_path[OF assms(1)],
    rule post_try)
  fix p
  let ?k = "\<lambda>_ s. let a = map_option (resolve_time E s) a; m = map_option (resolve_time E s) m
      in try_res (if a \<noteq> None \<or> m \<noteq> None
          then try_res (fs_touch E p a m s) (\<lambda>_ s. (Ok (), invalidate p s)) else (Ok (), s))
        (\<lambda>_ s. try_res (on_device (get_metadata (e_ops E) p) s) (\<lambda>meta s.
          (Ok (ReplyAttr (attr_timeout (e_opts E)) (meta_to_attr (e_opts E) ino meta)),
           remember E p (Some meta) s)))"
  have k: "post (?k u t) (\<lambda>_. fs_ok E) (\<lambda>_. fs_ok E)" if t: "fs_ok E t" for u :: unit and t
  proof -
    have "same_core t (snd (try_res (fs_touch E p a m t) (\<lambda>_ s. (Ok (), invalidate p s))))" for a m
      by (rule core_after_try[OF core_fs_touch]) (auto intro: same_core_trans[OF _ core_cache_step(1)])
    moreover have "same_core s' (snd (try_res (on_device (get_metadata (e_ops E) p) s') (\<lambda>meta s.
          (Ok (ReplyAttr (attr_timeout (e_opts E)) (meta_to_attr (e_opts E) ino meta)),
           remember E p (Some meta) s))))" for s'
      by (rule core_after_try[OF core_on_device]) (auto intro: same_core_trans[OF _ core_cache_step(2)])
    ultimately show ?thesis
      unfolding Let_def by (intro post_try_core[OF t] post_core_ok) auto
  qed
  have "post (case sz of Some n \<Rightarrow> truncate_file E ino p n s | None \<Rightarrow> (Ok (), s))
      (\<lambda>_. fs_ok E) (\<lambda>_. fs_ok E)"
    using ok_truncate[OF assms(1)] assms(1) by (cases sz) simp_all
  then show "post (case sz of Some n \<Rightarrow> truncate_file E ino p n s | None \<Rightarrow> (Ok (), s))
      (\<lambda>u t. post (?k u t) (\<lambda>_. fs_ok E) (\<lambda>_. fs_ok E)) (\<lambda>_. fs_ok E)"
    by (rule post_mono) (use k in blast)+
qed

lemma core_create_opened: "same_core s (snd (create_opened E ino c p s))"
  unfolding create_opened_def
proof (rule core_after_try[OF core_on_host])
  fix f s1 assume c1: "same_core s s1"
  show "same_core s (snd (try_res (push_if_dirty E ino c s1) (\<lambda>_ s.
         try_res (on_device (get_metadata (e_ops E) p) s) (\<lambda>meta s. (Ok (f, meta), s)))))"
  proof (rule core_after_try)
    show "same_core s (snd (push_if_dirty E ino c s1))"
      by (rule same_core_trans[OF c1 core_push_if_dirty])
    fix a s2 assume c2: "same_core s s2"
    show "same_core s (snd (try_res (on_device (get_metadata (e_ops E) p) s2) (\<lambda>meta s. (Ok (f, meta), s))))"
      by (rule core_after_try) (use same_core_trans[OF c2 core_on_device] in auto)
  qed
qed

lemma ok_create:
  assumes "fs_ok E s" "next_ino (inodes s) \<noteq> - 1" "next_fh s \<noteq> - 1"
    and "fst (fs_create E parent name s) \<noteq> NoReply"
  shows "fs_ok E (snd (fs_create E parent name s))"
  unfolding fs_create_def
proof (rule answer_post[OF _ assms(4)[unfolded fs_create_def]], rule post_with_path[OF assms(1)], unfold Let_def)
  fix p
  let ?p = "child_path p name"
  obtain ino s1 where a: "assign_ino ?p s = (ino, s1)" by (cases "assign_ino ?p s")
  note s1 = fs_ok_assign[OF assms(1,2) a]
  let ?k = "\<lambda>c s. case create_opened E ino c ?p s of
      (Panicked, s) \<Rightarrow> (Panicked, s)
    | (Err e, s) \<Rightarrow> try_res (release_copy ino c s) (\<lambda>_ s. (Err e, s))
    | (Ok (f, meta), s) \<Rightarrow> (case insert_handle ino c f (remember E ?p (Some meta) s) of (fh, s) \<Rightarrow>
        (Ok (ReplyCreated (entry_timeout (e_opts E)) (meta_to_attr (e_opts E) ino meta) 0 fh
           (file_open_flags (e_opts E))), s))"
  have k: "post (?k c s') (\<lambda>_. fs_ok E) (\<lambda>_. fs_ok E)"
    if h: "fs_held E ino c s'" "next_fh s' = next_fh s1" for c s'
  proof -
    obtain r t where o: "create_opened E ino c ?p s' = (r, t)"
      by (cases "create_opened E ino c ?p s'")
    then have c: "same_core s' t" using core_create_opened by (metis snd_conv)
    have ht: "fs_held E ino c t" using held_core[OF c h(1)] .
    have "fs_ok E u" if "insert_handle ino c f (remember E ?p m t) = (fh, u)" for f m fh u
      using fs_insert_held[OF held_core[OF core_cache_step(2) ht] _ that] assms(3) s1(3) h(2)
        core_next_fh[OF c]
      by (simp add: same_handles_def remember_def)
    then show ?thesis
      using fs_release_held_err[OF ht] by (cases r) (auto simp: o split: prod.splits)
  qed
  have "post (try_res (acquire_copy E ino ?p EmptyInit s1) ?k) (\<lambda>_. fs_ok E) (\<lambda>_. fs_ok E)"
    by (rule post_try, rule post_mono[OF fs_acquire[OF s1(1)]]) (use k in blast)+
  then show "post (case assign_ino ?p s of (ino, s) \<Rightarrow>
     try_res (acquire_copy E ino ?p EmptyInit s) (\<lambda>c s. case create_opened E ino c ?p s of
      (Ok (f, meta), s) \<Rightarrow> (case insert_handle ino c f (remember E ?p (Some meta) s) of (fh, s) \<Rightarrow>
        (Ok (ReplyCreated (entry_timeout (e_opts E)) (meta_to_attr (e_opts E) ino meta) 0 fh
           (file_open_flags (e_opts E))), s))
    | (Err e, s) \<Rightarrow> try_res (release_copy ino c s) (\<lambda>_ s. (Err e, s))
    | (Panicked, s) \<Rightarrow> (Panicked, s))) (\<lambda>_. fs_ok E) (\<lambda>_. fs_ok E)"
    by (simp add: a)
qed


subsection \<open>Every request\<close>

lemma ok_assign_room: "req_ok E req s \<Longrightarrow> (\<forall>ino. req \<noteq> Opendir ino) \<Longrightarrow>
    (\<forall>a b c d. req \<noteq> Rename a b c d) \<Longrightarrow> next_ino (inodes s) \<noteq> - 1 \<and> next_fh s \<noteq> - 1"
  by (cases req) auto

lemma serve_ok:
  assumes "fs_ok E s" "req_ok E req s" "fst (serve full E req s) \<noteq> NoReply"
  shows "fs_ok E (snd (serve full E req s))"
proof (cases req)
  case (Rename parent name newparent newname)
  with assms ok_rename show ?thesis by simp
next
  case (Opendir ino)
  with assms ok_opendir show ?thesis by simp
next
  case (Readdir fh off)
  with assms(1) show ?thesis by (simp add: fs_readdir_def split: option.splits)
qed (use assms ok_assign_room[OF assms(2)] core_requests[THEN same_core_ok, OF assms(1)] in
  \<open>simp_all add: ok_lookup ok_mkdir ok_mknod ok_open ok_create ok_setattr ok_release ok_releasedir
     fs_access_def\<close>)

lemma fs_ok_new: "fs_ok E (adb_fs_new ttl w)"
  by (simp add: fs_ok_def adb_fs_new_def ino_table_ok_new copies_ok_def handles_fresh_def)

text \<open>The states the file system can be in, as long as every request gets its reply.\<close>

inductive reachable :: "(dirent list \<Rightarrow> dirent \<Rightarrow> bool) \<Rightarrow> 'd fs_env \<Rightarrow> 'd adb_fs \<Rightarrow> bool"
  for full E where
  start: "reachable full E (adb_fs_new ttl w)"
| request: "reachable full E s \<Longrightarrow> req_ok E req s \<Longrightarrow> serve full E req s = (r, s') \<Longrightarrow>
    r \<noteq> NoReply \<Longrightarrow> reachable full E s'"
| device: "reachable full E s \<Longrightarrow> reachable full E (s\<lparr>fs_world := w\<rparr>)"

lemma reachable_fs_ok: "reachable full E s \<Longrightarrow> fs_ok E s"
proof (induction rule: reachable.induct)
  case (request s req r s')
  then show ?case using serve_ok[of E s req full] by simp
qed (simp_all add: fs_ok_new same_core_ok[OF same_core_gnu(2)])

subsection \<open>A concrete file system\<close>

text \<open>The file system on the test double, with a scratch directory of a fixed name.\<close>

definition demo_env :: "string list \<Rightarrow> mock_adb fs_env" where
  "demo_env keys =
     \<lparr>e_ops = mock_env 5 False, e_opts = default_options, e_tmp_dir = ''/tmp/adbfs'',
      e_instant_now = (\<lambda>w. 0), e_system_now = (\<lambda>w. 0),
      e_iter = (\<lambda>m. List.map_filter (\<lambda>k. map_option (Pair k) (m k)) keys),
      e_tempdir_in = (\<lambda>d w. (Ok (d @ ''/scratch''), w)),
      e_tempdir_drop = (\<lambda>d w. w\<lparr>w_host := (w_host w)\<lparr>h_names :=
         (h_names (w_host w))(d @ ''/node'' := None)\<rparr>\<rparr>)\<rparr>"

definition demo_world :: "(adb_error, shell_output) res list \<Rightarrow> string \<Rightarrow> mock_adb world" where
  "demo_world rs content = \<lparr>w_dev = mock_with_content content (mock_new rs),
     w_host = \<lparr>h_names = Map.empty, h_files = (\<lambda>_. []), h_next = 0, h_faults = []\<rparr>\<rparr>"

definition demo_start :: "(adb_error, shell_output) res list \<Rightarrow> string \<Rightarrow> mock_adb adb_fs" where
  "demo_start rs content = adb_fs_new 30000000000 (demo_world rs content)"

lemma demo_env_sel [simp]:
  "e_ops (demo_env ks) = mock_env 5 False" "e_opts (demo_env ks) = default_options"
  "e_tmp_dir (demo_env ks) = ''/tmp/adbfs''" "e_instant_now (demo_env ks) w = 0"
  by (simp_all add: demo_env_def)

lemmas demo_defs = demo_env_def demo_world_def demo_start_def adb_fs_new_def mock_env_def mock_new_def
  mock_with_content_def

lemmas fs_step_defs = with_path_def ino_path_def get_path_def on_host_fs_def on_world_def on_host_def
  on_device_def set_copy_def Let_def insert_handle_def

lemmas copy_defs = acquire_copy_def acquire_round_def copy_entry_def populate_def local_copy_new_def
  release_copy_def forget_copy_def mark_dirty_def

text \<open>Opening the inode of the root pulls the contents into its local file.\<close>

definition demo_opened :: "string \<Rightarrow> mock_adb adb_fs" where
  "demo_opened content = (demo_start [] content)
     \<lparr>open_files := [1 \<mapsto> \<lparr>of_ino = 1, of_copy = 0, of_file = 0\<rparr>], open_copies := [1 \<mapsto> 0],
      copy_at := (\<lambda>_. local_copy_new [])(0 := (local_copy_new (local_path_for (demo_env []) 1))
        \<lparr>lc_pulled := True, lc_refs := 1\<rparr>), next_copy := 1, next_fh := 2,
      fs_world := (demo_world [] content)\<lparr>w_host := \<lparr>h_names = [local_path_for (demo_env []) 1 \<mapsto> 0],
        h_files = (\<lambda>_. [])(0 := content), h_next = 1, h_faults = []\<rparr>\<rparr>\<rparr>"

lemma demo_open:
  assumes "content \<noteq> []"
  shows "fs_open (demo_env []) 1 (demo_start [] content)
    = (ReplyOpened 1 (file_open_flags default_options), demo_opened content)"
proof -
  let ?l = "local_path_for (demo_env []) 1"
  let ?w = "(demo_world [] content)\<lparr>w_host := \<lparr>h_names = [?l \<mapsto> 0], h_files = (\<lambda>_. [])(0 := content),
      h_next = 1, h_faults = []\<rparr>\<rparr>"
  have "dev_pull (mock_env 5 False) ''/'' ?l (demo_world [] content) = (Ok (), ?w)"
    using assms
    by (simp add: dev_pull_def mock_env_def mock_device_def mock_pull_def demo_world_def mock_with_content_def
        mock_new_def on_host_def host_write_file_def host_create_def next_fault_def
        host_write_all.simps write_bytes_def resize_def)
  then show ?thesis
    by (simp add: fs_open_def fs_step_defs copy_defs demo_start_def demo_opened_def adb_fs_new_def
        ino_table_new_def FUSE_ROOT_INO_def host_open_def next_fault_def numeral_2_eq_2)
qed

subsection \<open>Properties\<close>

text \<open>C2. In every reachable state, whatever requests came before, inodes and paths correspond one
  to one; every open handle has a populated copy of its own inode in the map of copies, counted
  by exactly its handles; handles on one inode share one copy, and handles on different inodes
  have different local files.\<close>

theorem reachable_handles:
  assumes "reachable full E s"
  shows "(\<forall>p i. path_to_ino (inodes s) p = Some i \<longleftrightarrow> get_path i (inodes s) = Some p)
    \<and> (\<forall>fh f. open_files s fh = Some f \<longrightarrow>
         open_copies s (of_ino f) = Some (of_copy f)
         \<and> copy_ok E (of_ino f) (card (handles s (of_copy f))) (copy_at s (of_copy f)))
    \<and> (\<forall>fh f gh g. open_files s fh = Some f \<longrightarrow> open_files s gh = Some g \<longrightarrow>
         (of_ino f = of_ino g \<longleftrightarrow> of_copy f = of_copy g)
         \<and> (of_ino f = of_ino g \<longleftrightarrow>
             lc_path (copy_at s (of_copy f)) = lc_path (copy_at s (of_copy g))))
    \<and> (\<forall>i c. open_copies s i = Some c \<longrightarrow> (\<exists>fh f. open_files s fh = Some f \<and> of_copy f = c))"
proof -
  have ok: "fs_ok E s" by (rule reachable_fs_ok[OF assms])
  then have c: "copies_ok E None s" by (simp add: fs_ok_def)
  have bij: "path_to_ino (inodes s) p = Some i \<longleftrightarrow> get_path i (inodes s) = Some p" for p i
    using ok by (simp add: fs_ok_def ino_table_okD get_path_def)
  have own: "open_copies s (of_ino f) = Some (of_copy f)
      \<and> copy_ok E (of_ino f) (card (handles s (of_copy f))) (copy_at s (of_copy f))"
    if "open_files s fh = Some f" for fh f
    using copies_okD(2)[OF c that] copies_okD(5)[OF c] by (fastforce simp: holds_def)
  have share: "(of_ino f = of_ino g \<longleftrightarrow> of_copy f = of_copy g)
      \<and> (of_ino f = of_ino g \<longleftrightarrow>
          lc_path (copy_at s (of_copy f)) = lc_path (copy_at s (of_copy g)))"
    if f: "open_files s fh = Some f" and g: "open_files s gh = Some g" for fh f gh g
  proof -
    have "of_copy f = of_copy g \<Longrightarrow> of_ino f = of_ino g"
      using own[OF f] own[OF g] open_copies_inj[OF c] by metis
    moreover have "of_ino f = of_ino g \<Longrightarrow> of_copy f = of_copy g"
      using own[OF f] own[OF g] by simp
    moreover have "lc_path (copy_at s (of_copy f)) = local_path_for E (of_ino f)"
      "lc_path (copy_at s (of_copy g)) = local_path_for E (of_ino g)"
      using own[OF f] own[OF g] by (auto simp: copy_ok_def)
    ultimately show ?thesis using local_path_inj by metis
  qed
  have used: "\<exists>fh f. open_files s fh = Some f \<and> of_copy f = d" if "open_copies s i = Some d" for i d
  proof -
    have "0 < card (handles s d)" using copies_okD(5)[OF c that] by (simp add: copy_ok_def holds_def)
    then have "handles s d \<noteq> {}" by auto
    then show ?thesis by (auto simp: handles_def)
  qed
  show ?thesis
    by (intro conjI allI impI) (use bij own share used in blast)+
qed


theorem reachable_handles_witness:
  "copy_ok (demo_env []) 1 1 (copy_at (demo_opened ''data'') 0)"
proof -
  have "reachable (\<lambda>_ _. False) (demo_env []) (demo_opened ''data'')"
  proof (rule reachable.request[OF reachable.start])
    show "serve (\<lambda>_ _. False) (demo_env []) (Open 1) (adb_fs_new 30000000000 (demo_world [] ''data''))
        = (ReplyOpened 1 (file_open_flags default_options), demo_opened ''data'')"
      using demo_open[of "''data''"] by (simp add: demo_start_def)
  qed (simp_all add: adb_fs_new_def ino_table_new_def FUSE_ROOT_INO_def)
  note r = reachable_handles[OF this]
  have o: "open_files (demo_opened ''data'') 1 = Some \<lparr>of_ino = 1, of_copy = 0, of_file = 0\<rparr>"
    by (simp add: demo_opened_def)
  have "handles (demo_opened ''data'') 0 = {1}"
    by (auto simp: handles_def demo_opened_def split: if_splits)
  then show ?thesis using r o by fastforce
qed

end
