(* ===== verification/LocalFiles.thy ===== *)
theory LocalFiles
  imports Serving
begin

text \<open>
  The local files of open copies on the host. The name of a copy's file leads to the node every
  handle of that inode has open, through every request, provided that the calls that leave the
  program (the device, the scratch directory) leave the files of the other copies alone: that is
  the contract \<open>tame_env\<close>.
\<close>

subsection \<open>Files that stay\<close>

definition keeps_files :: "(string \<Rightarrow> bool) \<Rightarrow> host \<Rightarrow> host \<Rightarrow> bool" where
  "keeps_files P h h' = (host_ok h \<longrightarrow> host_ok h' \<and> (\<forall>p. P p \<longrightarrow> h_names h' p = h_names h p
     \<and> (\<forall>n. h_names h p = Some n \<longrightarrow> h_files h' n = h_files h n)))"

lemma keeps_refl [simp]: "keeps_files P h h"
  by (simp add: keeps_files_def)

lemma keeps_trans: "keeps_files P h h' \<Longrightarrow> keeps_files P h' h'' \<Longrightarrow> keeps_files P h h''"
  by (simp add: keeps_files_def)

lemma keeps_mono: "keeps_files P h h' \<Longrightarrow> (\<And>p. Q p \<Longrightarrow> P p) \<Longrightarrow> keeps_files Q h h'"
  by (auto simp: keeps_files_def)

lemma keeps_same: "h_names h' = h_names h \<Longrightarrow> h_files h' = h_files h \<Longrightarrow> h_next h' = h_next h \<Longrightarrow> keeps_files P h h'"
  by (simp add: keeps_files_def host_ok_def)

lemma keeps_fault: "next_fault h = (f, g) \<Longrightarrow> keeps_files P h g"
  by (rule keeps_same) (simp_all add: next_fault_frame)

lemma keeps_node:
  "keeps_files (\<lambda>p. h_names h p \<noteq> Some n) h (h\<lparr>h_files := (h_files h)(n := d)\<rparr>)"
  by (auto simp: keeps_files_def host_ok_def)

lemma keeps_fresh:
  "keeps_files (\<lambda>q. q \<noteq> p) h (h\<lparr>h_names := (h_names h)(p \<mapsto> h_next h),
     h_files := (h_files h)(h_next h := d), h_next := Suc (h_next h)\<rparr>)" (is "keeps_files _ _ ?h")
proof (cases "host_ok h")
  case True
  then have "host_ok ?h" by (rule host_ok_fresh) simp_all
  moreover have "n \<noteq> h_next h" if "h_names h q = Some n" for q n
    using True that by (auto simp: host_ok_def)
  ultimately show ?thesis by (auto simp: keeps_files_def)
qed (simp add: keeps_files_def)

lemma keeps_create: "keeps_files (\<lambda>q. q \<noteq> p) h (snd (host_create p h))"
proof -
  obtain f g where n: "next_fault h = (f, g)" by (cases "next_fault h")
  have "keeps_files (\<lambda>q. q \<noteq> p) g (g\<lparr>h_files := (h_files g)(i := [])\<rparr>)" if "h_names g p = Some i" for i
    using that by (auto simp: keeps_files_def host_ok_def)
  then show ?thesis
    using keeps_trans[OF keeps_fault[OF n] keeps_fresh] keeps_trans[OF keeps_fault[OF n]] keeps_fault[OF n]
    by (auto simp: host_create_def n split: fault.splits option.splits)
qed

lemma keeps_open: "keeps_files P h (snd (host_open p h))"
  by (auto simp: host_open_def split: prod.splits fault.splits option.splits intro: keeps_fault)

lemma keeps_read: "keeps_files P h (snd (host_read_at i off n h))"
  by (auto simp: host_read_at_def split: prod.splits fault.splits intro: keeps_fault)

lemma keeps_node_fault:
  assumes "next_fault h = (f, g)"
  shows "keeps_files (\<lambda>p. h_names h p \<noteq> Some n) h (g\<lparr>h_files := (h_files g)(n := d)\<rparr>)"
proof -
  have "h_names g = h_names h" using next_fault_frame[OF assms] by simp
  then show ?thesis using keeps_trans[OF keeps_fault[OF assms] keeps_node[of g n d]] by simp
qed

lemma keeps_set_len: "keeps_files (\<lambda>p. h_names h p \<noteq> Some i) h (snd (host_set_len i n h))"
  by (auto simp: host_set_len_def split: prod.splits fault.splits intro: keeps_fault keeps_node_fault)

lemma keeps_write: "keeps_files (\<lambda>p. h_names h p \<noteq> Some i) h (snd (host_write_at i off d h))"
  by (auto simp: host_write_at_def split: prod.splits fault.splits intro: keeps_fault keeps_node_fault)

lemma keeps_remove: "keeps_files (\<lambda>q. q \<noteq> p) h (snd (host_remove p h))"
proof -
  have "keeps_files (\<lambda>q. q \<noteq> p) g (g\<lparr>h_names := (h_names g)(p := None)\<rparr>)" for g
    by (auto simp: keeps_files_def host_ok_def)
  then show ?thesis
    using keeps_trans[OF keeps_fault] keeps_fault
    by (auto simp: host_remove_def split: prod.splits fault.splits option.splits)
qed

lemma keeps_mknod: "keeps_files (\<lambda>q. h_names h q \<noteq> None) h (snd (host_mknod p h))"
proof -
  obtain f g where n: "next_fault h = (f, g)" by (cases "next_fault h")
  have k: "keeps_files (\<lambda>q. h_names h q \<noteq> None) h (g\<lparr>h_names := (h_names g)(p \<mapsto> h_next g),
     h_files := (h_files g)(h_next g := []), h_next := Suc (h_next g)\<rparr>)" if "h_names g p = None"
  proof -
    have "q \<noteq> p" if "h_names h q \<noteq> None" for q
      using that \<open>h_names g p = None\<close> next_fault_frame[OF n] by auto
    then show ?thesis
      using keeps_mono[OF keeps_trans[OF keeps_fault[OF n] keeps_fresh[of p g]],
        of "\<lambda>q. h_names h q \<noteq> None"] by blast
  qed
  then show ?thesis
    using keeps_fault[OF n] by (auto simp: host_mknod_def n split: fault.splits option.splits)
qed


subsection \<open>The contract of the environment\<close>

definition is_local :: "'d fs_env \<Rightarrow> string \<Rightarrow> bool" where
  "is_local E p = (\<exists>i. p = local_path_for E i)"

abbreviation w_keeps :: "(string \<Rightarrow> bool) \<Rightarrow> 'd world \<Rightarrow> 'd world \<Rightarrow> bool" where
  "w_keeps P w w' \<equiv> keeps_files P (w_host w) (w_host w')"

locale tame_env =
  fixes E :: "'d fs_env"
  assumes shell_keeps: "w_keeps (is_local E) w (snd (adb_shell (d_adb (e_ops E)) cmd w))"
    and stderr_keeps: "w_keeps (is_local E) w (snd (adb_shell_with_stderr (d_adb (e_ops E)) cmd w))"
    and push_keeps: "w_keeps (is_local E) w (snd (adb_push (d_adb (e_ops E)) l r w))"
    and sync_keeps: "w_keeps (is_local E) w (snd (adb_sync_device (d_adb (e_ops E)) w))"
    and pull_keeps: "w_keeps (\<lambda>p. is_local E p \<and> p \<noteq> l) w (snd (adb_pull (d_adb (e_ops E)) r l w))"
    and tempdir_keeps: "w_keeps (is_local E) w (snd (e_tempdir_in E d w))"
    and drop_keeps: "w_keeps (is_local E) w (e_tempdir_drop E d w)"
begin

definition tame :: "('d world \<Rightarrow> 'r \<times> 'd world) \<Rightarrow> bool" where
  "tame f = (\<forall>w. w_keeps (is_local E) w (snd (f w)))"

lemma tame_try:
  assumes "tame f" "\<And>a. tame (k a)"
  shows "tame (\<lambda>w. try_res (f w) k)"
  unfolding tame_def
proof
  fix w
  obtain r w' where f: "f w = (r, w')" by (cases "f w")
  then have "w_keeps (is_local E) w w'" using assms(1) unfolding tame_def by (metis snd_conv)
  moreover have "w_keeps (is_local E) w' (snd (k a w'))" for a using assms(2) by (simp add: tame_def)
  ultimately show "w_keeps (is_local E) w (snd (try_res (f w) k))"
    using keeps_trans by (cases r) (auto simp: f)
qed

lemma tame_const: "tame (\<lambda>w. (r, w))"
  by (simp add: tame_def)

lemma tame_shell: "tame (run_shell (e_ops E) cmd)"
  using shell_keeps by (simp add: tame_def run_shell_def)

lemma tame_stderr: "tame (run_shell_with_stderr (e_ops E) cmd)"
  using stderr_keeps by (simp add: tame_def run_shell_with_stderr_def)

lemma tame_rescan: "tame (rescan_file (e_ops E) p)" "tame (rescan_dir_removed (e_ops E) p)"
  using tame_try[OF tame_shell tame_const]
  by (simp_all add: rescan_file_def[abs_def] rescan_dir_removed_def[abs_def])

lemma tame_mutation: "tame (run_mutation (e_ops E) cmd)"
  using tame_try[OF tame_stderr tame_const] by (simp add: run_mutation_def[abs_def])

lemma tame_if: "tame f \<Longrightarrow> tame g \<Longrightarrow> tame (\<lambda>w. if b then f w else g w)"
  by (simp add: tame_def)

lemma tame_ops:
  "tame (dev_mkdir (e_ops E) p)" "tame (dev_rm (e_ops E) p)" "tame (dev_rmdir (e_ops E) p)"
  "tame (dev_mv (e_ops E) p q)" "tame (get_metadata (e_ops E) p)" "tame (list_dir (e_ops E) p)"
  "tame (dev_push (e_ops E) l p)" "tame (dev_sync_device (e_ops E))"
  using tame_mutation tame_try[OF tame_mutation tame_if[OF tame_rescan(1) tame_const]]
    tame_try[OF tame_mutation tame_if[OF tame_rescan(2) tame_const]]
    tame_try[OF tame_mutation tame_if[OF tame_try[OF tame_rescan(1) tame_rescan(1)] tame_const]]
    tame_try[OF tame_stderr tame_const] tame_try[OF tame_shell tame_const] push_keeps sync_keeps
  by (simp_all add: dev_mkdir_def[abs_def] dev_rm_def[abs_def] dev_rmdir_def[abs_def] dev_mv_def[abs_def]
      get_metadata_def[abs_def] list_dir_def[abs_def])
    (simp_all add: tame_def dev_push_def dev_sync_device_def)

lemma tame_touch:
  "w_keeps (is_local E) w (snd (snd (dev_touch (e_ops E) p a m (g, w))))"
proof (induction "e_ops E" p a m "(g, w)" arbitrary: g w rule: dev_touch.induct)
  case (1 p a m g w)
  let ?r = "run_shell_with_stderr (e_ops E) (join '' && '' (touch_parts g p a m)) w"
  obtain r w1 where r: "?r = (r, w1)" by (cases ?r)
  then have k: "w_keeps (is_local E) w w1" using tame_stderr unfolding tame_def by (metis snd_conv)
  have rescan: "w_keeps (is_local E) w w2" if "rescan_file (e_ops E) p w1 = (x, w2)" for x w2
    using keeps_trans[OF k] tame_rescan(1) that unfolding tame_def by (metis snd_conv)
  have again: "w_keeps (is_local E) w (snd (snd (dev_touch (e_ops E) p a m (False, w1))))"
    if "touch_parts g p a m \<noteq> []" "r = Ok o1" "first_message o1 = Some msg" "is_date_err msg" "g" for o1 msg
    using keeps_trans[OF k] 1[OF refl] that r by fastforce
  show ?case
    using k rescan again by (subst dev_touch.simps)
      (auto simp: r Let_def split: res.splits option.splits prod.splits)
qed

end

subsection \<open>Handles lead to the files of their copies\<close>

abbreviation host_of :: "'d adb_fs \<Rightarrow> host" where
  "host_of s \<equiv> w_host (fs_world s)"

definition files_ok :: "'d fs_env \<Rightarrow> 'd adb_fs \<Rightarrow> bool" where
  "files_ok E s = (host_ok (host_of s) \<and> (\<forall>fh f. open_files s fh = Some f \<longrightarrow>
     h_names (host_of s) (local_path_for E (of_ino f)) = Some (of_file f)))"

text \<open>A step that keeps the handles and the local files of all inodes outside \<open>X\<close>.\<close>

definition others :: "'d fs_env \<Rightarrow> u64 set \<Rightarrow> string \<Rightarrow> bool" where
  "others E X p = (\<exists>i. i \<notin> X \<and> p = local_path_for E i)"

definition quiet :: "'d fs_env \<Rightarrow> u64 set \<Rightarrow> 'd adb_fs \<Rightarrow> 'd adb_fs \<Rightarrow> bool" where
  "quiet E X s s' = (open_files s' = open_files s \<and> keeps_files (others E X) (host_of s) (host_of s'))"

lemma others_empty [simp]: "others E {} = is_local E"
  by (simp add: others_def is_local_def fun_eq_iff)

lemma quiet_refl [simp, intro]: "quiet E X s s"
  by (simp add: quiet_def)

lemma quiet_trans: "quiet E X s s' \<Longrightarrow> quiet E X s' s'' \<Longrightarrow> quiet E X s s''"
  unfolding quiet_def using keeps_trans by metis

lemma quiet_mono: "quiet E X s s' \<Longrightarrow> X \<subseteq> Y \<Longrightarrow> quiet E Y s s'"
  unfolding quiet_def others_def by (blast intro: keeps_mono)

lemma quiet_same: "open_files s' = open_files s \<Longrightarrow> fs_world s' = fs_world s \<Longrightarrow> quiet E X s s'"
  by (simp add: quiet_def)

lemma quiet_files: "quiet E {} s s' \<Longrightarrow> files_ok E s \<Longrightarrow> files_ok E s'"
  unfolding quiet_def files_ok_def keeps_files_def others_empty is_local_def by metis

lemma quiet_step [simp]:
  "quiet E X s (upd_cache g s)" "quiet E X s (invalidate p s)" "quiet E X s (remember E' p m s)"
  "quiet E X s (mark_dirty c b s)" "quiet E X s (set_copy c k s)" "quiet E X s (s\<lparr>fs_cache := ca\<rparr>)"
  "quiet E X s (s\<lparr>inodes := t\<rparr>)" "quiet E X s (forget_copy i c s)" "quiet E X s (s\<lparr>open_dirs := d\<rparr>)"
  "quiet E X s (s\<lparr>next_fh := n, open_dirs := d\<rparr>)" "quiet E X s (s\<lparr>touch_gnu_mode := b'\<rparr>)"
  by (simp_all add: quiet_same invalidate_def remember_def mark_dirty_def forget_copy_def)

lemma quiet_assign [simp]: "quiet E X s (snd (assign_ino p s))"
  by (simp add: assign_ino_def quiet_same split: prod.splits)

lemma quiet_after_try:
  assumes "quiet E X s (snd r)" and "\<And>a s'. quiet E X s s' \<Longrightarrow> quiet E X s (snd (k a s'))"
  shows "quiet E X s (snd (try_res r k))"
  using assms by (cases r; cases "fst r") auto

lemma quiet_host:
  assumes "keeps_files (others E X) (host_of s) (snd (f (host_of s)))"
  shows "quiet E X s (snd (on_host_fs f s))"
  using assms by (cases "f (host_of s)") (simp add: quiet_def on_host_fs_def on_world_def on_host_def)

lemma quiet_host_open [simp]: "quiet E X s (snd (on_host_fs (host_open p) s))"
  by (rule quiet_host) (rule keeps_open)

lemma quiet_host_read [simp]: "quiet E X s (snd (on_host_fs (host_read_at i off n) s))"
  by (rule quiet_host) (rule keeps_read)

lemma quiet_with_path:
  "(\<And>p. quiet E X s (snd (k p s))) \<Longrightarrow> quiet E X s (snd (with_path ino k s))"
  by (simp add: with_path_def split: option.splits)

context tame_env
begin

lemma quiet_world: "tame f \<Longrightarrow> quiet E {} s (snd (on_world f s))"
  by (simp add: quiet_def on_world_def tame_def split: prod.splits) (metis snd_conv)

lemma quiet_device: "tame f \<Longrightarrow> quiet E {} s (snd (on_device f s))"
  by (simp add: on_device_def quiet_world)

lemma quiet_push_and_sync: "quiet E {} s (snd (push_and_sync E l p s))"
  unfolding push_and_sync_def
  by (rule quiet_after_try) (simp_all add: quiet_world tame_ops quiet_trans[OF _ quiet_world])

lemma quiet_fetch_meta: "quiet E {} s (snd (fetch_meta E p s))"
proof -
  obtain hit c where h: "cache_get p (e_instant_now E (fs_world s)) (fs_cache s) = (hit, c)"
    by (cases "cache_get p (e_instant_now E (fs_world s)) (fs_cache s)")
  let ?s = "s\<lparr>fs_cache := c\<rparr>"
  obtain r s' where w: "on_world (get_metadata (e_ops E) p) ?s = (r, s')"
    by (cases "on_world (get_metadata (e_ops E) p) ?s")
  have "quiet E {} ?s s'" using quiet_world[OF tame_ops(5)] w by (metis snd_conv)
  then have c: "quiet E {} s s'" by (rule quiet_trans[OF quiet_step(6)])
  then have "quiet E {} s (remember E p m s')" for m
    by (rule quiet_trans) (rule quiet_step)
  with c show ?thesis
    by (simp add: fetch_meta_def h w Let_def split: option.splits res.splits device_error.splits)
qed

lemma quiet_push_if_dirty: "quiet E {} s (snd (push_if_dirty E i c s))"
proof -
  let ?s = "mark_dirty c False s"
  have push: "quiet E {} s s'" if "push_and_sync E l p ?s = (r, s')" for l p r s'
    using quiet_push_and_sync[of ?s l p] that quiet_trans[OF quiet_step(4)] by fastforce
  then have "quiet E {} s (mark_dirty c True s')" "quiet E {} s (invalidate q s')"
    if "push_and_sync E l p ?s = (r, s')" for l p r s' q
    using that quiet_trans[OF push quiet_step(4)] quiet_trans[OF push quiet_step(2)] by blast+
  moreover have "quiet E {} s (mark_dirty c True ?s)"
    by (rule quiet_trans[OF quiet_step(4) quiet_step(4)])
  ultimately show ?thesis
    using push by (simp add: push_if_dirty_def Let_def split: prod.splits option.splits res.splits)
qed

lemma quiet_reply_new_entry: "quiet E {} s (snd (reply_new_entry E p s))"
  unfolding reply_new_entry_def
proof (rule quiet_after_try[OF quiet_device[OF tame_ops(5)]])
  fix m s' assume q: "quiet E {} s s'"
  obtain i t where a: "assign_ino p s' = (i, t)" by (cases "assign_ino p s'")
  then have "quiet E {} s t" using quiet_trans[OF q] quiet_assign[of E "{}" s' p] by simp
  then show "quiet E {} s (snd (case assign_ino p s' of (ino, s) \<Rightarrow>
         (Ok (ReplyEntry (entry_timeout (e_opts E)) (meta_to_attr (e_opts E) ino m) 0),
          remember E p (Some m) s)))"
    using quiet_trans[OF _ quiet_step(3)] by (simp add: a)
qed

lemma quiet_opendir_loop: "quiet E {} s (snd (opendir_loop E' p es acc s))"
proof (induction E' p es acc s rule: opendir_loop.induct)
  case (2 E' p name meta es acc s)
  show ?case
  proof (cases "name = ''.'' \<or> name = ''..''")
    case True
    with "2.IH"(1)[OF True] show ?thesis by simp
  next
    case False
    let ?c = "child_path p name"
    obtain i t where a: "assign_ino ?c s = (i, t)" by (cases "assign_ino ?c s")
    let ?t = "case meta of Some m \<Rightarrow> remember E' ?c (Some m) t | None \<Rightarrow> t"
    have "quiet E {} s t" using quiet_assign[of E "{}" s ?c] a by simp
    moreover have "quiet E {} t ?t" by (cases meta) simp_all
    ultimately have "quiet E {} s ?t" by (rule quiet_trans)
    then show ?thesis
      using quiet_trans "2.IH"(2)[OF False refl a[symmetric]] False by (simp add: a Let_def)
  qed
qed simp

end

subsection \<open>The copy protocol and the local files\<close>

lemma files_ok_names:
  assumes "files_ok E s" "open_files s' = open_files s" "host_ok (host_of s')"
    and "\<And>q i. h_names (host_of s) q = Some i \<Longrightarrow> h_names (host_of s') q = Some i"
  shows "files_ok E s'"
  using assms by (auto simp: files_ok_def)

lemma host_create_names:
  "h_names h q = Some i \<Longrightarrow> h_names (snd (host_create p h)) q = Some i"
  by (auto simp: host_create_def split: prod.splits fault.splits option.splits dest!: next_fault_frame)

lemma on_host_world:
  "open_files (snd (on_host_fs f s)) = open_files s"
  "host_of (snd (on_host_fs f s)) = snd (f (host_of s))"
  by (simp_all add: on_host_fs_def) (simp add: on_world_def on_host_def split: prod.splits)

lemma files_ok_create: "files_ok E s \<Longrightarrow> files_ok E (snd (on_host_fs (host_create p) s))"
  by (rule files_ok_names) (auto simp: on_host_world host_create_names files_ok_def host_create_ok)

lemma files_ok_node:
  assumes "files_ok E s" "\<And>h. h_names (snd (f h)) = h_names h" "\<And>h. h_next (snd (f h)) = h_next h"
  shows "files_ok E (snd (on_host_fs f s))"
  by (rule files_ok_names[OF assms(1)])
    (use assms(1) host_ok_cong[OF assms(2,3)] in \<open>simp_all add: on_host_world files_ok_def assms(2)\<close>)

lemma host_write_names: "h_names (snd (host_write_at i off d h)) = h_names h"
  "h_next (snd (host_write_at i off d h)) = h_next h"
  by (auto simp: host_write_at_def split: prod.splits fault.splits dest!: next_fault_frame)

lemma host_set_len_names: "h_names (snd (host_set_len i n h)) = h_names h"
  "h_next (snd (host_set_len i n h)) = h_next h"
  by (auto simp: host_set_len_def split: prod.splits fault.splits dest!: next_fault_frame)

lemma files_ok_drop_handles:
  assumes "files_ok E s" "host_of s' = host_of s"
    and "\<And>fh f. open_files s' fh = Some f \<Longrightarrow> open_files s fh = Some f"
  shows "files_ok E s'"
  using assms by (auto simp: files_ok_def)

text \<open>Without a handle on an inode, its local file may change.\<close>

lemma files_ok_unused:
  assumes "files_ok E s" "quiet E {i} s s'" "\<And>fh f. open_files s fh = Some f \<Longrightarrow> of_ino f \<noteq> i"
  shows "files_ok E s'"
proof -
  have k: "host_ok (host_of s')" "\<And>j. j \<noteq> i \<Longrightarrow>
      h_names (host_of s') (local_path_for E j) = h_names (host_of s) (local_path_for E j)"
    using assms(1,2) by (auto simp: quiet_def keeps_files_def files_ok_def others_def)
  then show ?thesis using assms by (simp add: quiet_def files_ok_def)
qed

lemma quiet_remove: "quiet E {i} s (snd (on_host_fs (host_remove (local_path_for E i)) s))"
  by (rule quiet_host) (rule keeps_mono[OF keeps_remove], auto simp: others_def local_path_inj)

lemma quiet_create: "quiet E {i} s (snd (on_host_fs (host_create (local_path_for E i)) s))"
  by (rule quiet_host) (rule keeps_mono[OF keeps_create], auto simp: others_def local_path_inj)

lemma quiet_release:
  assumes "copies_ok E (Some (i, c)) s"
  shows "quiet E {i} s (snd (release_copy i c s))"
proof -
  note held = held_copy[OF assms]
  let ?s = "set_copy c ((copy_at s c)\<lparr>lc_refs := 0, lc_evicted := True\<rparr>) s"
  obtain r s' where w: "on_host_fs (host_remove (local_path_for E i)) ?s = (r, s')"
    by (cases "on_host_fs (host_remove (local_path_for E i)) ?s")
  then have "quiet E {i} ?s s'" using quiet_remove by (metis snd_conv)
  then have "quiet E {i} s s'" by (rule quiet_trans[OF quiet_step(5)])
  then have q: "quiet E {i} s (forget_copy i c s')" by (rule quiet_trans) (rule quiet_step)
  show ?thesis
  proof (cases "card (handles s c)")
    case 0
    with held w have "release_copy i c s = (Ok (), forget_copy i c s')"
      by (simp add: release_copy_def Let_def)
    with q show ?thesis by simp
  next
    case (Suc n)
    with held show ?thesis by (simp add: release_copy_def Let_def)
  qed
qed

lemma files_ok_release:
  assumes "copies_ok E (Some (i, c)) s" "files_ok E s"
  shows "files_ok E (snd (release_copy i c s))"
proof (cases "card (handles s c) = 0")
  case True
  note held = held_copy[OF assms(1)]
  have "of_ino f \<noteq> i" if "open_files s fh = Some f" for fh f
  proof
    assume "of_ino f = i"
    then have "fh \<in> handles s c" using that copies_okD(2)[OF assms(1) that] held(1)
      by (simp add: handles_def)
    with True finite_handles[OF assms(1), of c] show False by auto
  qed
  with files_ok_unused[OF assms(2) quiet_release[OF assms(1)]] show ?thesis .
next
  case False
  then have "release_copy i c s = (Ok (), set_copy c ((copy_at s c)\<lparr>lc_refs := card (handles s c)\<rparr>) s)"
    using held_copy[OF assms(1)] by (simp add: release_copy_def Let_def)
  with assms(2) show ?thesis by (simp add: quiet_files[OF quiet_step(5)])
qed

lemma copy_entry_world: "copy_entry E i s = (c, s') \<Longrightarrow> fs_world s' = fs_world s \<and> open_files s' = open_files s"
  by (auto simp: copy_entry_def Let_def split: option.splits)

context tame_env
begin

lemma quiet_pull: "quiet E {i} s (snd (on_world (dev_pull (e_ops E) r (local_path_for E i)) s))"
proof -
  have "keeps_files (others E {i}) (host_of s)
      (w_host (snd (adb_pull (d_adb (e_ops E)) r (local_path_for E i) (fs_world s))))"
    by (rule keeps_mono[OF pull_keeps]) (auto simp: others_def is_local_def local_path_inj)
  then show ?thesis
    by (cases "adb_pull (d_adb (e_ops E)) r (local_path_for E i) (fs_world s)")
      (auto simp: quiet_def on_world_def dev_pull_def split: prod.splits
        dest: arg_cong[where f = snd])
qed

lemma quiet_populate:
  assumes "lc_path (copy_at s c) = local_path_for E i"
  shows "quiet E {i} s (snd (populate E c path init s))"
proof (cases init)
  case EmptyInit
  have "quiet E {i} s (snd (try_res (on_host_fs (host_create (local_path_for E i)) s)
      (\<lambda>_ s. (Ok (), mark_dirty c True s))))"
    by (rule quiet_after_try[OF quiet_create]) (auto intro: quiet_trans[OF _ quiet_step(4)])
  with EmptyInit assms show ?thesis by (simp add: populate_def)
next
  case PullInit
  with assms quiet_pull show ?thesis by (simp add: populate_def)
qed

lemma files_ok_populate_open:
  assumes "files_ok E s" "lc_pulled (copy_at s c)"
  shows "files_ok E (snd (populate E c path init s))"
proof (cases init)
  case EmptyInit
  let ?h = "on_host_fs (host_create (lc_path (copy_at s c))) s"
  have "files_ok E (snd ?h)" by (rule files_ok_create[OF assms(1)])
  then have "files_ok E (snd (try_res ?h (\<lambda>_ s. (Ok (), mark_dirty c True s))))"
    using quiet_files[OF quiet_step(4)] by (cases ?h; cases "fst ?h") auto
  with EmptyInit show ?thesis by (simp add: populate_def)
next
  case PullInit
  with assms show ?thesis by (simp add: populate_def)
qed

lemma acquire_files:
  assumes "copies_ok E None s" "files_ok E s"
  shows "files_ok E (snd (acquire_copy E i path init s)) \<and> quiet E {i} s (snd (acquire_copy E i path init s))"
proof -
  obtain c s1 where e: "copy_entry E i s = (c, s1)" by (cases "copy_entry E i s")
  note ent = copy_entry_entered[OF assms(1) e]
  note same = copy_entry_world[OF e]
  obtain r s2 where p: "populate E c path init s1 = (r, s2)" by (cases "populate E c path init s1")
  have "quiet E {i} s1 s2"
    using quiet_populate[of s1 c i path init] ent(1) p by (simp add: entered_def)
  then have q: "quiet E {i} s s2" using same by (simp add: quiet_def)
  have f1: "files_ok E s1" using assms(2) same by (simp add: files_ok_def)
  have f2: "files_ok E s2"
  proof (cases "lc_pulled (copy_at s1 c)")
    case True
    with files_ok_populate_open[OF f1 True, of path init] p show ?thesis by simp
  next
    case False
    then have "card (handles s1 c) = 0" using ent(1) by (auto simp: entered_def)
    moreover have "handles s1 c \<subseteq> dom (open_files s1)" by (auto simp: handles_def)
    then have "finite (handles s1 c)" using ent(1) finite_subset by (auto simp: entered_def)
    ultimately have "handles s1 c = {}" by simp
    then have "of_ino f \<noteq> i" if "open_files s fh = Some f" for fh f
      using that same ent(1) by (fastforce simp: entered_def handles_def)
    then show ?thesis by (rule files_ok_unused[OF assms(2) q])
  qed
  obtain x s' where a: "acquire_round E i path init s = (Some x, s')"
    using acquire_round_ok[OF assms(1)] by metis
  have "s' = s2 \<or> (\<exists>k. s' = set_copy c k s2) \<or> (\<exists>k. s' = forget_copy i c (set_copy c k s2))"
    using a ent(1) by (auto simp: acquire_round_def e p entered_def split: res.splits if_splits)
  then have "quiet E {} s2 s'"
    using quiet_trans[OF quiet_step(5) quiet_step(8)] by auto
  then have "files_ok E s'" "quiet E {i} s s'"
    using quiet_files f2 quiet_trans[OF q quiet_mono] by blast+
  then show ?thesis using acquire_copy_round[OF assms(1) a] by simp
qed

end

subsection \<open>Whole requests\<close>

text \<open>The inodes whose local file a request may change.\<close>

fun touches :: "request \<Rightarrow> 'd adb_fs \<Rightarrow> u64 set" where
  "touches (Open ino) s = (if open_copies s ino = None then {ino} else {})"
| "touches (Write fh off d) s = (case open_files s fh of Some f \<Rightarrow> {of_ino f} | None \<Rightarrow> {})"
| "touches (Release fh) s = (case open_files s fh of
     Some f \<Rightarrow> (if handles s (of_copy f) = {fh} then {of_ino f} else {}) | None \<Rightarrow> {})"
| "touches (Setattr ino sz a m) s = (if sz = None then {} else {ino})"
| "touches (Create parent name) s = (case ino_path parent s of
     Some p \<Rightarrow> {fst (assign_ino (child_path p name) s)} | None \<Rightarrow> {})"
| "touches req s = {}"

definition keeps_all :: "'d fs_env \<Rightarrow> u64 set \<Rightarrow> 'd adb_fs \<Rightarrow> 'd adb_fs \<Rightarrow> bool" where
  "keeps_all E X s s' = (files_ok E s' \<and> keeps_files (others E X) (host_of s) (host_of s'))"

lemma keeps_all_quiet: "files_ok E s \<Longrightarrow> quiet E {} s s' \<Longrightarrow> keeps_all E X s s'"
  using quiet_files[of E s s'] quiet_mono[of E "{}" s s' X] by (simp add: keeps_all_def quiet_def)

lemma keeps_all_trans_quiet: "keeps_all E X s s' \<Longrightarrow> quiet E {} s' s'' \<Longrightarrow> keeps_all E X s s''"
  using quiet_files[of E s' s''] quiet_mono[of E "{}" s' s'' X] keeps_trans
  by (auto simp: keeps_all_def quiet_def)

text \<open>A held reference and the local files, as the pre- and post-condition of the steps between
  \<open>acquire_copy\<close> and \<open>release_copy\<close>.\<close>

definition held_files :: "'d fs_env \<Rightarrow> u64 \<Rightarrow> 'd adb_fs \<Rightarrow> nat \<Rightarrow> 'd adb_fs \<Rightarrow> bool" where
  "held_files E i s c s' = (copies_ok E (Some (i, c)) s' \<and> keeps_all E {i} s s')"

lemma held_files_core:
  "same_core s' s'' \<Longrightarrow> quiet E {} s' s'' \<Longrightarrow> held_files E i s c s' \<Longrightarrow> held_files E i s c s''"
  using same_core_copies keeps_all_trans_quiet by (fastforce simp: held_files_def)

lemma held_release:
  assumes "held_files E i s c s'"
  shows "post (release_copy i c s') (\<lambda>_. keeps_all E {i} s) (\<lambda>_ _. False)"
proof -
  have h: "copies_ok E (Some (i, c)) s'" "files_ok E s'" "keeps_files (others E {i}) (host_of s) (host_of s')"
    using assms by (auto simp: held_files_def keeps_all_def)
  obtain t where t: "release_copy i c s' = (Ok (), t)"
    using release_copy_ok(2)[OF h(1)] by (cases "release_copy i c s'") auto
  have "files_ok E t" "quiet E {i} s' t"
    using files_ok_release[OF h(1,2)] quiet_release[OF h(1)] t by simp_all
  then have "keeps_all E {i} s t" using keeps_trans[OF h(3)] by (simp add: keeps_all_def quiet_def)
  then show ?thesis by (simp add: t)
qed

lemma held_release_err:
  "held_files E i s c s' \<Longrightarrow>
   post (try_res (release_copy i c s') (\<lambda>_ s. (Err e, s))) (\<lambda>_. keeps_all E {i} s) (\<lambda>_. keeps_all E {i} s)"
  using held_release[of E i s c s'] by (auto elim!: post_mono)

lemma held_insert:
  assumes "held_files E i s c s'" "insert_handle i c n s' = (fh, t)"
    and "h_names (host_of s') (local_path_for E i) = Some n"
  shows "keeps_all E {i} s t"
  using assms by (auto simp: held_files_def keeps_all_def insert_handle_def Let_def files_ok_def split: if_splits)

lemma host_open_Ok:
  "host_open p h = (Ok n, h') \<Longrightarrow> h_names h' p = Some n"
  by (auto simp: host_open_def split: prod.splits fault.splits option.splits)

lemma on_host_fs_result: "on_host_fs f s = (r, s') \<Longrightarrow> f (host_of s) = (r, host_of s')"
  by (auto simp: on_host_fs_def on_world_def on_host_def split: prod.splits)

context tame_env
begin

lemma held_acquire:
  assumes "copies_ok E None s" "files_ok E s"
  shows "post (acquire_copy E i path init s) (held_files E i s) (\<lambda>_. keeps_all E {i} s)"
proof -
  note f = acquire_files[OF assms, of i path init]
  have k: "keeps_all E {i} s t" if "acquire_copy E i path init s = (r, t)" for r t
    using f that by (simp add: keeps_all_def quiet_def)
  show ?thesis
    using post_conj[OF acquire_copy_ok[OF assms(1), of i path init] post_iff[THEN iffD2]] k
    unfolding post_iff held_files_def by (metis (no_types, lifting) acquire_copy_ok[OF assms(1)] post_simps(1))
qed

lemma truncate_files:
  assumes "files_ok E s" "lc_path (copy_at s c) = local_path_for E i"
    and "truncate_and_push E i c n s = (r, t)"
  shows "files_ok E t \<and> quiet E {i} s t"
proof -
  obtain x s1 where o: "on_host_fs (host_open (local_path_for E i)) s = (x, s1)"
    by (cases "on_host_fs (host_open (local_path_for E i)) s")
  have q1: "quiet E {} s s1" using quiet_host_open o by (metis snd_conv)
  have f1: "files_ok E s1" by (rule quiet_files[OF q1 assms(1)])
  show ?thesis
  proof (cases x)
    case (Ok f)
    have name: "h_names (host_of s1) (local_path_for E i) = Some f"
      using on_host_fs_result[OF o] host_open_Ok by (simp add: Ok)
    obtain y s2 where l: "on_host_fs (host_set_len f n) s1 = (y, s2)"
      by (cases "on_host_fs (host_set_len f n) s1")
    have f2: "files_ok E s2"
      using files_ok_node[OF f1, of "host_set_len f n"] l by (simp add: host_set_len_names)
    have ok: "host_ok (host_of s1)" using f1 by (simp add: files_ok_def)
    have "h_names (host_of s1) p \<noteq> Some f" if "others E {i} p" for p
    proof
      assume "h_names (host_of s1) p = Some f"
      with name ok have "p = local_path_for E i" by (auto simp: host_ok_def)
      with that show False by (auto simp: others_def local_path_inj)
    qed
    then have "quiet E {i} s1 (snd (on_host_fs (host_set_len f n) s1))"
      by (intro quiet_host keeps_mono[OF keeps_set_len])
    then have q2: "quiet E {i} s s2" using quiet_trans[OF quiet_mono[OF q1]] l by simp
    let ?p = "push_if_dirty E i c (mark_dirty c True s2)"
    have p: "quiet E {} s2 (snd ?p)" by (rule quiet_trans[OF quiet_step(4) quiet_push_if_dirty])
    have "files_ok E (snd ?p)" "quiet E {i} s (snd ?p)"
      using quiet_files[OF p f2] quiet_trans[OF q2 quiet_mono[OF p]] by simp_all
    with assms(2,3) o l f2 q2 show ?thesis
      by (cases y) (auto simp: truncate_and_push_def Ok)
  qed (use assms(2,3) o f1 quiet_mono[OF q1, of "{i}"] in \<open>auto simp: truncate_and_push_def\<close>)
qed

lemma held_truncate:
  assumes "copies_ok E None s" "files_ok E s"
  shows "post (truncate_file E i path n s) (\<lambda>_. keeps_all E {i} s) (\<lambda>_. keeps_all E {i} s)"
proof -
  let ?init = "if n = 0 then EmptyInit else PullInit"
  let ?k = "\<lambda>c s. case truncate_and_push E i c n s of
      (Panicked, s) \<Rightarrow> (Panicked, s)
    | (Ok _, s) \<Rightarrow> release_copy i c s
    | (Err e, s) \<Rightarrow> try_res (release_copy i c s) (\<lambda>_ s. (Err e, s))"
  have "post (?k c s') (\<lambda>_. keeps_all E {i} s) (\<lambda>_. keeps_all E {i} s)" if h: "held_files E i s c s'" for c s'
  proof -
    obtain r t where t: "truncate_and_push E i c n s' = (r, t)"
      by (cases "truncate_and_push E i c n s'")
    have lp: "lc_path (copy_at s' c) = local_path_for E i" using h held_copy(2) by (auto simp: held_files_def)
    have core: "same_core s' t" using core_truncate_and_push t by (metis snd_conv)
    have "files_ok E t \<and> quiet E {i} s' t"
      by (rule truncate_files[OF _ lp t]) (use h in \<open>simp add: held_files_def keeps_all_def\<close>)
    then have "held_files E i s c t"
      using h same_core_copies[OF core] keeps_trans
      by (auto simp: held_files_def keeps_all_def quiet_def)
    then show ?thesis
      using held_release[of E i s c t] held_release_err[of E i s c t]
      by (cases r) (auto simp: t elim!: post_mono)
  qed
  then have "post (try_res (acquire_copy E i path ?init s) ?k) (\<lambda>_. keeps_all E {i} s) (\<lambda>_. keeps_all E {i} s)"
    by (intro post_try post_mono[OF held_acquire[OF assms]]) auto
  then show ?thesis by (simp add: truncate_file_def Let_def)
qed

end

end
