(* ===== verification/Isolation.thy ===== *)
theory Isolation
  imports LocalFiles
begin

text \<open>
  Every request and the local files of the open copies: which inode's file a request may change,
  that it changes no other, and that every descriptor stays the file its copy is named for. The
  contract on the calls that leave the program is met by the test double, and by the command line
  transport if the \<open>adb\<close> program writes only the file a pull names.
\<close>

subsection \<open>Requests that leave every local file alone\<close>

context tame_env
begin

lemma quiet_answer_path:
  "(\<And>p. quiet E X s (snd (k p s))) \<Longrightarrow> quiet E X s (snd (answer (with_path ino k s)))"
  by (simp add: quiet_with_path)

lemma quiet_getattr: "quiet E {} s (snd (fs_getattr E ino s))"
  unfolding fs_getattr_def
  by (rule quiet_answer_path, rule quiet_after_try) (simp_all add: quiet_fetch_meta)

lemma quiet_readlink: "quiet E {} s (snd (fs_readlink E ino s))"
  unfolding fs_readlink_def
proof (rule quiet_answer_path, rule quiet_after_try)
  fix p m s' assume "quiet E {} s s'"
  then show "quiet E {} s (snd (try_res (map_err_res device_err (resolve_symlink p (m_raw_line m), s'))
      (\<lambda>target s. (Ok (ReplyData target), s))))"
    by (intro quiet_after_try) simp_all
qed (simp add: quiet_fetch_meta)

lemma quiet_lookup: "quiet E {} s (snd (fs_lookup E parent name s))"
  unfolding fs_lookup_def
proof (rule quiet_answer_path, unfold Let_def)
  fix pp
  let ?p = "child_path pp name"
  obtain r t where f: "fetch_meta E ?p s = (r, t)" by (cases "fetch_meta E ?p s")
  then have t: "quiet E {} s t" using quiet_fetch_meta by (metis snd_conv)
  obtain i u where a: "assign_ino ?p t = (i, u)" by (cases "assign_ino ?p t")
  then have "quiet E {} s u" using quiet_trans[OF t] quiet_assign by (metis snd_conv)
  with t show "quiet E {} s (snd (case fetch_meta E ?p s of
       (Ok meta, s) \<Rightarrow> (case assign_ino ?p s of (ino, s) \<Rightarrow>
           (Ok (ReplyEntry (entry_timeout (e_opts E)) (meta_to_attr (e_opts E) ino meta) 0), s))
     | (Err e, s) \<Rightarrow>
         (if (case e of NotFound _ \<Rightarrow> True | _ \<Rightarrow> False) \<and> negative_timeout (e_opts E) \<noteq> 0
          then (Ok (ReplyEntry (negative_timeout (e_opts E)) NEGATIVE_ENTRY 0), s)
          else (Err (device_err e), s))
     | (Panicked, s) \<Rightarrow> (Panicked, s)))"
    by (cases r) (simp_all add: f a)
qed

lemma quiet_opendir: "quiet E {} s (snd (fs_opendir E ino s))"
  unfolding fs_opendir_def
proof (rule quiet_answer_path, rule quiet_after_try)
  fix p es s' assume q: "quiet E {} s s'"
  let ?l = "opendir_loop E p es [(ino, Directory, ''.''), (ino, Directory, ''..'')] s'"
  obtain d u where l: "?l = (d, u)" by (cases ?l)
  then have "quiet E {} s u" using quiet_trans[OF q] quiet_opendir_loop by (metis snd_conv)
  then show "quiet E {} s (snd (case ?l of (full_entries, s) \<Rightarrow> let fh = next_fh s in
      (Ok (ReplyOpened fh no_flags), s\<lparr>next_fh := fh + 1, open_dirs := (open_dirs s)(fh \<mapsto> full_entries)\<rparr>)))"
    using quiet_trans[OF _ quiet_step(10)] by (simp add: l Let_def)
qed (simp add: quiet_device tame_ops)

lemma quiet_read: "quiet E {} s (snd (fs_read fh off n s))"
  by (cases "open_files s fh") (simp_all add: fs_read_def quiet_after_try)

lemma quiet_flush: "quiet E {} s (snd (fs_flush E fh s))"
  by (cases "open_files s fh") (simp_all add: fs_flush_def quiet_after_try quiet_push_if_dirty)

lemma quiet_unlink: "quiet E {} s (snd (fs_unlink E parent name s))"
  unfolding fs_unlink_def Let_def
  by (rule quiet_answer_path, rule quiet_after_try)
    (auto simp: quiet_device tame_ops intro: quiet_trans[OF _ quiet_step(2)])

lemma quiet_rmdir: "quiet E {} s (snd (fs_rmdir E parent name s))"
  unfolding fs_rmdir_def Let_def
  by (rule quiet_answer_path, rule quiet_after_try)
    (auto simp: quiet_device tame_ops intro: quiet_trans[OF _ quiet_step(1)])

lemma quiet_mkdir: "quiet E {} s (snd (fs_mkdir E parent name s))"
  unfolding fs_mkdir_def Let_def
proof (rule quiet_answer_path, rule quiet_after_try)
  fix p u s' assume "quiet E {} s s'"
  then have "quiet E {} s (invalidate (child_path p name) s')" by (rule quiet_trans) (rule quiet_step)
  then show "quiet E {} s (snd (reply_new_entry E (child_path p name) (invalidate (child_path p name) s')))"
    by (rule quiet_trans) (rule quiet_reply_new_entry)
qed (simp add: quiet_device tame_ops)

lemma quiet_rename: "quiet E {} s (snd (fs_rename E parent name newparent newname s))"
proof (cases "ino_path parent s = None \<or> ino_path newparent s = None")
  case True
  then show ?thesis by (auto simp: fs_rename_def Let_def split: option.splits)
next
  case False
  then obtain p q where pq: "ino_path parent s = Some p" "ino_path newparent s = Some q" by auto
  have "quiet E {} s (snd (try_res (on_device (dev_mv (e_ops E) a b) s) (\<lambda>_ s.
      let s = s\<lparr>inodes := rekey_paths (e_iter E (path_to_ino (inodes s))) a b (inodes s)\<rparr>
      in (Ok ReplyOk,
          upd_cache (cache_invalidate_prefix b) (upd_cache (cache_invalidate_prefix a) s)))))" for a b
    by (rule quiet_after_try)
      (auto simp: quiet_device tame_ops Let_def intro: quiet_trans[OF quiet_trans[OF quiet_trans[OF _ quiet_step(7)] quiet_step(1)] quiet_step(1)])
  then show ?thesis by (simp add: fs_rename_def pq)
qed

lemma quiet_touch: "quiet E {} s (snd (fs_touch E p a m s))"
proof -
  obtain r g w where t: "dev_touch (e_ops E) p a m (touch_gnu_mode s, fs_world s) = (r, g, w)"
    by (cases "dev_touch (e_ops E) p a m (touch_gnu_mode s, fs_world s)")
  then show ?thesis
    using tame_touch[of "fs_world s" p a m "touch_gnu_mode s"] by (simp add: fs_touch_def quiet_def)
qed

end

subsection \<open>Requests that change one local file\<close>

text \<open>A copy that is in the map is shared as it is: nothing is pulled.\<close>

lemma acquire_shared:
  assumes "copies_ok E None s" "open_copies s i = Some c"
  shows "acquire_copy E i path PullInit s = (Ok c,
    set_copy c ((copy_at s c)\<lparr>lc_refs := Suc (lc_refs (copy_at s c))\<rparr>) s)"
proof -
  have k: "copy_ok E i (card (handles s c)) (copy_at s c)"
    using copies_okD(5)[OF assms] by (simp add: holds_def)
  then have e: "(copy_at s c)\<lparr>lc_pulled := True, lc_refs := n\<rparr> = (copy_at s c)\<lparr>lc_refs := n\<rparr>" for n
    by (cases "copy_at s c") (simp add: copy_ok_def)
  from k assms(2) show ?thesis
    by (simp add: e acquire_copy_def numeral_2_eq_2 acquire_round_def copy_entry_def copy_ok_def populate_def)
qed

text \<open>The node of one inode's file has no other local name.\<close>

lemma others_node:
  assumes "host_ok h" "h_names h (local_path_for E i) = Some n" "others E {i} p"
  shows "h_names h p \<noteq> Some n"
proof
  assume "h_names h p = Some n"
  with assms(1,2) have "p = local_path_for E i" unfolding host_ok_def by blast
  with assms(3) show False by (simp add: others_def local_path_inj)
qed

text \<open>Replies of requests as post-conditions over the local files.\<close>

lemma keeps_all_answer:
  assumes "post r (\<lambda>_. keeps_all E X s) (\<lambda>_. keeps_all E X s)" "fst (answer r) \<noteq> NoReply"
  shows "keeps_all E X s (snd (answer r))"
  by (rule answer_post[OF assms])

lemma keeps_all_same: "files_ok E s \<Longrightarrow> keeps_all E X s s"
  by (simp add: keeps_all_def)

lemma keeps_all_path:
  assumes "files_ok E s" and "\<And>p. ino_path ino s = Some p \<Longrightarrow> post (k p s) (\<lambda>_. keeps_all E X s) (\<lambda>_. keeps_all E X s)"
  shows "post (with_path ino k s) (\<lambda>_. keeps_all E X s) (\<lambda>_. keeps_all E X s)"
  using assms keeps_all_same[OF assms(1)] by (simp add: with_path_def split: option.splits)

lemma keeps_all_mono: "keeps_all E X s s' \<Longrightarrow> X \<subseteq> Y \<Longrightarrow> keeps_all E Y s s'"
  using keeps_mono[of "others E X" "host_of s" "host_of s'" "others E Y"]
  by (auto simp: keeps_all_def others_def)

lemma post_quiet:
  assumes "keeps_all E X s0 s" "quiet E {} s (snd r)"
  shows "post r (\<lambda>_. keeps_all E X s0) (\<lambda>_. keeps_all E X s0)"
  using keeps_all_trans_quiet[OF assms] by (cases r; cases "fst r") auto

lemma files_ok_write:
  assumes "fs_ok E s" "files_ok E s"
  shows "keeps_all E (touches (Write fh off d) s) s (snd (fs_write fh off d s))"
proof (cases "open_files s fh")
  case None
  with assms show ?thesis by (simp add: fs_write_def keeps_all_same)
next
  case (Some f)
  let ?w = "on_host_fs (host_write_at (of_file f) off d) s"
  have name: "h_names (host_of s) (local_path_for E (of_ino f)) = Some (of_file f)" and ok: "host_ok (host_of s)"
    using assms(2) Some by (auto simp: files_ok_def)
  have q: "quiet E {of_ino f} s (snd ?w)"
    by (rule quiet_host, rule keeps_mono[OF keeps_write]) (rule others_node[OF ok name])
  have "files_ok E (snd ?w)"
    by (rule files_ok_node[OF assms(2)]) (simp_all add: host_write_names)
  with q have "keeps_all E {of_ino f} s (snd ?w)" by (simp add: keeps_all_def quiet_def)
  then have "keeps_all E {of_ino f} s (snd (try_res ?w
      (\<lambda>n s. (Ok (ReplyWritten (of_nat n)), mark_dirty (of_copy f) True s))))"
    using keeps_all_trans_quiet[OF _ quiet_step(4)] by (cases ?w; cases "fst ?w") auto
  then show ?thesis by (simp add: fs_write_def Some)
qed

lemma files_ok_fs_release:
  assumes "fs_ok E s" "files_ok E s"
  shows "keeps_all E (touches (Release fh) s) s (snd (fs_release fh s))"
proof (cases "open_files s fh")
  case None
  with assms show ?thesis by (simp add: fs_release_def keeps_all_same)
next
  case (Some f)
  let ?s = "s\<lparr>open_files := (open_files s)(fh := None)\<rparr>" and ?c = "of_copy f"
  have c: "copies_ok E (Some (of_ino f, ?c)) ?s"
    using remove_handle_held[OF _ Some] assms(1) by (simp add: fs_ok_def)
  have f: "files_ok E ?s" by (rule files_ok_drop_handles[OF assms(2)]) (auto split: if_splits)
  obtain s' where r: "release_copy (of_ino f) ?c ?s = (Ok (), s')"
    using release_copy_ok(2)[OF c] by (cases "release_copy (of_ino f) ?c ?s") auto
  have ok: "files_ok E s'" using files_ok_release[OF c f] by (simp add: r)
  have "keeps_files (others E (touches (Release fh) s)) (host_of s) (host_of s')"
  proof (cases "handles s ?c = {fh}")
    case True
    then show ?thesis using quiet_release[OF c] by (simp add: r quiet_def Some)
  next
    case False
    have "fh \<in> handles s ?c" using Some by (simp add: handles_def)
    then obtain gh where "gh \<in> handles s ?c" "gh \<noteq> fh" using False by blast
    then have "gh \<in> handles ?s ?c" by (auto simp: handles_def)
    then have "card (handles ?s ?c) \<noteq> 0"
      using card_0_eq[OF finite_handles[OF c, of ?c]] by blast
    then have "release_copy (of_ino f) ?c ?s
        = (Ok (), set_copy ?c ((copy_at ?s ?c)\<lparr>lc_refs := card (handles ?s ?c)\<rparr>) ?s)"
      using held_copy[OF c] by (simp add: release_copy_def Let_def)
    then have "s' = set_copy ?c ((copy_at ?s ?c)\<lparr>lc_refs := card (handles ?s ?c)\<rparr>) ?s"
      using r by simp
    then show ?thesis by simp
  qed
  with ok show ?thesis by (simp add: fs_release_def Some r keeps_all_def)
qed

context tame_env
begin

lemma held_open:
  assumes "held_files E i s c s'"
  shows "post (case on_host_fs (host_open (lc_path (copy_at s' c))) s' of
        (Ok f, s) \<Rightarrow> (case insert_handle i c f s of (fh, s) \<Rightarrow> (Ok (ReplyOpened fh g), s))
      | (Err e, s) \<Rightarrow> try_res (release_copy i c s) (\<lambda>_ s. (Err e, s))
      | (Panicked, s) \<Rightarrow> (Panicked, s)) (\<lambda>_. keeps_all E {i} s) (\<lambda>_. keeps_all E {i} s)"
proof -
  have p: "lc_path (copy_at s' c) = local_path_for E i" using assms held_copy(2) by (auto simp: held_files_def)
  obtain r t where o: "on_host_fs (host_open (local_path_for E i)) s' = (r, t)"
    by (cases "on_host_fs (host_open (local_path_for E i)) s'")
  have "same_core s' t" "quiet E {} s' t" using core_on_host quiet_host_open o by (metis snd_conv)+
  note h = held_files_core[OF this assms]
  show ?thesis
  proof (cases r)
    case (Ok f)
    obtain fh u where i: "insert_handle i c f t = (fh, u)" by (cases "insert_handle i c f t")
    have "h_names (host_of t) (local_path_for E i) = Some f"
      using on_host_fs_result[OF o] host_open_Ok by (simp add: Ok)
    then show ?thesis using held_insert[OF h i] by (simp add: p o Ok i)
  qed (use held_release_err[OF h] in \<open>simp_all add: p o\<close>)
qed

lemma files_open:
  assumes "fs_ok E s" "files_ok E s" "fst (fs_open E ino s) \<noteq> NoReply"
  shows "keeps_all E {ino} s (snd (fs_open E ino s))"
proof -
  have c: "copies_ok E None s" using assms(1) by (simp add: fs_ok_def)
  show ?thesis
    unfolding fs_open_def
    by (rule keeps_all_answer[OF _ assms(3)[unfolded fs_open_def]], rule keeps_all_path[OF assms(2)],
        rule post_try, rule post_mono[OF held_acquire[OF c assms(2)]]) (use held_open in blast)+
qed

text \<open>An open of a copy that is there only adds a handle.\<close>

lemma quiet_open_shared:
  assumes "fs_ok E s" "files_ok E s" "open_copies s ino = Some c"
  shows "keeps_files (is_local E) (host_of s) (host_of (snd (fs_open E ino s)))"
proof -
  have c: "copies_ok E None s" using assms(1) by (simp add: fs_ok_def)
  let ?s = "set_copy c ((copy_at s c)\<lparr>lc_refs := Suc (lc_refs (copy_at s c))\<rparr>) s"
  have p: "lc_path (copy_at s c) = local_path_for E ino" and "0 < lc_refs (copy_at s c)"
    "\<not> lc_poisoned (copy_at s c)"
    using copies_okD(5)[OF c assms(3)] by (auto simp: copy_ok_def)
  obtain r t where o: "on_host_fs (host_open (local_path_for E ino)) ?s = (r, t)"
    by (cases "on_host_fs (host_open (local_path_for E ino)) ?s")
  have q: "quiet E {} ?s t" and "same_core ?s t" using core_on_host quiet_host_open o by (metis snd_conv)+
  then have k: "lc_refs (copy_at t c) = Suc (lc_refs (copy_at s c))" "lc_poisoned (copy_at t c) = lc_poisoned (copy_at s c)"
    using same_core_copy(1,5)[OF \<open>same_core ?s t\<close>, of c] by simp_all
  have "release_copy ino c t = (Ok (), set_copy c ((copy_at t c)\<lparr>lc_refs := lc_refs (copy_at s c)\<rparr>) t)"
    using k \<open>0 < lc_refs (copy_at s c)\<close> \<open>\<not> lc_poisoned (copy_at s c)\<close>
    by (simp add: release_copy_def Let_def)
  moreover have "keeps_files (is_local E) (host_of s) (host_of t)" using q by (simp add: quiet_def)
  ultimately show ?thesis
    by (cases r) (simp_all add: fs_open_def with_path_def acquire_shared[OF c assms(3)] p o
        insert_handle_def Let_def split: option.splits)
qed

end

context tame_env
begin

lemma files_setattr:
  assumes "fs_ok E s" "files_ok E s" "fst (fs_setattr E ino sz a m s) \<noteq> NoReply"
  shows "keeps_all E (if sz = None then {} else {ino}) s (snd (fs_setattr E ino sz a m s))" (is "keeps_all E ?X s _")
  unfolding fs_setattr_def
proof (rule keeps_all_answer[OF _ assms(3)[unfolded fs_setattr_def]], rule keeps_all_path[OF assms(2)],
    rule post_try)
  fix p
  let ?k = "\<lambda>_ s. let a = map_option (resolve_time E s) a; m = map_option (resolve_time E s) m
      in try_res (if a \<noteq> None \<or> m \<noteq> None
          then try_res (fs_touch E p a m s) (\<lambda>_ s. (Ok (), invalidate p s)) else (Ok (), s))
        (\<lambda>_ s. try_res (on_device (get_metadata (e_ops E) p) s) (\<lambda>meta s.
          (Ok (ReplyAttr (attr_timeout (e_opts E)) (meta_to_attr (e_opts E) ino meta)),
           remember E p (Some meta) s)))"
  have "quiet E {} t (snd (?k u t))" for u :: unit and t
  proof -
    have touch: "quiet E {} t (snd (try_res (fs_touch E p a m t) (\<lambda>_ s. (Ok (), invalidate p s))))" for a m
      by (rule quiet_after_try[OF quiet_touch]) (auto intro: quiet_trans[OF _ quiet_step(2)])
    have meta: "quiet E {} t (snd (try_res (on_device (get_metadata (e_ops E) p) s') (\<lambda>meta s.
          (Ok (ReplyAttr (attr_timeout (e_opts E)) (meta_to_attr (e_opts E) ino meta)),
           remember E p (Some meta) s))))" if "quiet E {} t s'" for s'
      by (rule quiet_after_try[OF quiet_trans[OF that quiet_device[OF tame_ops(5)]]])
        (auto intro: quiet_trans[OF _ quiet_step(3)])
    show ?thesis
      unfolding Let_def by (rule quiet_after_try[OF _ meta]) (auto intro: touch)
  qed
  then have k: "post (?k u t) (\<lambda>_. keeps_all E ?X s) (\<lambda>_. keeps_all E ?X s)" if "keeps_all E ?X s t" for u :: unit and t
    by (rule post_quiet[OF that])
  have c: "copies_ok E None s" using assms(1) by (simp add: fs_ok_def)
  have "post (case sz of Some n \<Rightarrow> truncate_file E ino p n s | None \<Rightarrow> (Ok (), s))
      (\<lambda>_. keeps_all E ?X s) (\<lambda>_. keeps_all E ?X s)"
    using held_truncate[OF c assms(2)] keeps_all_same[OF assms(2)] by (cases sz) simp_all
  then show "post (case sz of Some n \<Rightarrow> truncate_file E ino p n s | None \<Rightarrow> (Ok (), s))
      (\<lambda>u t. post (?k u t) (\<lambda>_. keeps_all E ?X s) (\<lambda>_. keeps_all E ?X s)) (\<lambda>_. keeps_all E ?X s)"
    by (rule post_mono) (use k in blast)+
qed

text \<open>What \<open>create\<close> does with the copy: the open descriptor leads to the copy's file.\<close>

lemma quiet_create_opened:
  assumes "create_opened E i c p s = (r, t)"
  shows "quiet E {} s t" and "r = Ok (f, meta) \<Longrightarrow> files_ok E s \<Longrightarrow> lc_path (copy_at s c) = local_path_for E j
    \<Longrightarrow> h_names (host_of t) (local_path_for E j) = Some f"
proof -
  let ?rest = "\<lambda>f s. try_res (push_if_dirty E i c s) (\<lambda>_ s.
      try_res (on_device (get_metadata (e_ops E) p) s) (\<lambda>meta s. (Ok (f, meta), s)))"
  have rest: "quiet E {} u (snd (?rest f u))" for f :: nat and u
    by (rule quiet_after_try[OF quiet_push_if_dirty], rule quiet_after_try)
      (auto intro: quiet_trans[OF _ quiet_device[OF tame_ops(5)]])
  obtain x u where o: "on_host_fs (host_open (lc_path (copy_at s c))) s = (x, u)"
    by (cases "on_host_fs (host_open (lc_path (copy_at s c))) s")
  then have q: "quiet E {} s u" using quiet_host_open by (metis snd_conv)
  have t: "x = Ok g \<Longrightarrow> ?rest g u = (r, t)" for g
    using assms o by (simp add: create_opened_def)
  then have qt: "x = Ok g \<Longrightarrow> quiet E {} u t" for g using rest by (metis snd_conv)
  show "quiet E {} s t"
    using qt quiet_trans[OF q] assms o q by (cases x) (auto simp: create_opened_def)
  assume r: "r = Ok (f, meta)" and ok: "files_ok E s" and l: "lc_path (copy_at s c) = local_path_for E j"
  obtain g where g: "x = Ok g" using assms o r by (cases x) (auto simp: create_opened_def)
  then have "g = f" using t[OF g] r by (auto simp: try_res_Ok_iff)
  with g have n: "h_names (host_of u) (local_path_for E j) = Some f"
    using on_host_fs_result[OF o] host_open_Ok l by simp
  have "host_ok (host_of u)" using quiet_files[OF q ok] by (simp add: files_ok_def)
  moreover have "is_local E (local_path_for E j)" by (auto simp: is_local_def)
  ultimately show "h_names (host_of t) (local_path_for E j) = Some f"
    using qt[OF g] n by (simp add: quiet_def keeps_files_def)
qed

lemma files_create:
  assumes "fs_ok E s" "files_ok E s" "next_ino (inodes s) \<noteq> - 1" "fst (fs_create E parent name s) \<noteq> NoReply"
  shows "keeps_all E (touches (Create parent name) s) s (snd (fs_create E parent name s))"
proof (cases "ino_path parent s")
  case None
  with assms(2) show ?thesis by (simp add: fs_create_def with_path_def keeps_all_same)
next
  case (Some pp)
  let ?p = "child_path pp name"
  obtain ino s1 where a: "assign_ino ?p s = (ino, s1)" by (cases "assign_ino ?p s")
  have s1: "fs_ok E s1" by (rule fs_ok_assign(1)[OF assms(1,3) a])
  have q: "quiet E {} s s1" using quiet_assign[of E "{}" s ?p] a by simp
  then have host: "host_of s1 = host_of s"
    using a by (auto simp: assign_ino_def split: prod.splits)
  have f1: "files_ok E s1" by (rule quiet_files[OF q assms(2)])
  let ?k = "\<lambda>c s. case create_opened E ino c ?p s of
      (Panicked, s) \<Rightarrow> (Panicked, s)
    | (Err e, s) \<Rightarrow> try_res (release_copy ino c s) (\<lambda>_ s. (Err e, s))
    | (Ok (f, meta), s) \<Rightarrow> (case insert_handle ino c f (remember E ?p (Some meta) s) of (fh, s) \<Rightarrow>
        (Ok (ReplyCreated (entry_timeout (e_opts E)) (meta_to_attr (e_opts E) ino meta) 0 fh
           (file_open_flags (e_opts E))), s))"
  have k: "post (?k c s') (\<lambda>_. keeps_all E {ino} s1) (\<lambda>_. keeps_all E {ino} s1)"
    if h: "held_files E ino s1 c s'" for c s'
  proof -
    obtain r t where o: "create_opened E ino c ?p s' = (r, t)" by (cases "create_opened E ino c ?p s'")
    have l: "lc_path (copy_at s' c) = local_path_for E ino" using h held_copy(2) by (auto simp: held_files_def)
    have core: "same_core s' t" using core_create_opened o by (metis snd_conv)
    note qo = quiet_create_opened[OF o]
    have ht: "held_files E ino s1 c t" by (rule held_files_core[OF core qo(1) h])
    have "keeps_all E {ino} s1 u"
      if "r = Ok (f, meta)" "insert_handle ino c f (remember E ?p (Some meta) t) = (fh, u)" for f meta fh u
    proof (rule held_insert[OF _ that(2)])
      show "held_files E ino s1 c (remember E ?p (Some meta) t)"
        by (rule held_files_core[OF core_cache_step(2) quiet_step(3) ht])
      show "h_names (host_of (remember E ?p (Some meta) t)) (local_path_for E ino) = Some f"
        using qo(2)[OF that(1) _ l] h by (simp add: held_files_def keeps_all_def remember_def)
    qed
    then show ?thesis
      using held_release_err[OF ht] by (cases r) (auto simp: o split: prod.splits)
  qed
  have c: "copies_ok E None s1" using s1 by (simp add: fs_ok_def)
  have "post (try_res (acquire_copy E ino ?p EmptyInit s1) ?k) (\<lambda>_. keeps_all E {ino} s1) (\<lambda>_. keeps_all E {ino} s1)"
    by (rule post_try, rule post_mono[OF held_acquire[OF c f1]]) (use k in blast)+
  from keeps_all_answer[OF this] assms(4) have "keeps_all E {ino} s1 (snd (fs_create E parent name s))"
    by (simp add: fs_create_def with_path_def Some Let_def a)
  then show ?thesis by (simp add: keeps_all_def host Some a)
qed

end

subsection \<open>Every request\<close>

text \<open>The local files that are there, of the inodes outside \<open>X\<close>.\<close>

definition bound :: "'d fs_env \<Rightarrow> u64 set \<Rightarrow> 'd adb_fs \<Rightarrow> string \<Rightarrow> bool" where
  "bound E X s p = (others E X p \<and> h_names (host_of s) p \<noteq> None)"

definition calm :: "'d fs_env \<Rightarrow> 'd adb_fs \<Rightarrow> 'd adb_fs \<Rightarrow> bool" where
  "calm E s s' = (open_files s' = open_files s \<and> keeps_files (bound E {} s) (host_of s) (host_of s'))"

lemma quiet_calm: "quiet E {} s s' \<Longrightarrow> calm E s s'"
  by (auto simp: quiet_def calm_def bound_def elim: keeps_mono)

lemma keeps_bound_trans:
  assumes "keeps_files (bound E X s) (host_of s) (host_of s')" "keeps_files (bound E X s') (host_of s') (host_of s'')"
  shows "keeps_files (bound E X s) (host_of s) (host_of s'')"
  using assms unfolding keeps_files_def bound_def by auto metis

lemma calm_trans: "calm E s s' \<Longrightarrow> calm E s' s'' \<Longrightarrow> calm E s s''"
  using keeps_bound_trans by (simp add: calm_def) blast

lemma calm_files: "calm E s s' \<Longrightarrow> files_ok E s \<Longrightarrow> files_ok E s'"
  unfolding calm_def files_ok_def keeps_files_def bound_def others_empty is_local_def
  by (metis option.distinct(1))

lemma calm_after_try:
  assumes "calm E s (snd r)" and "\<And>a s'. calm E s s' \<Longrightarrow> calm E s (snd (k a s'))"
  shows "calm E s (snd (try_res r k))"
  using assms by (cases r; cases "fst r") auto

lemma calm_mknod_host: "calm E s (snd (on_host_fs (host_mknod p) s))"
  using keeps_mono[OF keeps_mknod[of "host_of s" p], of "bound E {} s"]
  by (simp add: calm_def on_host_world bound_def)

definition keeps_bound :: "'d fs_env \<Rightarrow> u64 set \<Rightarrow> 'd adb_fs \<Rightarrow> 'd adb_fs \<Rightarrow> bool" where
  "keeps_bound E X s s' = (files_ok E s' \<and> keeps_files (bound E X s) (host_of s) (host_of s'))"

lemma keeps_all_bound: "keeps_all E X s s' \<Longrightarrow> keeps_bound E X s s'"
  using keeps_mono[of "others E X" "host_of s" "host_of s'" "bound E X s"]
  by (auto simp: keeps_all_def keeps_bound_def bound_def)

lemma quiet_bound: "quiet E {} s s' \<Longrightarrow> files_ok E s \<Longrightarrow> keeps_bound E X s s'"
  using keeps_all_bound keeps_all_quiet by blast

lemma calm_bound:
  assumes "calm E s s'" "files_ok E s"
  shows "keeps_bound E {} s s'"
  using calm_files[OF assms] assms(1) by (simp add: keeps_bound_def calm_def)

context tame_env
begin

lemma calm_drop: "calm E s (drop_scratch E d s)"
  by (rule quiet_calm) (simp add: drop_scratch_def quiet_def drop_keeps)

lemma calm_mknod: "calm E s (snd (fs_mknod E parent name s))"
proof -
  have step: "calm E s t \<Longrightarrow> quiet E {} t t' \<Longrightarrow> calm E s t'" for t t'
    by (rule calm_trans[OF _ quiet_calm])
  have drop: "calm E s t \<Longrightarrow> calm E s (drop_scratch E d t)" for t d
    by (rule calm_trans[OF _ calm_drop])
  have body: "calm E s (snd (
      if CHR 0x00 \<in> set c_path then (Err EINVAL, drop_scratch E d t)
      else case on_host_fs (host_mknod c_path) t of
         (Err e, s) \<Rightarrow> (Err e, drop_scratch E d s)
       | (Panicked, s) \<Rightarrow> (Panicked, drop_scratch E d s)
       | (Ok _, s) \<Rightarrow>
           (case map_err_res device_err (push_and_sync E l p s) of
              (Err e, s) \<Rightarrow> (Err e, drop_scratch E d s)
            | (Panicked, s) \<Rightarrow> (Panicked, drop_scratch E d s)
            | (Ok _, s) \<Rightarrow> reply_new_entry E p (drop_scratch E d (invalidate p s)))))"
    if t: "calm E s t" for t c_path d l p
  proof -
    obtain r u where m: "on_host_fs (host_mknod c_path) t = (r, u)"
      by (cases "on_host_fs (host_mknod c_path) t")
    then have u: "calm E s u" using calm_trans[OF t] calm_mknod_host by (metis snd_conv)
    obtain r' v where p: "push_and_sync E l p u = (r', v)" by (cases "push_and_sync E l p u")
    then have v: "calm E s v" using step[OF u] quiet_push_and_sync by (metis snd_conv)
    have "calm E s (snd (reply_new_entry E p (drop_scratch E d (invalidate p v))))"
      by (rule step[OF drop[OF step[OF v quiet_step(2)]] quiet_reply_new_entry])
    with t u v show ?thesis by (cases r; cases r') (simp_all add: m p drop)
  qed
  have "quiet E {} s (snd (on_world (e_tempdir_in E d) s))" for d
    by (rule quiet_world) (simp add: tame_def tempdir_keeps)
  then have "calm E s (snd (on_world (e_tempdir_in E d) s))" for d
    by (rule quiet_calm)
  then have "calm E s (snd (try_res (on_world (e_tempdir_in E d) s) (\<lambda>scratch t.
      let local_path = path_join scratch ''node''; c_path = utf8_lossy local_path in
      if CHR 0x00 \<in> set c_path then (Err EINVAL, drop_scratch E scratch t)
      else case on_host_fs (host_mknod c_path) t of
         (Err e, s) \<Rightarrow> (Err e, drop_scratch E scratch s)
       | (Panicked, s) \<Rightarrow> (Panicked, drop_scratch E scratch s)
       | (Ok _, s) \<Rightarrow>
           (case map_err_res device_err (push_and_sync E local_path p s) of
              (Err e, s) \<Rightarrow> (Err e, drop_scratch E scratch s)
            | (Panicked, s) \<Rightarrow> (Panicked, drop_scratch E scratch s)
            | (Ok _, s) \<Rightarrow> reply_new_entry E p (drop_scratch E scratch (invalidate p s))))))" for d p
    unfolding Let_def by (rule calm_after_try) (rule body)
  then show ?thesis
    by (simp add: fs_mknod_def with_path_def Let_def quiet_calm split: option.splits)
qed

theorem serve_files:
  assumes "fs_ok E s" "files_ok E s" "req_ok E req s" "fst (serve full E req s) \<noteq> NoReply"
  shows "keeps_bound E (touches req s) s (snd (serve full E req s))"
proof (cases req)
  case (Open ino)
  with files_open[OF assms(1,2)] assms(4) have k: "keeps_all E {ino} s (snd (fs_open E ino s))" by simp
  show ?thesis
  proof (cases "open_copies s ino")
    case None
    with Open k keeps_all_bound show ?thesis by simp
  next
    case (Some c)
    have "keeps_bound E {} s (snd (fs_open E ino s))"
      using keeps_all_bound[OF k] keeps_mono[OF quiet_open_shared[OF assms(1,2) Some], of "bound E {} s"]
      by (simp add: keeps_bound_def bound_def)
    with Open Some show ?thesis by simp
  qed
next
  case (Mknod parent name)
  with calm_bound[OF calm_mknod assms(2)] show ?thesis by simp
next
  case (Write fh off d)
  with keeps_all_bound[OF files_ok_write[OF assms(1,2)]] show ?thesis by simp
next
  case (Release fh)
  with keeps_all_bound[OF files_ok_fs_release[OF assms(1,2)]] show ?thesis by simp
next
  case (Setattr ino sz a m)
  with keeps_all_bound[OF files_setattr[OF assms(1,2)]] assms(4) show ?thesis by simp
next
  case (Create parent name)
  with keeps_all_bound[OF files_create[OF assms(1,2)]] assms(3,4) show ?thesis by simp
next
  case (Readdir fh off)
  with assms(2) show ?thesis
    by (simp add: fs_readdir_def keeps_all_bound keeps_all_same split: option.splits)
next
  case (Releasedir fh)
  with assms(2) show ?thesis by (simp add: fs_releasedir_def quiet_bound)
next
  case (Access ino)
  with assms(2) show ?thesis by (simp add: fs_access_def quiet_bound)
qed (simp_all add: quiet_bound[OF _ assms(2)] quiet_getattr quiet_lookup quiet_opendir quiet_read
    quiet_flush quiet_mkdir quiet_unlink quiet_rmdir quiet_rename quiet_readlink)

end

subsection \<open>Environments that keep the contract\<close>

lemma keeps_write_all:
  "keeps_files (\<lambda>p. h_names h p \<noteq> Some i) h (snd (host_write_all i off d h))"
proof (induction i off d h rule: host_write_all.induct)
  case (1 i off d h)
  obtain f g where n: "next_fault h = (f, g)" by (cases "next_fault h")
  have names: "h_names g = h_names h" using next_fault_frame[OF n] by simp
  show ?case
  proof (cases "d = [] \<or> (\<exists>e. f = FailWith e) \<or> f = ShortCount 0 \<or> f = NoFault")
    case True
    then show ?thesis
      using keeps_fault[OF n] keeps_node_fault[OF n]
      by (subst host_write_all.simps) (auto simp: n)
  next
    case False
    then obtain k where k: "f = ShortCount k" "k \<noteq> 0" "d \<noteq> []" by (cases f) auto
    let ?g = "g\<lparr>h_files := (h_files g)(i := write_bytes off (take k d) (h_files g i))\<rparr>"
    have "keeps_files (\<lambda>p. h_names h p \<noteq> Some i) ?g (snd (host_write_all i (off + min k (length d)) (drop k d) ?g))"
      using 1[OF k(3) n[symmetric] k(1,2)] by (simp add: names)
    then show ?thesis
      using keeps_trans[OF keeps_node_fault[OF n]] k by (subst host_write_all.simps) (simp add: n)
  qed
qed

lemma keeps_write_file: "keeps_files (\<lambda>p. p \<noteq> l) h (snd (host_write_file l d h))"
proof (cases "host_ok h")
  case True
  obtain r g where c: "host_create l h = (r, g)" by (cases "host_create l h")
  then have k: "keeps_files (\<lambda>p. p \<noteq> l) h g" using keeps_create by (metis snd_conv)
  show ?thesis
  proof (cases r)
    case (Ok i)
    have ok: "host_ok g" using host_create_ok[OF True] c by (metis snd_conv)
    have "h_names g l = Some i" using host_create_contents c Ok by blast
    then have "h_names g p \<noteq> Some i" if "p \<noteq> l" for p
      using ok that unfolding host_ok_def by blast
    then have "keeps_files (\<lambda>p. p \<noteq> l) g (snd (host_write_all i 0 d g))"
      by (intro keeps_mono[OF keeps_write_all])
    with keeps_trans[OF k] show ?thesis by (simp add: host_write_file_def c Ok)
  qed (use k in \<open>simp_all add: host_write_file_def c\<close>)
qed (simp add: keeps_files_def)

text \<open>
  The \<open>adb\<close> program: only \<open>adb pull\<close> writes a file on the host, the one it is told to. That is
  the documented behaviour the file system rests on.
\<close>

definition adb_args :: "string option \<Rightarrow> string list \<Rightarrow> string list" where
  "adb_args serial args = ''adb'' # (case serial of Some s \<Rightarrow> [''-s'', s] | None \<Rightarrow> []) @ args"

lemma keeps_cli_run:
  "w_keeps P w (snd (exec (adb_args serial args) w)) \<Longrightarrow> w_keeps P w (snd (cli_run exec serial args w))"
  by (simp add: cli_run_def adb_args_def)

lemma keeps_try_same:
  "w_keeps P w (snd r) \<Longrightarrow> (\<And>a w. snd (k a w) = w) \<Longrightarrow> w_keeps P w (snd (try_res r k))"
  by (cases r; cases "fst r") auto

lemma cli_tame_env:
  assumes "d_adb (e_ops E) = adb_cli exec serial"
    and shell: "\<And>cmd w. w_keeps (is_local E) w (snd (exec (adb_args serial [''shell'', cmd]) w))"
    and push: "\<And>l r w. w_keeps (is_local E) w (snd (exec (adb_args serial [''push'', l, r]) w))"
    and pull: "\<And>l r w. w_keeps (\<lambda>p. is_local E p \<and> p \<noteq> l) w (snd (exec (adb_args serial [''pull'', r, l]) w))"
    and temp: "\<And>d w. w_keeps (is_local E) w (snd (e_tempdir_in E d w))"
      "\<And>d w. w_keeps (is_local E) w (e_tempdir_drop E d w)"
  shows "tame_env E"
proof unfold_locales
  have run: "w_keeps (is_local E) w (snd (cli_run exec serial [''shell'', cmd] w))"
    "w_keeps (is_local E) w (snd (cli_run exec serial [''push'', l, r] w))"
    "w_keeps (\<lambda>p. is_local E p \<and> p \<noteq> l) w (snd (cli_run exec serial [''pull'', r, l] w))" for cmd l r w
    by (rule keeps_cli_run, rule shell push pull)+
  have sh: "w_keeps (is_local E) w (snd (cli_shell exec serial cmd w))" for cmd w
    unfolding cli_shell_def by (rule keeps_try_same[OF run(1)]) (simp add: Let_def)
  fix cmd l r w
  show "w_keeps (is_local E) w (snd (adb_shell (d_adb (e_ops E)) cmd w))"
    using sh by (simp add: assms(1) adb_cli_def)
  show "w_keeps (is_local E) w (snd (adb_shell_with_stderr (d_adb (e_ops E)) cmd w))"
    unfolding assms(1) adb_cli_def adb_device.select_convs cli_shell_with_stderr_def
    by (rule keeps_try_same[OF run(1)]) simp
  have transfer: "w_keeps P w (snd (cli_transfer exec serial verb a b w))"
    if "w_keeps P w (snd (cli_run exec serial [verb, a, b] w))" for P verb a b
    unfolding cli_transfer_def by (rule keeps_try_same[OF that]) simp
  show "w_keeps (is_local E) w (snd (adb_push (d_adb (e_ops E)) l r w))"
    by (simp add: assms(1) adb_cli_def cli_push_def transfer[OF run(2)])
  show "w_keeps (is_local E) w (snd (adb_sync_device (d_adb (e_ops E)) w))"
    unfolding assms(1) adb_cli_def adb_device.select_convs cli_sync_device_def
    by (rule keeps_try_same[OF sh]) simp
  show "w_keeps (\<lambda>p. is_local E p \<and> p \<noteq> l) w (snd (adb_pull (d_adb (e_ops E)) r l w))"
    by (simp add: assms(1) adb_cli_def cli_pull_def transfer[OF run(3)])
qed (use temp in simp_all)

text \<open>The test double writes its content to the file it pulls to, and nothing else.\<close>

lemma local_path_last: "last (local_path_for E i) \<noteq> CHR ''e''"
proof -
  let ?n = "show_nat (unat i)"
  have n: "?n \<noteq> []" by (subst show_nat.simps) simp
  then have "last ?n \<in> set ?n" by simp
  then have "last ?n \<noteq> CHR ''e''" using show_nat_digits[of "last ?n" "unat i"] by (auto simp: byte_def)
  with n show ?thesis by (simp add: local_path_for_def path_join_def)
qed

interpretation demo: tame_env "demo_env ks" for ks
proof unfold_locales
  fix cmd l r d and w :: "mock_adb world"
  have next_host: "w_host (snd (mock_next cmd w)) = w_host w" for cmd w
    by (simp add: mock_next_def Let_def split: list.splits)
  have "w_host (snd (mock_shell cmd w)) = w_host w"
    using next_host[of cmd w] by (cases "mock_next cmd w"; cases "fst (mock_next cmd w)") (auto simp: mock_shell_def)
  then show "w_keeps (is_local (demo_env ks)) w (snd (adb_shell (d_adb (e_ops (demo_env ks))) cmd w))"
    by (simp add: mock_env_def mock_device_def)
  show "w_keeps (is_local (demo_env ks)) w (snd (adb_shell_with_stderr (d_adb (e_ops (demo_env ks))) cmd w))"
    by (simp add: mock_env_def mock_device_def next_host)
  show "w_keeps (is_local (demo_env ks)) w (snd (adb_push (d_adb (e_ops (demo_env ks))) l r w))"
    "w_keeps (is_local (demo_env ks)) w (snd (adb_sync_device (d_adb (e_ops (demo_env ks))) w))"
    by (simp_all add: mock_env_def mock_device_def mock_push_def mock_sync_device_def)
  have "keeps_files (\<lambda>p. is_local (demo_env ks) p \<and> p \<noteq> l) h (snd (host_write_file l c h))" for c h
    by (rule keeps_mono[OF keeps_write_file]) simp
  then show "w_keeps (\<lambda>p. is_local (demo_env ks) p \<and> p \<noteq> l) w (snd (adb_pull (d_adb (e_ops (demo_env ks))) r l w))"
    by (simp add: mock_env_def mock_device_def mock_pull_def on_host_def split: prod.splits) (metis snd_conv)
  show "w_keeps (is_local (demo_env ks)) w (snd (e_tempdir_in (demo_env ks) d w))"
    by (simp add: demo_env_def)
  have "p \<noteq> d @ ''/node''" if l: "is_local (demo_env ks) p" for p
  proof -
    from l obtain i where "p = local_path_for (demo_env ks) i" by (auto simp: is_local_def)
    then have "last p \<noteq> CHR ''e''" using local_path_last by simp
    moreover have "last (d @ ''/node'') = CHR ''e''" by simp
    ultimately show ?thesis by metis
  qed
  then show "w_keeps (is_local (demo_env ks)) w (e_tempdir_drop (demo_env ks) d w)"
    by (auto simp: demo_env_def keeps_files_def host_ok_def)
qed

subsection \<open>Live states\<close>

text \<open>Reachable states, between whose requests the device and the host may change, but not the local files.\<close>

inductive live :: "(dirent list \<Rightarrow> dirent \<Rightarrow> bool) \<Rightarrow> 'd fs_env \<Rightarrow> 'd adb_fs \<Rightarrow> bool"
  for full E where
  live_start: "host_ok (w_host w) \<Longrightarrow> live full E (adb_fs_new ttl w)"
| live_request: "live full E s \<Longrightarrow> req_ok E req s \<Longrightarrow> serve full E req s = (r, s') \<Longrightarrow>
    r \<noteq> NoReply \<Longrightarrow> live full E s'"
| live_world: "live full E s \<Longrightarrow> w_keeps (is_local E) (fs_world s) w \<Longrightarrow> live full E (s\<lparr>fs_world := w\<rparr>)"

lemma live_reachable: "live full E s \<Longrightarrow> reachable full E s"
  by (induction rule: live.induct) (auto intro: reachable.intros)

context tame_env
begin

lemma live_files: "live full E s \<Longrightarrow> fs_ok E s \<and> files_ok E s"
proof (induction rule: live.induct)
  case (live_start w ttl)
  then show ?case by (simp add: fs_ok_new files_ok_def) (simp add: adb_fs_new_def)
next
  case (live_request s req r s')
  then show ?case
    using serve_ok[of E s req full] serve_files[of s req full] by (simp add: keeps_bound_def)
next
  case (live_world s w)
  have "quiet E {} s (s\<lparr>fs_world := w\<rparr>)" using live_world.hyps(2) by (simp add: quiet_def)
  with live_world.IH show ?case using quiet_files same_core_ok[OF same_core_gnu(2)] by blast
qed

end

text \<open>C3. In every live state each open descriptor is the file its copy is named for, whatever
  happened before; and the next request changes the bytes a descriptor reads only if it is one of
  the requests that work on that inode's copy: a write through a handle of it, a truncation, or
  a create or first open of the same path. Copies of different inodes never mix.\<close>

theorem live_handles_isolated:
  assumes "tame_env E" "live full E s" "req_ok E req s" "serve full E req s = (r, s')" "r \<noteq> NoReply"
  shows "(\<forall>fh f. open_files s' fh = Some f \<longrightarrow>
        h_names (host_of s') (lc_path (copy_at s' (of_copy f))) = Some (of_file f))
    \<and> (\<forall>fh f. open_files s fh = Some f \<longrightarrow> of_ino f \<notin> touches req s \<longrightarrow>
        h_names (host_of s') (local_path_for E (of_ino f)) = Some (of_file f)
        \<and> h_files (host_of s') (of_file f) = h_files (host_of s) (of_file f))"
proof -
  note ok = tame_env.live_files[OF assms(1,2)]
  have live': "live full E s'" by (rule live_request[OF assms(2-5)])
  note ok' = tame_env.live_files[OF assms(1) live']
  have own: "lc_path (copy_at s' (of_copy f)) = local_path_for E (of_ino f)"
    if "open_files s' fh = Some f" for fh f
  proof -
    have c: "copies_ok E None s'" using ok' by (simp add: fs_ok_def)
    show ?thesis using copies_okD(5)[OF c copies_okD(2)[OF c that]] by (simp add: copy_ok_def)
  qed
  have "keeps_bound E (touches req s) s s'"
    using tame_env.serve_files[OF assms(1), of s req full] ok assms(3-5) by simp
  then have k: "h_names (host_of s') p = Some n \<and> h_files (host_of s') n = h_files (host_of s) n"
    if "others E (touches req s) p" "h_names (host_of s) p = Some n" for p n
    using that ok by (auto simp: keeps_bound_def keeps_files_def bound_def files_ok_def)
  have "others E (touches req s) (local_path_for E i)" if "i \<notin> touches req s" for i
    using that by (auto simp: others_def)
  with k have kept: "h_names (host_of s') (local_path_for E i) = Some n \<and> h_files (host_of s') n = h_files (host_of s) n"
    if "i \<notin> touches req s" "h_names (host_of s) (local_path_for E i) = Some n" for i n
    using that by blast
  have named: "h_names (host_of s) (local_path_for E (of_ino f)) = Some (of_file f)"
    if "open_files s fh = Some f" for fh f
    using ok that by (simp add: files_ok_def)
  show ?thesis
    by (intro conjI allI impI) (use ok' own in \<open>simp add: files_ok_def\<close>, (use kept named in blast)+)
qed

theorem live_handles_isolated_witness:
  "h_names (host_of (demo_opened ''data'')) (local_path_for (demo_env []) 1) = Some 0"
proof -
  let ?E = "demo_env []" and ?s = "demo_opened ''data''"
  have "live (\<lambda>_ _. False) ?E ?s"
  proof (rule live_request[OF live_start])
    show "serve (\<lambda>_ _. False) ?E (Open 1) (adb_fs_new 30000000000 (demo_world [] ''data''))
        = (ReplyOpened 1 (file_open_flags default_options), ?s)"
      using demo_open[of "''data''"] by (simp add: demo_start_def)
  qed (simp_all add: adb_fs_new_def ino_table_new_def FUSE_ROOT_INO_def demo_world_def host_ok_def)
  moreover have "serve (\<lambda>_ _. False) ?E (Access 1) ?s = (ReplyOk, ?s)" by (simp add: fs_access_def)
  moreover have "req_ok ?E (Access 1) ?s"
    by (simp add: demo_opened_def demo_start_def adb_fs_new_def ino_table_new_def FUSE_ROOT_INO_def)
  ultimately have "open_files ?s 1 = Some f \<longrightarrow> h_names (host_of ?s) (local_path_for ?E (of_ino f)) = Some (of_file f)" for f
    using live_handles_isolated[OF demo.tame_env_axioms, where req = "Access 1" and s = ?s] by fastforce
  then show ?thesis by (simp add: demo_opened_def)
qed

end
