(* ===== verification/Handles.thy ===== *)
theory Handles
  imports Isolation
begin

text \<open>
  What the requests on files do: sharing one local copy between the handles of an inode, the first
  open and the last release, reads and writes, flush, flush after a rename, and truncation. Each
  property gives the outcome on every branch of the request, errors included.
\<close>

subsection \<open>Sharing a copy\<close>

lemma host_open_world: "host_open p h = (r, h') \<Longrightarrow> h_names h' = h_names h \<and> h_files h' = h_files h"
  by (auto simp: host_open_def split: prod.splits fault.splits option.splits dest!: next_fault_frame)

lemma on_host_dev: "w_dev (fs_world (snd (on_host_fs f s))) = w_dev (fs_world s)"
  by (simp add: on_host_fs_def on_world_def on_host_def split: prod.splits)

lemma open_shared_eq:
  assumes "copies_ok E None s" "open_copies s i = Some c" "ino_path i s = Some p"
    and "host_open (local_path_for E i) (host_of s) = (r, h)"
  defines "w \<equiv> (fs_world s)\<lparr>w_host := h\<rparr>" and "k \<equiv> copy_at s c"
  shows "fs_open E i s = (case r of
      Ok n \<Rightarrow> (ReplyOpened (next_fh s) (file_open_flags (e_opts E)),
        s\<lparr>copy_at := (copy_at s)(c := k\<lparr>lc_refs := Suc (lc_refs k)\<rparr>), fs_world := w, next_fh := next_fh s + 1,
          open_files := (open_files s)(next_fh s \<mapsto> \<lparr>of_ino = i, of_copy = c, of_file = n\<rparr>)\<rparr>)
    | Err e \<Rightarrow> (ReplyError e, s\<lparr>fs_world := w\<rparr>)
    | Panicked \<Rightarrow> (NoReply, s\<lparr>copy_at := (copy_at s)(c := k\<lparr>lc_refs := Suc (lc_refs k)\<rparr>), fs_world := w\<rparr>))"
proof -
  have k: "lc_path k = local_path_for E i" "0 < lc_refs k" "\<not> lc_poisoned k"
    using copies_okD(5)[OF assms(1,2)] by (auto simp: copy_ok_def k_def)
  have same: "(copy_at s)(c := k\<lparr>lc_refs := lc_refs k\<rparr>) = copy_at s" by (simp add: k_def)
  show ?thesis
    using k assms(4) same
    by (cases r) (simp_all add: fs_open_def with_path_def assms(3) acquire_shared[OF assms(1,2)]
        on_host_fs_def on_world_def on_host_def set_copy_def k_def w_def insert_handle_def Let_def
        release_copy_def)
qed

lemma shared_handles:
  assumes "fs_ok E s" "files_ok E s" "open_files s fh = Some f" "open_files s gh = Some g" "of_ino g = of_ino f"
  shows "of_copy g = of_copy f" "of_file g = of_file f"
proof -
  have c: "copies_ok E None s" using assms(1) by (simp add: fs_ok_def)
  show "of_copy g = of_copy f" using copies_okD(2)[OF c assms(3)] copies_okD(2)[OF c assms(4)] assms(5) by simp
  show "of_file g = of_file f" using assms(2-5) unfolding files_ok_def by (metis option.sel)
qed

lemma host_write_Ok:
  assumes "host_write_at i off d h = (Ok n, h')"
  shows "n \<le> length d \<and> unat off < 2 ^ 63 \<and> h_files h' i = write_bytes (unat off) (take n d) (h_files h i)"
proof -
  have "take (min k (length d)) d = take k d" for k by (simp add: min_def)
  then show ?thesis
    using assms by (auto simp: host_write_at_def split: if_splits prod.splits fault.splits dest!: next_fault_frame)
qed

lemma host_read_Ok:
  assumes "host_read_at i off n h = (Ok b, h')"
  shows "prefix b (take n (drop (unat off) (h_files h i)))"
    and "h_faults h = [] \<Longrightarrow> b = take n (drop (unat off) (h_files h i))"
proof -
  have "prefix (take (min k n) xs) (take n xs)" for k and xs :: string
    by (metis min.commute take_is_prefix take_take)
  then show "prefix b (take n (drop (unat off) (h_files h i)))"
    using assms by (auto simp: host_read_at_def split: if_splits prod.splits fault.splits dest!: next_fault_frame)
  show "h_faults h = [] \<Longrightarrow> b = take n (drop (unat off) (h_files h i))"
    using assms by (auto simp: host_read_at_def next_fault_def split: if_splits)
qed

text \<open>Two opens of one file share one local copy: the second open asks nothing of the device
  and moves no bytes, and its handle is a descriptor of the same local file; the copy now counts
  one more reference.\<close>

lemma second_open_shares:
  assumes "fs_ok E s" "open_files s gh = Some g" "ino_path (of_ino g) s = Some p"
    and "fs_open E (of_ino g) s = (r, s')"
  shows "w_dev (fs_world s') = w_dev (fs_world s)
    \<and> h_names (host_of s') = h_names (host_of s) \<and> h_files (host_of s') = h_files (host_of s)
    \<and> (\<forall>fh fl. r = ReplyOpened fh fl \<longrightarrow> (\<exists>f. open_files s' = (open_files s)(fh \<mapsto> f)
        \<and> of_ino f = of_ino g \<and> of_copy f = of_copy g \<and> (files_ok E s \<longrightarrow> of_file f = of_file g)
        \<and> lc_refs (copy_at s' (of_copy g)) = Suc (lc_refs (copy_at s (of_copy g)))))
    \<and> (\<forall>e. r = ReplyError e \<longrightarrow> open_files s' = open_files s \<and> copy_at s' = copy_at s)"
proof -
  have c: "copies_ok E None s" using assms(1) by (simp add: fs_ok_def)
  obtain x h where o: "host_open (local_path_for E (of_ino g)) (host_of s) = (x, h)"
    by (cases "host_open (local_path_for E (of_ino g)) (host_of s)")
  note eq = open_shared_eq[OF c copies_okD(2)[OF c assms(2)] assms(3) o, unfolded assms(4)]
  have n: "files_ok E s \<Longrightarrow> x = Ok n \<Longrightarrow> n = of_file g" for n
    using assms(2) host_open_Ok[of _ _ n h] host_open_world o by (fastforce simp: files_ok_def)
  show ?thesis
  proof (cases x)
    case (Ok i)
    with eq host_open_world[OF o] n[OF _ Ok] show ?thesis by auto
  next
    case (Err e)
    with eq host_open_world[OF o] show ?thesis by auto
  next
    case Panicked
    with eq host_open_world[OF o] show ?thesis by auto
  qed
qed

text \<open>C9. What is written through one handle is read back through every handle on the same
  inode: exactly the bytes the write reported, or a shorter piece of them when the host's read is
  short; the other bytes stay, and the shared copy is marked dirty.\<close>

theorem write_read_shared:
  assumes "fs_ok E s" "files_ok E s" "open_files s fh = Some f" "open_files s gh = Some g"
    and "of_ino g = of_ino f" "length data < 2 ^ 32"
    and "fs_write fh off data s = (ReplyWritten n, s')"
    and "fs_read gh off n s' = (ReplyData bytes, s'')"
  shows "unat n \<le> length data \<and> prefix bytes (take (unat n) data)
    \<and> (h_faults (host_of s') = [] \<longrightarrow> bytes = take (unat n) data)
    \<and> (\<forall>j < length (h_files (host_of s) (of_file f)). j < unat off \<or> unat off + unat n \<le> j \<longrightarrow>
         h_files (host_of s') (of_file f) ! j = h_files (host_of s) (of_file f) ! j)
    \<and> lc_dirty (copy_at s' (of_copy g))"
proof -
  note sh = shared_handles[OF assms(1-5)]
  obtain k h where w: "host_write_at (of_file f) off data (host_of s) = (Ok k, h)" and n: "n = of_nat k"
    and s': "s' = mark_dirty (of_copy f) True (s\<lparr>fs_world := (fs_world s)\<lparr>w_host := h\<rparr>\<rparr>)"
    using assms(3,7) by (auto simp: fs_write_def on_host_fs_def on_world_def on_host_def try_res_def answer_def
        split: prod.splits res.splits)
  note hw = host_write_Ok[OF w]
  have kn: "unat n = k" using hw assms(6) by (simp add: n unat_of_nat)
  have host: "host_of s' = h" by (simp add: s' mark_dirty_def)
  have og: "open_files s' gh = Some g" using assms(4) by (simp add: s' mark_dirty_def)
  obtain h2 where r: "host_read_at (of_file f) off k h = (Ok bytes, h2)"
    using assms(8) og by (auto simp: fs_read_def on_host_fs_def on_world_def on_host_def try_res_def answer_def
        sh host kn split: prod.splits res.splits)
  have same: "take k (drop (unat off) (h_files h (of_file f))) = take k data"
    using hw write_bytes_read[of "take k data" "unat off"] by simp
  have "h_files h (of_file f) ! j = h_files (host_of s) (of_file f) ! j"
    if "j < length (h_files (host_of s) (of_file f))" "j < unat off \<or> unat off + k \<le> j" for j
    using write_bytes_keep[OF that(1), of "unat off" "take k data"] that(2) hw by auto
  moreover have "lc_dirty (copy_at s' (of_copy g))" by (simp add: s' mark_dirty_def sh)
  moreover have "k \<le> length data" using hw by simp
  ultimately show ?thesis
    using host_read_Ok[OF r, unfolded same] by (simp add: kn host)
qed

subsection \<open>First open, last release\<close>

text \<open>The state \<open>acquire_copy\<close> works on when the inode has no copy yet.\<close>

definition fresh_copy :: "'d fs_env \<Rightarrow> u64 \<Rightarrow> 'd adb_fs \<Rightarrow> 'd adb_fs" where
  "fresh_copy E ino s = s\<lparr>copy_at := (copy_at s)(next_copy s := local_copy_new (local_path_for E ino)),
     next_copy := Suc (next_copy s), open_copies := (open_copies s)(ino \<mapsto> next_copy s)\<rparr>"

text \<open>What no failed request may leave behind: handles and copies are as they were.\<close>

definition same_open :: "'d adb_fs \<Rightarrow> 'd adb_fs \<Rightarrow> bool" where
  "same_open s s' = (open_files s' = open_files s \<and> open_copies s' = open_copies s
     \<and> open_dirs s' = open_dirs s \<and> next_fh s' = next_fh s \<and> inodes s' = inodes s
     \<and> (\<forall>c < next_copy s. copy_at s' c = copy_at s c))"

lemma acquire_fresh:
  assumes "open_copies s ino = None" "populate E (next_copy s) path init (fresh_copy E ino s) = (r, t)"
  shows "acquire_copy E ino path init s = (case r of
      Ok _ \<Rightarrow> (Ok (next_copy s), set_copy (next_copy s)
        ((copy_at t (next_copy s))\<lparr>lc_pulled := True, lc_refs := 1\<rparr>) t)
    | Err e \<Rightarrow> (Err e, forget_copy ino (next_copy s)
        (set_copy (next_copy s) ((copy_at t (next_copy s))\<lparr>lc_evicted := True\<rparr>) t))
    | Panicked \<Rightarrow> (Panicked, set_copy (next_copy s) ((copy_at t (next_copy s))\<lparr>lc_poisoned := True\<rparr>) t))"
proof -
  have e: "copy_entry E ino s = (next_copy s, fresh_copy E ino s)"
    using assms(1) by (simp add: copy_entry_def fresh_copy_def set_copy_def Let_def)
  have "same_core (fresh_copy E ino s) t" using core_populate assms(2) by (metis snd_conv)
  then have "lc_refs (copy_at t (next_copy s)) = 0"
    using same_core_copy(1)[of _ t "next_copy s"] by (simp add: fresh_copy_def local_copy_new_def)
  then show ?thesis
    using assms(2)
    by (cases r) (simp_all add: acquire_copy_def numeral_2_eq_2 acquire_round_def e,
        simp_all add: fresh_copy_def local_copy_new_def)
qed

lemma on_world_eq: "f (fs_world s) = (r, w) \<Longrightarrow> on_world f s = (r, s\<lparr>fs_world := w\<rparr>)"
  by (simp add: on_world_def)

lemma on_host_fs_eq: "f (host_of s) = (r, h) \<Longrightarrow> on_host_fs f s = (r, s\<lparr>fs_world := (fs_world s)\<lparr>w_host := h\<rparr>\<rparr>)"
  by (simp add: on_host_fs_def on_world_def on_host_def)

lemma fresh_copy_sel [simp]:
  "open_files (fresh_copy E i s) = open_files s" "fs_world (fresh_copy E i s) = fs_world s"
  "copy_at (fresh_copy E i s) = (copy_at s)(next_copy s := local_copy_new (local_path_for E i))"
  "open_copies (fresh_copy E i s) = (open_copies s)(i \<mapsto> next_copy s)"
  "open_dirs (fresh_copy E i s) = open_dirs s" "next_fh (fresh_copy E i s) = next_fh s"
  "inodes (fresh_copy E i s) = inodes s" "fs_cache (fresh_copy E i s) = fs_cache s"
  by (simp_all add: fresh_copy_def)

text \<open>C11. The first open of a file pulls it, once, to the local name of its inode. When the pull
  fails, its error is the reply and nothing is left behind; when it succeeds, the handle is a
  descriptor of the pulled file, the only one of its copy; when the local open fails after the
  pull, that error is the reply, the pulled file is removed again and nothing is left behind.\<close>

theorem first_open_pulls:
  assumes "fs_ok E s" "open_copies s ino = None" "ino_path ino s = Some p"
    and "dev_pull (e_ops E) p (local_path_for E ino) (fs_world s) = (r, w)"
    and "fs_open E ino s = (reply, s')"
  shows "case r of
      Err e \<Rightarrow> reply = ReplyError (device_err e) \<and> fs_world s' = w \<and> same_open s s'
    | Panicked \<Rightarrow> reply = NoReply
    | Ok _ \<Rightarrow> (case host_open (local_path_for E ino) (w_host w) of
        (Ok n, h) \<Rightarrow> reply = ReplyOpened (next_fh s) (file_open_flags (e_opts E))
          \<and> open_files s' = (open_files s)(next_fh s \<mapsto> \<lparr>of_ino = ino, of_copy = next_copy s, of_file = n\<rparr>)
          \<and> open_copies s' = (open_copies s)(ino \<mapsto> next_copy s)
          \<and> copy_ok E ino 1 (copy_at s' (next_copy s)) \<and> \<not> lc_dirty (copy_at s' (next_copy s))
          \<and> fs_world s' = w\<lparr>w_host := h\<rparr>
      | (Err e, h) \<Rightarrow> reply = ReplyError e \<and> same_open s s'
          \<and> fs_world s' = w\<lparr>w_host := snd (host_remove (local_path_for E ino) h)\<rparr>
      | (Panicked, h) \<Rightarrow> reply = NoReply)"
proof -
  let ?c = "next_copy s" and ?lp = "local_path_for E ino" and ?f = "fresh_copy E ino s"
  have "populate E ?c p PullInit ?f = (map_err_res device_err (r, ?f\<lparr>fs_world := w\<rparr>))"
    using assms(4) by (simp add: populate_def local_copy_new_def on_world_def)
  then obtain r' where pop: "populate E ?c p PullInit ?f = (r', ?f\<lparr>fs_world := w\<rparr>)"
    and r': "(r', ?f\<lparr>fs_world := w\<rparr>) = map_err_res device_err (r, ?f\<lparr>fs_world := w\<rparr>)"
    by (cases r) simp_all
  note acq = acquire_fresh[OF assms(2) pop]
  have back1: "(open_copies s)(ino := None) = open_copies s" using assms(2) by auto
  show ?thesis
  proof (cases r)
    case (Err e)
    then have "r' = Err (device_err e)" using r' by simp
    with assms(3,5) acq Err show ?thesis
      by (auto simp: fs_open_def with_path_def forget_copy_def same_open_def back1)
  next
    case Panicked
    then have "r' = Panicked" using r' by simp
    with assms(3,5) acq Panicked show ?thesis by (auto simp: fs_open_def with_path_def)
  next
    case (Ok u)
    then have r1: "r' = Ok ()" using r' by simp
    let ?k = "(local_copy_new ?lp)\<lparr>lc_pulled := True, lc_refs := 1\<rparr>"
    let ?s = "set_copy ?c ?k (?f\<lparr>fs_world := w\<rparr>)"
    have acq1: "acquire_copy E ino p PullInit s = (Ok ?c, ?s)" using acq by (simp add: r1)
    obtain x h where o: "host_open ?lp (w_host w) = (x, h)" by (cases "host_open ?lp (w_host w)")
    have open1: "on_host_fs (host_open (lc_path (copy_at ?s ?c))) ?s
        = (x, ?s\<lparr>fs_world := w\<lparr>w_host := h\<rparr>\<rparr>)"
      using o by (simp add: on_host_fs_def on_world_def on_host_def local_copy_new_def)
    show ?thesis
      using assms(3,5)
      by (cases x) (auto simp: fs_open_def with_path_def acq1 open1 o Ok insert_handle_def Let_def
          release_copy_def on_host_fs_def on_world_def on_host_def forget_copy_def same_open_def back1
          copy_ok_def local_copy_new_def split: prod.splits)
  qed
qed

text \<open>C12. Releasing the last handle of a file removes its local file and its entry, so the next
  open pulls the device's contents afresh; releasing any other handle leaves the copy, its file and
  the entry in place. Neither talks to the device: bytes that no flush has pushed are lost with
  the last handle.\<close>

theorem release_outcomes:
  assumes "fs_ok E s" "open_files s fh = Some f" "fs_release fh s = (r, s')"
  shows "r = ReplyOk \<and> open_files s' = (open_files s)(fh := None)
    \<and> w_dev (fs_world s') = w_dev (fs_world s)
    \<and> (if handles s (of_copy f) = {fh}
       then open_copies s' = (open_copies s)(of_ino f := None)
         \<and> host_of s' = snd (host_remove (local_path_for E (of_ino f)) (host_of s))
       else open_copies s' = open_copies s \<and> host_of s' = host_of s
         \<and> lc_refs (copy_at s (of_copy f)) = Suc (lc_refs (copy_at s' (of_copy f))))"
proof -
  let ?s = "s\<lparr>open_files := (open_files s)(fh := None)\<rparr>" and ?c = "of_copy f" and ?lp = "local_path_for E (of_ino f)"
  have c0: "copies_ok E None s" using assms(1) by (simp add: fs_ok_def)
  have c: "copies_ok E (Some (of_ino f, ?c)) ?s" by (rule remove_handle_held[OF c0 assms(2)])
  note held = held_copy[OF c]
  have h: "handles ?s ?c = handles s ?c - {fh}" by (auto simp: handles_def)
  have fh: "fh \<in> handles s ?c" using assms(2) by (simp add: handles_def)
  show ?thesis
  proof (cases "handles s ?c = {fh}")
    case True
    then have "card (handles ?s ?c) = 0" by (simp add: h del: card_0_eq)
    then have k: "lc_refs (copy_at s ?c) = 1" "lc_path (copy_at s ?c) = ?lp" "\<not> lc_poisoned (copy_at s ?c)"
      "open_copies s (of_ino f) = Some ?c"
      using held by simp_all
    obtain x g where rm: "host_remove ?lp (host_of s) = (x, g)" by (cases "host_remove ?lp (host_of s)")
    show ?thesis
      using assms(2,3) True k rm
      by (auto simp: fs_release_def release_copy_def Let_def on_host_fs_def on_world_def on_host_def forget_copy_def)
  next
    case False
    then obtain gh where "gh \<in> handles s ?c" "gh \<noteq> fh" using fh by blast
    then have "gh \<in> handles ?s ?c" by (auto simp: handles_def)
    then have n: "card (handles ?s ?c) \<noteq> 0" using card_0_eq[OF finite_handles[OF c, of ?c]] by blast
    then have k: "lc_refs (copy_at s ?c) = Suc (card (handles ?s ?c))" "\<not> lc_poisoned (copy_at s ?c)"
      using held by simp_all
    have "release_copy (of_ino f) ?c ?s
        = (Ok (), set_copy ?c ((copy_at s ?c)\<lparr>lc_refs := card (handles ?s ?c)\<rparr>) ?s)"
      using k n by (simp add: release_copy_def Let_def)
    with assms(2,3) False k show ?thesis by (auto simp: fs_release_def)
  qed
qed

subsection \<open>Flush\<close>

text \<open>C6. A flush of a written file pushes the local file of its inode to the path the inode has
  now and syncs the device, in this order; when both succeed the copy is clean and the cached
  metadata of the path is dropped; when one fails, or the inode has no path any more, the error
  is the reply and the copy stays dirty, so a later flush tries again. The flush of a clean copy
  does nothing.\<close>

theorem flush_outcomes:
  assumes "fs_ok E s" "open_files s fh = Some f" "fs_flush E fh s = (r, s')"
  shows "if \<not> lc_dirty (copy_at s (of_copy f)) then r = ReplyOk \<and> s' = s
    else case ino_path (of_ino f) s of
      None \<Rightarrow> r = ReplyError ENOENT \<and> lc_dirty (copy_at s' (of_copy f)) \<and> fs_world s' = fs_world s
    | Some p \<Rightarrow>
        (case dev_push (e_ops E) (local_path_for E (of_ino f)) p (fs_world s) of
          (Err e, w) \<Rightarrow> r = ReplyError (device_err e) \<and> lc_dirty (copy_at s' (of_copy f))
            \<and> fs_world s' = w \<and> fs_cache s' = fs_cache s
        | (Panicked, w) \<Rightarrow> r = NoReply
        | (Ok _, w) \<Rightarrow>
            (case dev_sync_device (e_ops E) w of
              (Err e, w') \<Rightarrow> r = ReplyError (device_err e) \<and> lc_dirty (copy_at s' (of_copy f))
                \<and> fs_world s' = w' \<and> fs_cache s' = fs_cache s
            | (Panicked, w') \<Rightarrow> r = NoReply
            | (Ok _, w') \<Rightarrow> r = ReplyOk \<and> \<not> lc_dirty (copy_at s' (of_copy f))
                \<and> fs_world s' = w' \<and> fs_cache s' = cache_invalidate p (fs_cache s)))"
proof -
  let ?c = "of_copy f" and ?lp = "local_path_for E (of_ino f)"
  have c: "copies_ok E None s" using assms(1) by (simp add: fs_ok_def)
  have lp: "lc_path (copy_at s ?c) = ?lp"
    using copies_okD(5)[OF c copies_okD(2)[OF c assms(2)]] by (simp add: copy_ok_def)
  show ?thesis
    using assms(2,3) lp
    by (auto simp: fs_flush_def push_if_dirty_def push_and_sync_def mark_dirty_def on_world_def invalidate_def
        ino_path_def Let_def split: option.splits prod.splits res.splits)
qed

lemma dirty_core_world: "lc_dirty (copy_at (snd (on_device f s)) c) = lc_dirty (copy_at s c)"
  by (simp add: on_device_def)

text \<open>C8. A file that is open and written across a rename of itself or of a directory above it keeps
  its handle, and the flush pushes to the path it has after the rename; neither the old nor the
  new path, nor anything below them, is answered from the cache any more.\<close>

theorem rename_then_flush:
  assumes "fs_ok E s" "req_ok E (Rename parent name newparent newname) s"
    and "ino_path parent s = Some pp" "ino_path newparent s = Some qp"
    and "fs_rename E parent name newparent newname s = (ReplyOk, s1)"
    and "open_files s fh = Some f" "lc_dirty (copy_at s (of_copy f))"
    and "ino_path (of_ino f) s = Some path"
    and "at_or_under (child_path pp name) (child_path pp name @ ''/'') path"
    and "dev_push (e_ops E) (local_path_for E (of_ino f))
        (rekeyed (child_path pp name @ ''/'') (child_path qp newname) path) (fs_world s1) = (Ok u, w)"
    and "dev_sync_device (e_ops E) w = (Ok v, w')"
    and "fs_flush E fh s1 = (r, s2)"
  shows "open_files s1 fh = Some f
    \<and> ino_path (of_ino f) s1 = Some (rekeyed (child_path pp name @ ''/'') (child_path qp newname) path)
    \<and> r = ReplyOk \<and> \<not> lc_dirty (copy_at s2 (of_copy f)) \<and> fs_world s2 = w'
    \<and> (\<forall>q. prefix_covers (child_path pp name) q \<or> prefix_covers (child_path qp newname) q \<longrightarrow>
         entries (fs_cache s2) q = None)"
proof -
  let ?from = "child_path pp name" and ?to = "child_path qp newname"
  let ?p = "rekeyed (?from @ ''/'') ?to path" and ?lp = "local_path_for E (of_ino f)"
  have rq: "enumerates (e_iter E (path_to_ino (inodes s))) (path_to_ino (inodes s))"
    "\<not> at_or_under ?from (?from @ ''/'') ?to" "\<not> at_or_under ?to (?to @ ''/'') ?from"
    using assms(2-4) by (auto simp: Let_def)
  obtain x t where m: "on_device (dev_mv (e_ops E) ?from ?to) s = (x, t)"
    by (cases "on_device (dev_mv (e_ops E) ?from ?to) s")
  have t: "inodes t = inodes s" "open_files t = open_files s" "copy_at t = copy_at s"
    using m by (auto simp: on_device_def on_world_def split: prod.splits
        dest!: arg_cong[where f = snd])
  have s1: "s1 = upd_cache (cache_invalidate_prefix ?to) (upd_cache (cache_invalidate_prefix ?from)
      (t\<lparr>inodes := rekey_paths (e_iter E (path_to_ino (inodes s))) ?from ?to (inodes s)\<rparr>))"
    using assms(3-5) m t(1) by (cases x) (auto simp: fs_rename_def Let_def)
  have f1: "open_files s1 fh = Some f" "copy_at s1 = copy_at s"
    using assms(6) t by (simp_all add: s1)
  have "ino_table_ok (inodes s)" using assms(1) by (simp add: fs_ok_def)
  then have path1: "ino_path (of_ino f) s1 = Some ?p"
    using rekey_paths_ok(2)[OF _ rq, of "of_ino f" path] assms(8,9) by (simp add: s1 ino_path_def)
  have cache1: "entries (fs_cache s1) q = None" if "prefix_covers ?from q \<or> prefix_covers ?to q" for q
    using that by (auto simp: s1 cache_invalidate_prefix_def prefix_covers_def at_or_under_def)
  have c: "copies_ok E None s" using assms(1) by (simp add: fs_ok_def)
  have lp: "lc_path (copy_at s (of_copy f)) = ?lp"
    using copies_okD(5)[OF c copies_okD(2)[OF c assms(6)]] by (simp add: copy_ok_def)
  have "r = ReplyOk \<and> \<not> lc_dirty (copy_at s2 (of_copy f)) \<and> fs_world s2 = w'
      \<and> fs_cache s2 = cache_invalidate ?p (fs_cache s1)"
    using assms(7,10,11,12) f1 lp path1
    by (auto simp: fs_flush_def push_if_dirty_def push_and_sync_def mark_dirty_def on_world_def invalidate_def
        ino_path_def Let_def)
  with f1 path1 cache1 show ?thesis by (simp add: cache_invalidate_def)
qed

subsection \<open>Truncation\<close>

lemma push_if_dirty_Ok:
  assumes "push_if_dirty E i c s = (Ok u, t)" "lc_dirty (copy_at s c)"
  obtains p w where "ino_path i s = Some p"
    "dev_push (e_ops E) (lc_path (copy_at s c)) p (fs_world s) = (Ok (), w)"
    "dev_sync_device (e_ops E) w = (Ok (), fs_world t)"
    "\<not> lc_dirty (copy_at t c)" "fs_cache t = cache_invalidate p (fs_cache s)"
  using assms by (auto simp: push_if_dirty_def push_and_sync_def mark_dirty_def on_world_def invalidate_def
        ino_path_def Let_def try_res_Ok_iff split: option.splits prod.splits res.splits)

lemma truncate_and_push_Ok:
  assumes "truncate_and_push E i c n s = (Ok u, t)"
  obtains p old w w1 where "ino_path i s = Some p"
    "host_contents (host_of s) (lc_path (copy_at s c)) = Some old"
    "host_contents (w_host w) (lc_path (copy_at s c)) = Some (resize (unat n) old)"
    "w_dev w = w_dev (fs_world s)"
    "dev_push (e_ops E) (lc_path (copy_at s c)) p w = (Ok (), w1)"
    "dev_sync_device (e_ops E) w1 = (Ok (), fs_world t)"
proof -
  let ?lp = "lc_path (copy_at s c)"
  obtain x h1 where o: "host_open ?lp (host_of s) = (x, h1)" by (cases "host_open ?lp (host_of s)")
  then obtain f where f: "x = Ok f"
    using assms by (cases x) (simp_all add: truncate_and_push_def on_host_fs_eq)
  obtain y h2 where l: "host_set_len f n h1 = (y, h2)" by (cases "host_set_len f n h1")
  let ?s = "s\<lparr>fs_world := (fs_world s)\<lparr>w_host := h2\<rparr>\<rparr>"
  have y: "y = Ok ()" and push: "push_if_dirty E i c (mark_dirty c True ?s) = (Ok u, t)"
    using assms o l f by (cases y; simp add: truncate_and_push_def on_host_fs_eq)+
  have name: "h_names h1 ?lp = Some f" using host_open_Ok o f by simp
  have same: "h_names h1 = h_names (host_of s)" "h_files h1 = h_files (host_of s)"
    using host_open_world[OF o] by simp_all
  have "h_names h2 = h_names h1 \<and> h_files h2 f = resize (unat n) (h_files h1 f)"
    using l y by (auto simp: host_set_len_def split: prod.splits fault.splits if_splits dest!: next_fault_frame)
  then have c: "host_contents (host_of s) ?lp = Some (h_files (host_of s) f)"
    "host_contents (w_host (fs_world ?s)) ?lp = Some (resize (unat n) (h_files (host_of s) f))"
    using name same by (simp_all add: host_contents_def)
  obtain p w where pw: "ino_path i (mark_dirty c True ?s) = Some p"
    "dev_push (e_ops E) (lc_path (copy_at (mark_dirty c True ?s) c)) p (fs_world (mark_dirty c True ?s)) = (Ok (), w)"
    "dev_sync_device (e_ops E) w = (Ok (), fs_world t)"
    by (rule push_if_dirty_Ok[OF push]) (simp_all add: mark_dirty_def)
  show ?thesis
    by (rule that[OF _ c]) (use pw in \<open>simp_all add: ino_path_def mark_dirty_def\<close>)
qed

text \<open>What acquiring a copy does to the world.\<close>

lemma release_copy_dev: "w_dev (fs_world (snd (release_copy i c s))) = w_dev (fs_world s)"
  by (auto simp: release_copy_def Let_def on_host_fs_def on_world_def on_host_def forget_copy_def split: prod.splits)

lemma acquire_empty_dev:
  assumes "copies_ok E None s"
  shows "w_dev (fs_world (snd (acquire_copy E i p EmptyInit s))) = w_dev (fs_world s)"
proof -
  obtain c s1 where e: "copy_entry E i s = (c, s1)" by (cases "copy_entry E i s")
  have w: "fs_world s1 = fs_world s" using copy_entry_world[OF e] by simp
  have "w_dev (fs_world (snd (populate E c p EmptyInit s1))) = w_dev (fs_world s1)"
    by (auto simp: populate_def on_host_fs_def on_world_def on_host_def mark_dirty_def try_res_def split: prod.splits res.splits)
  then have "w_dev (fs_world (snd (acquire_round E i p EmptyInit s))) = w_dev (fs_world s)"
    by (auto simp: acquire_round_def e w forget_copy_def split: res.splits prod.splits)
  moreover obtain r t where r: "acquire_round E i p EmptyInit s = (Some r, t)"
    using acquire_round_ok[OF assms] by metis
  ultimately show ?thesis using acquire_copy_round[OF assms r] by simp
qed


subsection \<open>A concrete open file\<close>

text \<open>The file /a, inode 2, open through handle 1 with the bytes \<open>c\<close>; \<open>b\<close> says whether it was written.\<close>

definition demo_file :: "string \<Rightarrow> bool \<Rightarrow> mock_adb adb_fs" where
  "demo_file c b = (demo_start [] c)
     \<lparr>inodes := \<lparr>path_to_ino = [''/'' \<mapsto> 1, ''/a'' \<mapsto> 2], ino_to_path = [1 \<mapsto> ''/'', 2 \<mapsto> ''/a''], next_ino = 3\<rparr>,
      open_files := [1 \<mapsto> \<lparr>of_ino = 2, of_copy = 0, of_file = 0\<rparr>], open_copies := [2 \<mapsto> 0],
      copy_at := (\<lambda>_. local_copy_new [])(0 := (local_copy_new (local_path_for (demo_env []) 2))
        \<lparr>lc_dirty := b, lc_pulled := True, lc_refs := 1\<rparr>), next_copy := 1, next_fh := 2,
      fs_world := (demo_world [] c)\<lparr>w_host := \<lparr>h_names = [local_path_for (demo_env []) 2 \<mapsto> 0],
        h_files = (\<lambda>_. [])(0 := c), h_next = 1, h_faults = []\<rparr>\<rparr>\<rparr>"

lemma demo_local_path: "local_path_for (demo_env ks) = local_path_for (demo_env [])"
  by (simp add: local_path_for_def fun_eq_iff)

lemma demo_file_sel [simp]:
  "open_files (demo_file c b) = [1 \<mapsto> \<lparr>of_ino = 2, of_copy = 0, of_file = 0\<rparr>]"
  "open_copies (demo_file c b) = [2 \<mapsto> 0]" "next_fh (demo_file c b) = 2" "next_copy (demo_file c b) = 1"
  "copy_at (demo_file c b) 0 = \<lparr>lc_path = local_path_for (demo_env []) 2, lc_dirty = b, lc_refs = 1,
     lc_pulled = True, lc_evicted = False, lc_poisoned = False\<rparr>"
  "inodes (demo_file c b) = \<lparr>path_to_ino = [''/'' \<mapsto> 1, ''/a'' \<mapsto> 2], ino_to_path = [1 \<mapsto> ''/'', 2 \<mapsto> ''/a''],
     next_ino = 3\<rparr>"
  "host_of (demo_file c b) = \<lparr>h_names = [local_path_for (demo_env []) 2 \<mapsto> 0], h_files = (\<lambda>_. [])(0 := c),
     h_next = 1, h_faults = []\<rparr>"
  "w_dev (fs_world (demo_file c b)) = mock_with_content c (mock_new [])"
  "open_dirs (demo_file c b) = Map.empty" "fs_cache (demo_file c b) = cache_new 30000000000"
  by (simp_all add: demo_file_def demo_defs local_copy_new_def)

lemma demo_file_handles [simp]: "handles (demo_file c b) 0 = {1}"
  by (auto simp: handles_def)

lemma demo_file_path [simp]: "ino_path 2 (demo_file c b) = Some ''/a''" "ino_path 1 (demo_file c b) = Some ''/''"
  by (simp_all add: ino_path_def get_path_def)

lemma demo_file_ok: "fs_ok (demo_env ks) (demo_file c b)" "files_ok (demo_env ks) (demo_file c b)"
proof -
  have "ino_table_ok (inodes (demo_file c b))"
    by (auto simp: ino_table_ok_def inverse_maps_def split: if_splits)
  moreover have "copies_ok (demo_env ks) None (demo_file c b)"
    by (auto simp: copies_ok_def copy_ok_def holds_def demo_local_path[of ks] split: if_splits)
  moreover have "handles_fresh (demo_file c b)"
    by (auto simp: handles_fresh_def split: if_splits)
  ultimately show "fs_ok (demo_env ks) (demo_file c b)" by (simp add: fs_ok_def)
  show "files_ok (demo_env ks) (demo_file c b)"
    by (auto simp: files_ok_def host_ok_def demo_local_path[of ks] split: if_splits)
qed

text \<open>A flush of the test double records the push.\<close>

lemma demo_push:
  "dev_push (mock_env 5 False) l p w = (Ok (), w\<lparr>w_dev := (w_dev w)\<lparr>mk_pushes := mk_pushes (w_dev w) @ [(l, p)]\<rparr>\<rparr>)"
  "dev_sync_device (mock_env 5 False) w = (Ok (), w)"
  by (simp_all add: dev_push_def dev_sync_device_def mock_env_def mock_device_def mock_push_def mock_sync_device_def)

lemma demo_mv:
  "mk_responses (w_dev w) = [] \<Longrightarrow> dev_mv (mock_env 5 False) a b w
    = (Ok (), w\<lparr>w_dev := (w_dev w)\<lparr>mk_commands := mk_commands (w_dev w) @ [mv_cmd a b]\<rparr>\<rparr>)"
  by (simp add: dev_mv_def run_mutation_def run_shell_with_stderr_def mock_env_def mock_device_def mock_next_def
      mock_out_def mutation_outcome_def first_message_def Let_def)

lemma second_open_shares_witness:
  "\<exists>r s'. fs_open (demo_env []) 2 (demo_file ''data'' False) = (r, s')
     \<and> w_dev (fs_world s') = w_dev (fs_world (demo_file ''data'' False)) \<and> h_files (host_of s') 0 = ''data''"
proof -
  obtain r s' where o: "fs_open (demo_env []) (of_ino \<lparr>of_ino = 2, of_copy = 0, of_file = 0\<rparr>) (demo_file ''data'' False) = (r, s')"
    by (cases "fs_open (demo_env []) 2 (demo_file ''data'' False)") auto
  show ?thesis
    using second_open_shares[OF demo_file_ok(1) _ _ o, of 1 "''/a''"] o by auto
qed

theorem write_read_shared_witness:
  "\<exists>s' s''. fs_write 1 1 ''xy'' (demo_file ''data'' False) = (ReplyWritten 2, s')
     \<and> fs_read 1 1 2 s' = (ReplyData ''xy'', s'')"
proof -
  let ?s = "demo_file ''data'' False"
  obtain s' where w: "fs_write 1 1 ''xy'' ?s = (ReplyWritten 2, s')" and f: "h_faults (host_of s') = []"
    and o: "open_files s' = open_files ?s"
    by (auto simp: fs_write_def on_host_fs_def on_world_def on_host_def host_write_at_def next_fault_def mark_dirty_def)
  obtain bytes s'' where r: "fs_read 1 1 2 s' = (ReplyData bytes, s'')"
    using f o by (auto simp: fs_read_def on_host_fs_def on_world_def on_host_def host_read_at_def next_fault_def)
  have "bytes = take (unat (2 :: u32)) ''xy''"
    using write_read_shared[OF demo_file_ok _ _ _ _ w r] f by simp
  with w r show ?thesis by auto
qed

theorem flush_outcomes_witness:
  "\<exists>s'. fs_flush (demo_env []) 1 (demo_file ''data'' True) = (ReplyOk, s')
     \<and> mk_pushes (w_dev (fs_world s')) = [(local_path_for (demo_env []) 2, ''/a'')]"
proof -
  obtain r s' where f: "fs_flush (demo_env []) 1 (demo_file ''data'' True) = (r, s')"
    by (cases "fs_flush (demo_env []) 1 (demo_file ''data'' True)")
  show ?thesis
    using flush_outcomes[OF demo_file_ok(1) _ f] f
    by (simp add: demo_push mock_with_content_def mock_new_def)
qed

theorem release_outcomes_witness:
  "\<exists>s'. fs_release 1 (demo_file ''data'' True) = (ReplyOk, s') \<and> open_copies s' = Map.empty
     \<and> h_names (host_of s') = Map.empty \<and> mk_pushes (w_dev (fs_world s')) = []"
proof -
  obtain r s' where f: "fs_release 1 (demo_file ''data'' True) = (r, s')"
    by (cases "fs_release 1 (demo_file ''data'' True)")
  show ?thesis
    using release_outcomes[OF demo_file_ok(1)[of "[]"] _ f] f
    by (simp add: host_remove_def next_fault_def mock_with_content_def mock_new_def)
qed

theorem first_open_pulls_witness:
  "\<exists>s'. fs_open (demo_env []) 1 ((demo_start [] [])\<lparr>fs_world := (demo_world [] [])
       \<lparr>w_dev := mock_with_failing_pull (mock_new [])\<rparr>\<rparr>) = (ReplyError EIO, s') \<and> open_copies s' = Map.empty"
proof -
  let ?s = "(demo_start [] [])\<lparr>fs_world := (demo_world [] [])\<lparr>w_dev := mock_with_failing_pull (mock_new [])\<rparr>\<rparr>"
  obtain r s' where f: "fs_open (demo_env []) 1 ?s = (r, s')" by (cases "fs_open (demo_env []) 1 ?s")
  have ok: "fs_ok (demo_env []) ?s"
    unfolding demo_start_def by (rule same_core_ok[OF same_core_gnu(2) fs_ok_new])
  have p: "ino_path 1 ?s = Some ''/''"
    by (simp add: ino_path_def get_path_def demo_start_def adb_fs_new_def ino_table_new_def FUSE_ROOT_INO_def)
  have pull: "dev_pull (e_ops (demo_env [])) ''/'' l (fs_world ?s)
      = (Err (Adb (CommandFailed 1 ''remote object does not exist'')), fs_world ?s)" for l
    by (simp add: dev_pull_def mock_env_def mock_device_def mock_pull_def mock_with_failing_pull_def)
  show ?thesis
    using first_open_pulls[OF ok _ p pull f] f
    by (simp add: demo_start_def adb_fs_new_def device_err_def same_open_def)
qed

theorem rename_then_flush_witness:
  "\<exists>s1 s2. fs_rename (demo_env [''/'', ''/a'']) 1 ''a'' 1 ''b'' (demo_file ''data'' True) = (ReplyOk, s1)
     \<and> fs_flush (demo_env [''/'', ''/a'']) 1 s1 = (ReplyOk, s2)
     \<and> mk_pushes (w_dev (fs_world s2)) = [(local_path_for (demo_env []) 2, ''/b'')]"
proof -
  let ?E = "demo_env [''/'', ''/a'']" and ?s = "demo_file ''data'' True"
  have cp: "child_path ''/'' ''a'' = ''/a''" "child_path ''/'' ''b'' = ''/b''"
    by (simp_all add: child_path_def utf8_lossy_valid utf8_valid_ascii byte_def del: utf8_lossy.simps utf8_valid.simps)
  have rk: "rekeyed ''/a/'' ''/b'' ''/a'' = ''/b''" by (simp add: rekeyed_def strip_prefix_def)
  have "on_device (dev_mv (e_ops ?E) ''/a'' ''/b'') ?s = (Ok (), ?s\<lparr>fs_world := (fs_world ?s)\<lparr>w_dev :=
      (w_dev (fs_world ?s))\<lparr>mk_commands := [mv_cmd ''/a'' ''/b'']\<rparr>\<rparr>\<rparr>)"
    by (simp add: on_device_def on_world_def demo_mv mock_with_content_def mock_new_def)
  then obtain s1 where r: "fs_rename ?E 1 ''a'' 1 ''b'' ?s = (ReplyOk, s1)"
    and w: "mk_pushes (w_dev (fs_world s1)) = []"
    by (simp add: fs_rename_def cp Let_def mock_with_content_def mock_new_def)
  obtain x s2 where f: "fs_flush ?E 1 s1 = (x, s2)" by (cases "fs_flush ?E 1 s1")
  have rq: "req_ok ?E (Rename 1 ''a'' 1 ''b'') ?s"
    by (auto simp: cp at_or_under_def Let_def enumerates_def demo_env_def List.map_filter_def split: if_splits)
  have at: "at_or_under (child_path ''/'' ''a'') (child_path ''/'' ''a'' @ ''/'') ''/a''" by (simp add: cp at_or_under_def)
  have o: "open_files ?s 1 = Some \<lparr>of_ino = 2, of_copy = 0, of_file = 0\<rparr>" by simp
  note r2 = rename_then_flush[OF demo_file_ok(1) rq _ _ r o _ _ at _ _ f]
  have "x = ReplyOk \<and> fs_world s2 = (fs_world s1)\<lparr>w_dev := (w_dev (fs_world s1))\<lparr>mk_pushes :=
      mk_pushes (w_dev (fs_world s1)) @ [(local_path_for ?E 2, ''/b'')]\<rparr>\<rparr>"
    using r2 by (simp add: cp rk demo_push)
  with r f w show ?thesis by (simp add: demo_local_path[of "[''/'', ''/a'']"])
qed


end
