(* ===== verification/Listings.thy ===== *)
theory Listings
  imports Handles
begin

text \<open>
  Names: requests that name an unknown inode or handle, reading a directory in pieces, lookup and
  the attributes that follow it, and the entries of an opened directory.
\<close>

subsection \<open>Unknown inodes and handles\<close>

text \<open>The inodes and the handle a request names.\<close>

fun names_inodes :: "request \<Rightarrow> u64 list" where
  "names_inodes (Getattr ino) = [ino]"
| "names_inodes (Lookup parent name) = [parent]"
| "names_inodes (Opendir ino) = [ino]"
| "names_inodes (Open ino) = [ino]"
| "names_inodes (Mkdir parent name) = [parent]"
| "names_inodes (Unlink parent name) = [parent]"
| "names_inodes (Rmdir parent name) = [parent]"
| "names_inodes (Rename parent name newparent newname) = [parent, newparent]"
| "names_inodes (Setattr ino sz a m) = [ino]"
| "names_inodes (Readlink ino) = [ino]"
| "names_inodes (Create parent name) = [parent]"
| "names_inodes (Mknod parent name) = [parent]"
| "names_inodes req = []"

fun known_handle :: "request \<Rightarrow> 'd adb_fs \<Rightarrow> bool" where
  "known_handle (Readdir fh off) s = (open_dirs s fh \<noteq> None)"
| "known_handle (Read fh off n) s = (open_files s fh \<noteq> None)"
| "known_handle (Write fh off d) s = (open_files s fh \<noteq> None)"
| "known_handle (Flush fh) s = (open_files s fh \<noteq> None)"
| "known_handle req s = True"

text \<open>C29. A request that names an inode without a path is refused with ENOENT, one that reads,
  writes, flushes or lists through a handle that is not open with EBADF, and neither changes
  anything nor reaches the device; releasing an unknown handle is accepted and changes nothing.\<close>

theorem unknown_names_refused:
  "((\<exists>i \<in> set (names_inodes req). ino_path i s = None) \<longrightarrow> serve full E req s = (ReplyError ENOENT, s))
   \<and> (\<not> known_handle req s \<longrightarrow> serve full E req s = (ReplyError EBADF, s))
   \<and> (open_files s fh = None \<longrightarrow> serve full E (Release fh) s = (ReplyOk, s))
   \<and> (open_dirs s fh = None \<longrightarrow> serve full E (Releasedir fh) s = (ReplyOk, s))"
proof (intro conjI impI)
  assume "\<exists>i \<in> set (names_inodes req). ino_path i s = None"
  then show "serve full E req s = (ReplyError ENOENT, s)"
    by (cases req) (auto simp: fs_getattr_def fs_lookup_def fs_opendir_def fs_open_def fs_mkdir_def
        fs_unlink_def fs_rmdir_def fs_rename_def fs_setattr_def fs_readlink_def fs_create_def fs_mknod_def
        with_path_def Let_def split: option.splits)
next
  assume "\<not> known_handle req s"
  then show "serve full E req s = (ReplyError EBADF, s)"
    by (cases req) (auto simp: fs_readdir_def fs_read_def fs_write_def fs_flush_def)
qed (auto simp: fs_release_def fs_releasedir_def fun_upd_idem)

theorem unknown_names_refused_witness:
  "serve (\<lambda>_ _. False) (demo_env []) (Getattr 9) (demo_start [] []) = (ReplyError ENOENT, demo_start [] [])
   \<and> serve (\<lambda>_ _. False) (demo_env []) (Flush 9) (demo_start [] []) = (ReplyError EBADF, demo_start [] [])"
proof -
  let ?s = "demo_start [] []"
  have "ino_path 9 ?s = None" "open_files ?s 9 = None"
    by (simp_all add: ino_path_def get_path_def demo_start_def adb_fs_new_def ino_table_new_def FUSE_ROOT_INO_def)
  then show ?thesis
    using unknown_names_refused[of "Getattr 9" ?s "\<lambda>_ _. False" "demo_env []" 9]
      unknown_names_refused[of "Flush 9" ?s "\<lambda>_ _. False" "demo_env []" 9] by simp
qed

subsection \<open>Reading a directory in pieces\<close>

text \<open>
  What the kernel does with a directory handle: it asks from the offset of the last entry it got
  until a reply is empty.
\<close>

fun read_all :: "nat \<Rightarrow> (dirent list \<Rightarrow> dirent \<Rightarrow> bool) \<Rightarrow> u64 \<Rightarrow> u64 \<Rightarrow> 'd adb_fs \<Rightarrow> dirent list option" where
  "read_all 0 full fh offset s = None"
| "read_all (Suc n) full fh offset s =
     (case fs_readdir full fh offset s of
        (ReplyDirectory [], _) \<Rightarrow> Some []
      | (ReplyDirectory ds, s) \<Rightarrow> map_option (\<lambda>es. ds @ es) (read_all n full fh (fst (snd (last ds))) s)
      | _ \<Rightarrow> None)"

definition numbered :: "nat \<Rightarrow> dir_entry list \<Rightarrow> dirent list" where
  "numbered i dir = map (\<lambda>(k, e). case e of (child_ino, ft, name) \<Rightarrow> (child_ino, of_nat (k + 1), ft, name)) (enumerate i dir)"

lemma numbered_simps [simp]:
  "numbered i [] = []"
  "numbered i ((c, ft, nm) # es) = (c, of_nat (i + 1), ft, nm) # numbered (Suc i) es"
  by (simp_all add: numbered_def)

lemma numbered_length [simp]: "length (numbered i es) = length es"
  by (simp add: numbered_def)

lemma numbered_append: "numbered i (xs @ ys) = numbered i xs @ numbered (i + length xs) ys"
  by (simp add: numbered_def enumerate_append_eq)

lemma add_entries_prefix:
  "\<exists>k \<le> length es. add_entries full i es acc = acc @ numbered i (take k es)
    \<and> (es \<noteq> [] \<and> \<not> full acc (hd (numbered i es)) \<longrightarrow> 0 < k)"
proof (induction full i es acc rule: add_entries.induct)
  case (2 full i c ft nm es acc)
  let ?d = "(c, of_nat (i + 1) :: u64, ft, nm)"
  show ?case
  proof (cases "full acc ?d")
    case True
    then show ?thesis by (intro exI[of _ 0]) (simp add: Let_def)
  next
    case False
    then obtain k where "k \<le> length es" "add_entries full (i + 1) es (acc @ [?d]) = (acc @ [?d]) @ numbered (i + 1) (take k es)"
      using "2.IH"[OF refl False] by blast
    with False show ?thesis by (intro exI[of _ "Suc k"]) (simp add: Let_def)
  qed
qed simp

lemma numbered_last:
  "xs \<noteq> [] \<Longrightarrow> fst (snd (last (numbered i xs))) = of_nat (i + length xs)"
  by (cases xs rule: rev_cases) (auto simp: numbered_append)

lemma read_all_from:
  assumes "\<And>d. \<not> full [] d" "open_dirs s fh = Some dir" "length dir < 2 ^ 64" "k \<le> length dir"
    and "length dir - k < n"
  shows "read_all n full fh (of_nat k) s = Some (numbered k (drop k dir))"
  using assms(4,5)
proof (induction n arbitrary: k)
  case (Suc n)
  have k: "unat (of_nat k :: u64) = k" using Suc.prems(1) assms(3) by (simp add: unat_of_nat)
  obtain m where m: "m \<le> length (drop k dir)"
    "add_entries full k (drop k dir) [] = numbered k (take m (drop k dir))"
    "drop k dir \<noteq> [] \<longrightarrow> 0 < m"
    using add_entries_prefix[of "drop k dir" full k "[]"] assms(1) by auto
  have step: "fs_readdir full fh (of_nat k) s = (ReplyDirectory (numbered k (take m (drop k dir))), s)"
    using assms(2) m(2) by (simp add: fs_readdir_def k)
  show ?case
  proof (cases "drop k dir = []")
    case True
    then show ?thesis using step by simp
  next
    case False
    let ?ds = "take m (drop k dir)"
    have ne: "?ds \<noteq> []" "length ?ds = m" using False m(1,3) by auto
    then have "numbered k ?ds \<noteq> []" by (metis length_0_conv numbered_length)
    then obtain d ds where ds: "numbered k ?ds = d # ds" by (cases "numbered k ?ds") auto
    have "fst (snd (last (numbered k ?ds))) = (of_nat (k + m) :: u64)" using numbered_last[OF ne(1)] ne(2) by simp
    moreover have "read_all n full fh (of_nat (k + m)) s = Some (numbered (k + m) (drop (k + m) dir))"
      by (rule Suc.IH) (use m(1,3) False Suc.prems in auto)
    moreover have "numbered k (drop k dir) = numbered k ?ds @ numbered (k + m) (drop (k + m) dir)"
    proof -
      have "numbered k (?ds @ drop m (drop k dir)) = numbered k ?ds @ numbered (k + m) (drop m (drop k dir))"
        using numbered_append[of k ?ds "drop m (drop k dir)"] by (simp only: ne(2))
      then show ?thesis by (subst (asm) append_take_drop_id) (simp add: add.commute)
    qed
    ultimately show ?thesis using step ds by simp
  qed
qed simp

text \<open>C25. However much room the kernel's buffer has, as long as it takes one entry, reading a
  directory handle piece by piece ends after at most one request per entry and one more, and
  gives every entry of the listing exactly once and in order, with consecutive offsets.\<close>

theorem readdir_enumerates:
  assumes "\<And>d. \<not> full [] d" "open_dirs s fh = Some dir" "length dir < 2 ^ 64"
  shows "read_all (Suc (length dir)) full fh 0 s = Some (numbered 0 dir)"
proof -
  have "read_all (Suc (length dir)) full fh (of_nat 0) s = Some (numbered 0 (drop 0 dir))"
    by (rule read_all_from) (use assms in auto)
  then show ?thesis by simp
qed

theorem readdir_enumerates_witness:
  "read_all 4 (\<lambda>acc d. length acc = 2) 7 0
     ((demo_start [] [])\<lparr>open_dirs := [7 \<mapsto> [(1, Directory, ''.''), (1, Directory, ''..''), (2, RegularFile, ''a'')]]\<rparr>)
   = Some [(1, 1, Directory, ''.''), (1, 2, Directory, ''..''), (2, 3, RegularFile, ''a'')]"
proof -
  let ?dir = "[(1, Directory, ''.''), (1, Directory, ''..''), (2, RegularFile, ''a'')] :: dir_entry list"
  let ?full = "\<lambda>acc d. length acc = 2" and ?s = "(demo_start [] [])\<lparr>open_dirs := [7 \<mapsto> ?dir]\<rparr>"
  have "read_all (Suc (length ?dir)) ?full 7 0 ?s = Some (numbered 0 ?dir)"
    by (rule readdir_enumerates) simp_all
  then show ?thesis by (simp add: eval_nat_numeral del: read_all.simps)
qed

subsection \<open>Lookups and listings\<close>

abbreviation instant :: "'d fs_env \<Rightarrow> 'd adb_fs \<Rightarrow> nat" where
  "instant E s \<equiv> e_instant_now E (fs_world s)"

text \<open>What \<open>fetch_meta\<close> answered is in the cache it leaves, and a hit changes nothing.\<close>

lemma cache_get_hit: "cache_get p t c = (Some m, c') \<Longrightarrow> cache_get p t c' = (Some m, c')"
  by (auto simp: cache_get_def split: option.splits if_splits)

lemma cache_get_inserted: "cache_get p t (cache_insert p m t c) = (Some m, cache_insert p m t c)"
  by (simp add: cache_get_def cache_insert_def)

lemma fetch_meta_cached:
  assumes "fetch_meta E p s = (r, s')"
  shows "r = Ok m \<Longrightarrow> cache_get p (instant E s') (fs_cache s') = (Some (Some m), fs_cache s')"
    and "r = Err (NotFound q) \<Longrightarrow> cache_get p (instant E s') (fs_cache s') = (Some None, fs_cache s')"
proof -
  have remembered: "cache_get p (instant E t) (fs_cache (remember E p mo t)) = (Some mo, fs_cache (remember E p mo t))" for mo t
    by (simp add: remember_def cache_get_inserted)
  have world: "fs_world (remember E p mo t) = fs_world t" for mo t by (simp add: remember_def)
  show "r = Ok m \<Longrightarrow> cache_get p (instant E s') (fs_cache s') = (Some (Some m), fs_cache s')"
    "r = Err (NotFound q) \<Longrightarrow> cache_get p (instant E s') (fs_cache s') = (Some None, fs_cache s')"
    using assms remembered world
    by (auto simp: fetch_meta_def Let_def split: prod.splits option.splits res.splits device_error.splits
        dest: cache_get_hit)
qed

lemma fetch_meta_hit:
  assumes "cache_get p (instant E s) (fs_cache s) = (Some (Some m), fs_cache s)"
  shows "fetch_meta E p s = (Ok m, s)"
  using assms by (simp add: fetch_meta_def)

lemma assign_frame:
  "assign_ino p s = (i, s') \<Longrightarrow> fs_cache s' = fs_cache s \<and> fs_world s' = fs_world s
    \<and> open_dirs s' = open_dirs s \<and> next_fh s' = next_fh s"
  by (auto simp: assign_ino_def split: prod.splits)


text \<open>The entries of a listing that become directory entries.\<close>

abbreviation listed :: "(string \<times> file_meta option) list \<Rightarrow> (string \<times> file_meta option) list" where
  "listed es \<equiv> filter (\<lambda>e. fst e \<noteq> ''.'' \<and> fst e \<noteq> ''..'') es"

definition entry_type :: "file_meta option \<Rightarrow> file_type" where
  "entry_type meta = (case meta of Some m \<Rightarrow> mode_to_filetype (m_mode m) | None \<Rightarrow> RegularFile)"

lemma ino_path_assign:
  assumes "fs_ok E s" "next_ino (inodes s) \<noteq> - 1" "assign_ino p s = (i, s')" "ino_path j s = Some q"
  shows "ino_path j s' = Some q"
proof -
  obtain t where "get_or_assign_ino p (inodes s) = (i, t)" "s' = s\<lparr>inodes := t\<rparr>"
    using assms(3) by (auto simp: assign_ino_def split: prod.splits)
  then show ?thesis
    using get_or_assign_ino_keeps[OF _ assms(2)] assms(1,4) by (simp add: ino_path_def fs_ok_def)
qed

lemma opendir_loop_entries:
  assumes "fs_ok E s" "unat (next_ino (inodes s)) + length es < 2 ^ 64"
    and "opendir_loop E p es acc s = (d, s')"
  shows "\<exists>is. length is = length (listed es)
      \<and> d = acc @ map2 (\<lambda>i e. (i, entry_type (snd e), fst e)) is (listed es)
      \<and> (\<forall>(i, e) \<in> set (zip is (listed es)). ino_path i s' = Some (child_path p (fst e)))
      \<and> (\<forall>j q. ino_path j s = Some q \<longrightarrow> ino_path j s' = Some q)"
  using assms
proof (induction E p es acc s arbitrary: d s' rule: opendir_loop.induct)
  case (1 E p acc s)
  then show ?case by simp
next
  case (2 E p name meta es acc s)
  show ?case
  proof (cases "name = ''.'' \<or> name = ''..''")
    case True
    have "\<exists>is. length is = length (listed es)
      \<and> d = acc @ map2 (\<lambda>i e. (i, entry_type (snd e), fst e)) is (listed es)
      \<and> (\<forall>(i, e) \<in> set (zip is (listed es)). ino_path i s' = Some (child_path p (fst e)))
      \<and> (\<forall>j q. ino_path j s = Some q \<longrightarrow> ino_path j s' = Some q)"
      by (rule "2.IH"(1)[OF True]) (use "2.prems" True in simp_all)
    with True show ?thesis by auto
  next
    case False
    let ?c = "child_path p name"
    obtain i t where a: "assign_ino ?c s = (i, t)" by (cases "assign_ino ?c s")
    let ?t = "case meta of Some m \<Rightarrow> remember E ?c (Some m) t | None \<Rightarrow> t"
    let ?acc = "acc @ [(i, entry_type meta, name)]"
    have room: "next_ino (inodes s) \<noteq> - 1" "unat (next_ino (inodes s) + 1) + length es < 2 ^ 64"
      using word_not_max "2.prems"(2) by auto
    note t = fs_ok_assign[OF "2.prems"(1) room(1) a]
    have core: "same_core t ?t" by (cases meta) simp_all
    have "fs_ok E ?t" using same_core_ok[OF core t(1)] .
    moreover have "unat (next_ino (inodes ?t)) + length es < 2 ^ 64"
      using core_next_ino[OF core] assign_next[OF a] room(2) "2.prems"(2) by auto
    moreover have "opendir_loop E p es ?acc ?t = (d, s')"
      using "2.prems"(3) False by (simp add: a Let_def entry_type_def)
    ultimately obtain js where js: "length js = length (listed es)"
      "d = ?acc @ map2 (\<lambda>i e. (i, entry_type (snd e), fst e)) js (listed es)"
      "\<forall>(i, e) \<in> set (zip js (listed es)). ino_path i s' = Some (child_path p (fst e))"
      "\<forall>j q. ino_path j ?t = Some q \<longrightarrow> ino_path j s' = Some q"
      using "2.IH"(2)[OF False refl a[symmetric], of d s'] unfolding entry_type_def by blast
    have same: "ino_path j ?t = ino_path j t" for j using core by (simp add: ino_path_def same_core_def)
    have "ino_path i s' = Some ?c" using t(2) js(4) same by simp
    moreover have "ino_path j s' = Some q" if "ino_path j s = Some q" for j q
      using ino_path_assign[OF "2.prems"(1) room(1) a that] js(4) same by simp
    ultimately show ?thesis
      using js(1-3) False by (intro exI[of _ "i # js"]) auto
  qed
qed

lemma opendir_loop_dirs: "open_dirs (snd (opendir_loop E p es acc s)) = open_dirs s"
proof (induction es arbitrary: acc s)
  case (Cons e es)
  obtain name meta where e: "e = (name, meta)" by (cases e)
  obtain i t where a: "assign_ino (child_path p name) s = (i, t)" by (cases "assign_ino (child_path p name) s")
  show ?case
    using assign_frame[OF a] by (cases meta) (simp_all add: e a Cons.IH Let_def remember_def)
qed simp

text \<open>C24. An opened directory lists itself, its parent and then exactly the entries the device
  listed, in the device's order, without any dot entries of the device; every entry carries an
  inode that leads to its path, and the types come from the listed modes. No inode that was
  known before changes its path.\<close>

theorem opendir_lists_device_entries:
  assumes "fs_ok E s" "req_ok E (Opendir ino) s" "fs_opendir E ino s = (ReplyOpened fh fl, s')"
  shows "\<exists>p es w is. ino_path ino s = Some p \<and> list_dir (e_ops E) p (fs_world s) = (Ok es, w)
    \<and> fh = next_fh s \<and> open_dirs s fh = None
    \<and> open_dirs s' = (open_dirs s)(fh \<mapsto> [(ino, Directory, ''.''), (ino, Directory, ''..'')]
        @ map2 (\<lambda>i e. (i, entry_type (snd e), fst e)) is (listed es))
    \<and> length is = length (listed es)
    \<and> (\<forall>(i, e) \<in> set (zip is (listed es)). ino_path i s' = Some (child_path p (fst e)))
    \<and> (\<forall>j q. ino_path j s = Some q \<longrightarrow> ino_path j s' = Some q)"
proof -
  obtain p where p: "ino_path ino s = Some p"
    using assms(3) by (cases "ino_path ino s") (auto simp: fs_opendir_def with_path_def)
  obtain r w where l: "list_dir (e_ops E) p (fs_world s) = (r, w)" by (cases "list_dir (e_ops E) p (fs_world s)")
  let ?t = "s\<lparr>fs_world := w\<rparr>" and ?dots = "[(ino, Directory, ''.''), (ino, Directory, ''..'')]"
  have dev: "on_device (list_dir (e_ops E) p) s = map_err_res device_err (r, ?t)"
    by (simp add: on_device_def on_world_def l)
  then obtain es where es: "r = Ok es"
    using assms(3) p by (cases r) (auto simp: fs_opendir_def with_path_def)
  obtain d u where o: "opendir_loop E p es ?dots ?t = (d, u)" by (cases "opendir_loop E p es ?dots ?t")
  have s': "fh = next_fh u" "s' = u\<lparr>next_fh := next_fh u + 1, open_dirs := (open_dirs u)(next_fh u \<mapsto> d)\<rparr>"
    using assms(3) p dev es o by (auto simp: fs_opendir_def with_path_def Let_def)
  have t: "fs_ok E ?t" by (rule same_core_ok[OF same_core_gnu(2) assms(1)])
  have room: "unat (next_ino (inodes ?t)) + length es < 2 ^ 64" using assms(2) p l es by auto
  have frame: "open_dirs u = open_dirs s" using opendir_loop_dirs[of E p es ?dots ?t] o by simp
  note loop = opendir_loop_entries[OF t room o]
  have fh: "next_fh u = next_fh s" using ok_opendir_loop[OF t room, of p ?dots] o by simp
  have "open_dirs s (next_fh s) = None"
    using assms(1) by (cases "open_dirs s (next_fh s)") (auto simp: fs_ok_def handles_fresh_def)
  with loop p l es s' fh frame show ?thesis
    by (auto simp: ino_path_def)
qed

abbreviation demo_meta :: file_meta where
  "demo_meta \<equiv> entry_result (sample_libc 5) (\<lambda>_. 0) sample_entry"

lemma demo_child: "child_path ''/'' ''a'' = ''/a''" "child_path ''/'' ''f'' = ''/f''"
  by (simp_all add: child_path_def utf8_lossy_valid utf8_valid_ascii byte_def del: utf8_lossy.simps utf8_valid.simps)


text \<open>The file system of \<open>demo_file\<close> on a device that answers with \<open>rs\<close>.\<close>

definition demo_answering :: "(adb_error, shell_output) res list \<Rightarrow> mock_adb adb_fs" where
  "demo_answering rs = (demo_file ''data'' False)\<lparr>fs_world := (fs_world (demo_file ''data'' False))\<lparr>w_dev := mock_new rs\<rparr>\<rparr>"

lemma demo_answering_ok: "fs_ok (demo_env ks) (demo_answering rs)"
  unfolding demo_answering_def by (rule same_core_ok[OF same_core_gnu(2) demo_file_ok(1)])

lemma demo_answering_sel [simp]:
  "inodes (demo_answering rs) = inodes (demo_file ''data'' False)" "next_fh (demo_answering rs) = 2"
  "open_dirs (demo_answering rs) = Map.empty" "w_dev (fs_world (demo_answering rs)) = mock_new rs"
  "host_of (demo_answering rs) = host_of (demo_file ''data'' False)"
  "open_copies (demo_answering rs) = [2 \<mapsto> 0]" "next_copy (demo_answering rs) = 1"
  "open_files (demo_answering rs) = [1 \<mapsto> \<lparr>of_ino = 2, of_copy = 0, of_file = 0\<rparr>]"
  by (simp_all add: demo_answering_def)

lemma demo_get_metadata:
  assumes "mk_responses (w_dev w) = [mock_out [print_ls (\<lambda>_. 0) sample_entry]]"
  shows "get_metadata (mock_env 5 False) p w = (Ok demo_meta, snd (mock_next (ls_path_cmd p) w))"
proof -
  have np: "\<not> suffix PERMISSION_ERR_SUFFIX (print_ls (\<lambda>_. 0) sample_entry)"
    by (simp add: print_ls_def name_col_def sample_entry_def suffix_to_prefix PERMISSION_ERR_SUFFIX_def)
  have "time_ok (sample_libc 5) sample_entry" by (simp add: time_ok_def sample_libc_def)
  with np show ?thesis
    using assms sample_entry_ok
    by (simp add: get_metadata_def run_shell_with_stderr_def mock_env_def mock_device_def mock_next_def mock_out_def
        mock_new_def Let_def metadata_of_output_def parse_print_ls_ok)
qed

theorem opendir_lists_device_entries_witness:
  "\<exists>s' is. fs_opendir (demo_env []) 1 (demo_answering [mock_out
       [''total 8'', print_ls (\<lambda>_. 0) sample_entry, perm_line ''/'' ''efs'']]) = (ReplyOpened 2 no_flags, s')
     \<and> open_dirs s' = [2 \<mapsto> [(1, Directory, ''.''), (1, Directory, ''..''),
          (fst is, RegularFile, ''file.html''), (snd is, RegularFile, ''efs'')]]
     \<and> ino_path (fst is) s' = Some ''/file.html'' \<and> ino_path (snd is) s' = Some ''/efs''"
proof -
  let ?ls = "[''total 8'', print_ls (\<lambda>_. 0) sample_entry, perm_line ''/'' ''efs'']"
  let ?s = "demo_answering [mock_out ?ls]" and ?es = "[(''file.html'', Some demo_meta), (''efs'', None)]"
  let ?xs = "[Listed (\<lambda>_. 0) sample_entry, Refused ''/'' ''efs'']"
  have ok: "list_all (listed_ok (sample_libc 5)) ?xs"
    using sample_entry_ok sample_name_ok utf8_valid_ascii[of "''efs''"]
    by (simp add: time_ok_def sample_libc_def byte_def del: utf8_valid.simps)
  have t: "''total 8'' = ''total '' @ show_nat 8" by (simp add: show_nat.simps)
  let ?w = "snd (mock_next (ls_dir_cmd ''/'') (fs_world ?s))"
  have sh: "adb_shell (d_adb (mock_env 5 False)) (ls_dir_cmd ''/'') (fs_world ?s)
      = (Ok ((''total '' @ show_nat 8) # map listed_line ?xs), ?w)"
    unfolding t[symmetric]
    by (simp add: mock_env_def mock_device_def mock_shell_def mock_next_def mock_out_def mock_new_def Let_def)
  have l: "list_dir (mock_env 5 False) ''/'' (fs_world ?s) = (Ok ?es, ?w)"
    using list_dir_of_lines[OF sh] list_dir_loop_listed[of "d_libc (mock_env 5 False)" ?xs] ok total_line
    by (simp add: mock_env_def) (simp add: sample_entry_def)
  let ?loop = "opendir_loop (demo_env []) ''/'' ?es [(1, Directory, ''.''), (1, Directory, ''..'')] (?s\<lparr>fs_world := ?w\<rparr>)"
  obtain d u where "?loop = (d, u)" by (cases ?loop)
  then obtain fh fl s' where o: "fs_opendir (demo_env []) 1 ?s = (ReplyOpened fh fl, s')" and fl: "fl = no_flags"
    using l by (simp add: fs_opendir_def with_path_def ino_path_def get_path_def on_device_def on_world_def Let_def
        del: opendir_loop.simps)
  have rq: "req_ok (demo_env []) (Opendir 1) ?s"
    using l by (auto simp: ino_path_def get_path_def)
  obtain p es w "is" where k: "ino_path 1 ?s = Some p" "list_dir (e_ops (demo_env [])) p (fs_world ?s) = (Ok es, w)"
    "fh = next_fh ?s"
    "open_dirs s' = (open_dirs ?s)(fh \<mapsto> [(1, Directory, ''.''), (1, Directory, ''..'')]
        @ map2 (\<lambda>i e. (i, entry_type (snd e), fst e)) is (listed es))"
    "length is = length (listed es)"
    "\<forall>(i, e) \<in> set (zip is (listed es)). ino_path i s' = Some (child_path p (fst e))"
    using opendir_lists_device_entries[OF demo_answering_ok rq o] by blast
  have p: "p = ''/''" using k(1) by (simp add: ino_path_def get_path_def)
  then have es: "es = ?es" using k(2) l by simp
  then obtain i j where ij: "is = [i, j]" using k(5) by (auto simp: length_Suc_conv)
  have c: "child_path ''/'' ''file.html'' = ''/file.html''" "child_path ''/'' ''efs'' = ''/efs''"
    by (simp_all add: child_path_def utf8_lossy_valid utf8_valid_ascii byte_def del: utf8_lossy.simps utf8_valid.simps)
  have ty: "entry_type (Some demo_meta) = RegularFile"
    by (simp add: entry_type_def entry_result_def entry_meta_def sample_entry_def mode_to_filetype_def file_type_defs Let_def)
  show ?thesis
    using o k(3,4,6) by (intro exI[of _ s'] exI[of _ "(i, j)"]) (simp add: es ij p c ty fl, simp add: entry_type_def)
qed

end
