(* ===== verification/Creation.thy ===== *)
theory Creation
  imports Listings
begin

text \<open>
  \<open>create\<close>: what a new file is on the device, in the inode table and behind its handle.
\<close>

subsection \<open>New files\<close>

lemma acquire_empty_Ok:
  assumes "copies_ok E None s" "acquire_copy E i p EmptyInit s = (Ok c, t)"
  shows "host_contents (host_of t) (local_path_for E i) = Some []" "lc_dirty (copy_at t c)"
proof -
  obtain d s1 where e: "copy_entry E i s = (d, s1)" by (cases "copy_entry E i s")
  have ent: "lc_path (copy_at s1 d) = local_path_for E i" "\<not> lc_poisoned (copy_at s1 d)" "\<not> lc_evicted (copy_at s1 d)"
    using copy_entry_entered(1)[OF assms(1) e] by (simp_all add: entered_def)
  obtain r u where pop: "populate E d p EmptyInit s1 = (r, u)" by (cases "populate E d p EmptyInit s1")
  obtain x where "acquire_round E i p EmptyInit s = (Some x, t)" "x = Ok c"
    using acquire_round_ok[OF assms(1)] acquire_copy_round[OF assms(1)] assms(2) by (metis Pair_inject)
  then have r: "r = Ok ()" "d = c"
    and t: "t = set_copy c ((copy_at u c)\<lparr>lc_pulled := True, lc_refs := lc_refs (copy_at u c) + 1\<rparr>) u"
    using e ent pop by (auto simp: acquire_round_def split: res.splits)
  obtain n h where c: "host_create (local_path_for E i) (host_of s1) = (Ok n, h)"
    and u: "u = mark_dirty c True (s1\<lparr>fs_world := (fs_world s1)\<lparr>w_host := h\<rparr>\<rparr>)"
    using pop ent(1) r
    by (auto simp: populate_def try_res_Ok_iff on_host_fs_def on_world_def on_host_def split: prod.splits)
  have "h_names h (local_path_for E i) = Some n" "h_files h n = []" using host_create_contents[OF c] by auto
  then show "host_contents (host_of t) (local_path_for E i) = Some []" "lc_dirty (copy_at t c)"
    by (simp_all add: t u mark_dirty_def host_contents_def)
qed

lemma create_opened_Ok:
  assumes "create_opened E i c p s = (Ok (f, m), t)" "lc_dirty (copy_at s c)"
  obtains q w w1 w2 where "ino_path i s = Some q" "h_names (w_host w) (lc_path (copy_at s c)) = Some f"
    "h_names (w_host w) = h_names (host_of s)" "h_files (w_host w) = h_files (host_of s)"
    "w_dev w = w_dev (fs_world s)"
    "dev_push (e_ops E) (lc_path (copy_at s c)) q w = (Ok (), w1)"
    "dev_sync_device (e_ops E) w1 = (Ok (), w2)"
    "get_metadata (e_ops E) p w2 = (Ok m, fs_world t)" "\<not> lc_dirty (copy_at t c)"
proof -
  let ?lp = "lc_path (copy_at s c)"
  obtain x h where o: "host_open ?lp (host_of s) = (x, h)" by (cases "host_open ?lp (host_of s)")
  then have x: "x = Ok f"
    using assms(1) by (cases x) (auto simp: create_opened_def on_host_fs_eq try_res_Ok_iff)
  let ?s = "s\<lparr>fs_world := (fs_world s)\<lparr>w_host := h\<rparr>\<rparr>"
  obtain u s2 where push: "push_if_dirty E i c ?s = (Ok u, s2)"
    and meta: "on_device (get_metadata (e_ops E) p) s2 = (Ok m, t)"
    using assms(1) o x by (auto simp: create_opened_def on_host_fs_eq try_res_Ok_iff)
  have g: "get_metadata (e_ops E) p (fs_world s2) = (Ok m, fs_world t)" "copy_at t = copy_at s2"
    using meta by (auto simp: on_device_def on_world_def split: prod.splits)
  obtain q w where pw: "ino_path i ?s = Some q" "dev_push (e_ops E) (lc_path (copy_at ?s c)) q (fs_world ?s) = (Ok (), w)"
    "dev_sync_device (e_ops E) w = (Ok (), fs_world s2)" "\<not> lc_dirty (copy_at s2 c)"
    by (rule push_if_dirty_Ok[OF push]) (use assms(2) in simp_all)
  have "h_names (host_of s) ?lp = Some f" using host_open_Ok[of ?lp _ f h] host_open_world[OF o] o x by simp
  then show ?thesis
    by (intro that[of q "fs_world ?s"])
      (use pw g host_open_world[OF o] in \<open>simp_all add: ino_path_def\<close>)
qed

text \<open>C26. A \<open>create\<close> that replies has pushed an empty local file to the path of the new entry and
  synced the device, then read the entry's metadata back from the device; the handle is a
  descriptor of that local file, its inode leads to the path, and nothing is left to push.\<close>

theorem create_pushes_empty_file:
  assumes "fs_ok E s" "next_ino (inodes s) \<noteq> - 1" "ino_path parent s = Some pp"
    and "fs_create E parent name s = (ReplyCreated t a g fh fl, s')"
  defines "p \<equiv> child_path pp name" and "lp \<equiv> local_path_for E (at_ino a)"
  shows "\<exists>f w w1 w2 m. fh = next_fh s \<and> open_files s' = (open_files s)(fh \<mapsto> f) \<and> of_ino f = at_ino a
    \<and> ino_path (at_ino a) s' = Some p \<and> \<not> lc_dirty (copy_at s' (of_copy f))
    \<and> h_names (w_host w) lp = Some (of_file f) \<and> h_files (w_host w) (of_file f) = []
    \<and> w_dev w = w_dev (fs_world s)
    \<and> dev_push (e_ops E) lp p w = (Ok (), w1) \<and> dev_sync_device (e_ops E) w1 = (Ok (), w2)
    \<and> get_metadata (e_ops E) p w2 = (Ok m, fs_world s')
    \<and> a = meta_to_attr (e_opts E) (at_ino a) m \<and> t = entry_timeout (e_opts E)"
proof -
  obtain ino s1 where as: "assign_ino p s = (ino, s1)" by (cases "assign_ino p s")
  note s1 = fs_ok_assign[OF assms(1,2) as]
  have c1: "copies_ok E None s1" using s1(1) by (simp add: fs_ok_def)
  have fr: "fs_world s1 = fs_world s" "open_files s1 = open_files s" "next_fh s1 = next_fh s"
    using assign_frame[OF as] s1(3) as by (auto simp: assign_ino_def split: prod.splits)
  obtain r sa where acq: "acquire_copy E ino p EmptyInit s1 = (r, sa)"
    by (cases "acquire_copy E ino p EmptyInit s1")
  then obtain c where r: "r = Ok c"
    using assms(3,4) as by (cases r) (auto simp: fs_create_def with_path_def Let_def p_def)
  have held: "copies_ok E (Some (ino, c)) sa" "same_handles s1 sa"
    using acquire_copy_ok[OF c1, of ino p EmptyInit] by (simp_all only: acq r post_simps)
  note lp = held_copy(2)[OF held(1)]
  note empty = acquire_empty_Ok[OF c1 acq[unfolded r]]
  have dev: "w_dev (fs_world sa) = w_dev (fs_world s)"
    using acquire_empty_dev[OF c1, of ino p] by (simp add: acq fr)
  obtain y u where op: "create_opened E ino c p sa = (y, u)" by (cases "create_opened E ino c p sa")
  have body: "answer (case (y, u) of (Panicked, s) \<Rightarrow> (Panicked, s)
       | (Err e, s) \<Rightarrow> try_res (release_copy ino c s) (\<lambda>_ s. (Err e, s))
       | (Ok (f, meta), s) \<Rightarrow> (case insert_handle ino c f (remember E p (Some meta) s) of (fh, s) \<Rightarrow>
          (Ok (ReplyCreated (entry_timeout (e_opts E)) (meta_to_attr (e_opts E) ino meta) 0 fh
             (file_open_flags (e_opts E))), s))) = (ReplyCreated t a g fh fl, s')"
    using assms(3,4) as acq r op unfolding p_def by (simp add: fs_create_def with_path_def Let_def)
  obtain f m where y: "y = Ok (f, m)"
    using body by (cases y) (auto simp: try_res_def answer_def split: res.splits prod.splits)
  let ?u = "remember E p (Some m) u"
  have s': "t = entry_timeout (e_opts E)" "a = meta_to_attr (e_opts E) ino m" "fh = next_fh u"
    "s' = ?u\<lparr>next_fh := next_fh u + 1,
       open_files := (open_files u)(fh \<mapsto> \<lparr>of_ino = ino, of_copy = c, of_file = f\<rparr>)\<rparr>"
    using body by (auto simp: y insert_handle_def Let_def remember_def)
  then have i: "at_ino a = ino" by (simp add: meta_to_attr_def split: prod.splits)
  obtain q w w1 w2 where k: "ino_path ino sa = Some q" "h_names (w_host w) (lc_path (copy_at sa c)) = Some f"
    "h_names (w_host w) = h_names (host_of sa)" "h_files (w_host w) = h_files (host_of sa)"
    "w_dev w = w_dev (fs_world sa)"
    "dev_push (e_ops E) (lc_path (copy_at sa c)) q w = (Ok (), w1)" "dev_sync_device (e_ops E) w1 = (Ok (), w2)"
    "get_metadata (e_ops E) p w2 = (Ok m, fs_world u)" "\<not> lc_dirty (copy_at u c)"
    by (rule create_opened_Ok[OF op[unfolded y] empty(2)])
  have core: "same_core sa u" using core_create_opened op by (metis snd_conv)
  have u: "open_files u = open_files s" "next_fh u = next_fh s" "inodes u = inodes s1"
    using core held(2) fr by (simp_all add: same_core_def same_handles_def)
  have q: "q = p" using k(1) s1(2) held(2) by (simp add: ino_path_def same_handles_def)
  have "h_files (w_host w) f = []"
    using empty(1) k(2-4) by (auto simp: host_contents_def lp)
  then show ?thesis
    using s' u k q dev s1(2) i
    by (intro exI[of _ "\<lparr>of_ino = ino, of_copy = c, of_file = f\<rparr>"] exI[of _ w] exI[of _ w1] exI[of _ w2] exI[of _ m])
      (simp add: remember_def ino_path_def lp lp_def)
qed

text \<open>Creating /f on a device that then lists it.\<close>

theorem create_pushes_empty_file_witness:
  "\<exists>a s'. fs_create (demo_env []) 1 ''f'' (demo_answering [mock_out [print_ls (\<lambda>_. 0) sample_entry]])
       = (ReplyCreated 1000000000 a 0 2 (file_open_flags default_options), s')
     \<and> ino_path (at_ino a) s' = Some ''/f''
     \<and> (\<exists>w w1. dev_push (mock_env 5 False) (local_path_for (demo_env []) (at_ino a)) ''/f'' w = (Ok (), w1))"
proof -
  let ?s = "demo_answering [mock_out [print_ls (\<lambda>_. 0) sample_entry]]" and ?E = "demo_env []"
  let ?lp = "local_path_for (demo_env []) 3"
  obtain s1 where a: "assign_ino ''/f'' ?s = (3, s1)" and s1: "open_copies s1 = [2 \<mapsto> 0]" "next_copy s1 = 1"
    "fs_world s1 = fs_world ?s" "inodes s1 = \<lparr>path_to_ino = [''/'' \<mapsto> 1, ''/a'' \<mapsto> 2, ''/f'' \<mapsto> 3],
       ino_to_path = [1 \<mapsto> ''/'', 2 \<mapsto> ''/a'', 3 \<mapsto> ''/f''], next_ino = 4\<rparr>" "next_fh s1 = 2"
    by (simp add: assign_ino_def get_or_assign_ino_def Let_def)
  have lp: "?lp \<noteq> local_path_for (demo_env []) 2" by (simp add: local_path_inj)
  obtain t where pop: "populate ?E 1 ''/f'' EmptyInit (fresh_copy ?E 3 s1) = (Ok (), t)"
    and t: "inodes t = inodes s1" "next_fh t = 2" "w_dev (fs_world t) = w_dev (fs_world ?s)"
      "copy_at t 1 = (local_copy_new ?lp)\<lparr>lc_dirty := True\<rparr>" "h_names (host_of t) ?lp = Some 1"
      "h_faults (host_of t) = []"
    using lp by (simp add: populate_def s1 on_host_fs_def on_world_def on_host_def host_create_def next_fault_def
        mark_dirty_def local_copy_new_def)
  let ?t = "set_copy 1 ((copy_at t 1)\<lparr>lc_pulled := True, lc_refs := 1\<rparr>) t"
  have acq: "acquire_copy ?E 3 ''/f'' EmptyInit s1 = (Ok 1, ?t)"
    using acquire_fresh[of s1 3 ?E "''/f''" EmptyInit] pop s1 by simp
  obtain m u where op: "create_opened ?E 3 1 ''/f'' ?t = (Ok (1, m), u)" and u: "next_fh u = 2"
    using demo_get_metadata t s1
    by (simp add: create_opened_def on_host_fs_def on_world_def on_host_def host_open_def next_fault_def
        local_copy_new_def push_if_dirty_def push_and_sync_def mark_dirty_def Let_def ino_path_def get_path_def
        demo_push invalidate_def on_device_def mock_new_def)
  have "ino_path 1 ?s = Some ''/''" by (simp add: ino_path_def get_path_def)
  then obtain a s' where c: "fs_create ?E 1 ''f'' ?s = (ReplyCreated 1000000000 a 0 2 (file_open_flags default_options), s')"
    using a acq op u by (simp add: fs_create_def with_path_def demo_child Let_def insert_handle_def default_options_def
        remember_def)
  have p: "ino_path 1 ?s = Some ''/''" by (simp add: ino_path_def get_path_def)
  show ?thesis
    using create_pushes_empty_file[OF demo_answering_ok _ p c] c demo_child by auto
qed

end
