(* ===== verification/Answering.thy ===== *)
theory Answering
  imports Creation
begin

text \<open>
  Every request is answered: no request of a reachable state panics in the code of the file system
  itself, so the only way to lose a reply is a panic while reading what \<open>ls\<close> printed or in the
  transport.
\<close>

subsection \<open>Every request is answered\<close>

text \<open>A call that does not panic.\<close>

abbreviation sound :: "('e, 'a) res \<times> 's \<Rightarrow> bool" where
  "sound r \<equiv> fst r \<noteq> Panicked"

lemma sound_try [intro]:
  "sound r \<Longrightarrow> (\<And>a s. r = (Ok a, s) \<Longrightarrow> sound (k a s)) \<Longrightarrow> sound (try_res r k)"
  by (cases r; cases "fst r") auto

lemma sound_map_err [simp]: "sound (map_err_res f r) = sound r"
  by (cases r; cases "fst r") auto

lemma sound_on_world [simp]: "sound (on_world f s) = sound (f (fs_world s))"
  by (simp add: on_world_def split: prod.splits)

lemma sound_on_host_fs [simp]: "sound (on_host_fs f s) = sound (f (host_of s))"
  by (simp add: on_host_fs_def on_host_def split: prod.splits)

lemma sound_host [simp]:
  "sound (host_create p h)" "sound (host_open p h)" "sound (host_set_len i n h)" "sound (host_read_at i off m h)"
  "sound (host_write_at i off d h)" "sound (host_remove p h)" "sound (host_mknod p h)"
  by (auto simp: host_call_defs split: prod.splits fault.splits option.splits)

lemma answer_sound: "fst (answer r) \<noteq> NoReply" if "sound r" "\<And>x s. r = (Ok x, s) \<Longrightarrow> x \<noteq> NoReply"
  using that by (cases r; cases "fst r") auto

text \<open>
  The calls that leave the program answer: the transport and the scratch directory never panic,
  nor does reading what \<open>ls\<close> printed.
\<close>

definition answers :: "'d fs_env \<Rightarrow> bool" where
  "answers E =
    ((\<forall>cmd w. sound (adb_shell (d_adb (e_ops E)) cmd w)) \<and> (\<forall>cmd w. sound (adb_shell_with_stderr (d_adb (e_ops E)) cmd w))
     \<and> (\<forall>r l w. sound (adb_pull (d_adb (e_ops E)) r l w)) \<and> (\<forall>l r w. sound (adb_push (d_adb (e_ops E)) l r w))
     \<and> (\<forall>w. sound (adb_sync_device (d_adb (e_ops E)) w)) \<and> (\<forall>d w. sound (e_tempdir_in E d w))
     \<and> (\<forall>p w. sound (get_metadata (e_ops E) p w)) \<and> (\<forall>p w. sound (list_dir (e_ops E) p w)))"

lemma sound_dev:
  assumes "answers E"
  shows "sound (dev_pull (e_ops E) p l w)" "sound (dev_push (e_ops E) l p w)" "sound (dev_sync_device (e_ops E) w)"
    "sound (run_shell_with_stderr (e_ops E) cmd w)" "sound (rescan_file (e_ops E) p w)"
    "sound (dev_mkdir (e_ops E) p w)" "sound (dev_rm (e_ops E) p w)" "sound (dev_rmdir (e_ops E) p w)"
    "sound (dev_mv (e_ops E) p q w)" "sound (get_metadata (e_ops E) p w)" "sound (list_dir (e_ops E) p w)"
    "sound (e_tempdir_in E p w)"
proof -
  have run: "sound (run_mutation (e_ops E) cmd w)" for cmd w
    unfolding run_mutation_def run_shell_with_stderr_def
    by (rule sound_try) (use assms mutation_outcome_not_Panicked in \<open>simp_all add: answers_def\<close>)
  have scan: "sound (rescan_file (e_ops E) p w)" "sound (rescan_dir_removed (e_ops E) p w)" for p w
    unfolding rescan_file_def rescan_dir_removed_def run_shell_def
    by (rule sound_try; use assms in \<open>simp add: answers_def\<close>)+
  show "sound (rescan_file (e_ops E) p w)" by (rule scan)
  show "sound (dev_mkdir (e_ops E) p w)" by (simp add: dev_mkdir_def run)
  show "sound (dev_rm (e_ops E) p w)" "sound (dev_rmdir (e_ops E) p w)"
    unfolding dev_rm_def dev_rmdir_def by (rule sound_try; simp add: run scan)+
  show "sound (dev_mv (e_ops E) p q w)"
    unfolding dev_mv_def
  proof (rule sound_try[OF run])
    fix a s
    have "sound (try_res (rescan_file (e_ops E) p s) (\<lambda>_. rescan_file (e_ops E) q))"
      by (rule sound_try) (simp_all add: scan)
    then show "sound (if d_rescan (e_ops E)
        then try_res (rescan_file (e_ops E) p s) (\<lambda>_ w. rescan_file (e_ops E) q w) else (Ok (), s))"
      by simp
  qed
qed (use assms in \<open>simp_all add: answers_def dev_pull_def dev_push_def dev_sync_device_def run_shell_with_stderr_def\<close>)

lemma sound_touch:
  assumes "answers E"
  shows "fst (dev_touch (e_ops E) p a m (g, w)) \<noteq> Panicked"
proof (induction "e_ops E" p a m "(g, w)" arbitrary: g w rule: dev_touch.induct)
  case (1 p a m g w)
  let ?r = "run_shell_with_stderr (e_ops E) (join '' && '' (touch_parts g p a m)) w"
  obtain r w1 where r: "?r = (r, w1)" by (cases ?r)
  then have "r \<noteq> Panicked" using sound_dev(4)[OF assms] by (metis fst_conv)
  moreover have "rescan_file (e_ops E) p w1 \<noteq> (Panicked, w2)" for w2
    using sound_dev(5)[OF assms, of p w1] by auto
  moreover have "fst (dev_touch (e_ops E) p a m (False, w1)) \<noteq> Panicked"
    if "touch_parts g p a m \<noteq> []" "r = Ok o1" "first_message o1 = Some msg" "is_date_err msg" "g" for o1 msg
    using 1[OF refl] that r by fastforce
  ultimately show ?case
    by (subst dev_touch.simps) (auto simp: r Let_def split: res.splits option.splits prod.splits)
qed

lemma sound_push_and_sync: "answers E \<Longrightarrow> sound (push_and_sync E l p s)"
  unfolding push_and_sync_def by (rule sound_try) (simp_all add: sound_dev)

lemma sound_push_if_dirty: "answers E \<Longrightarrow> sound (push_if_dirty E i c s)"
  using sound_push_and_sync[of E "lc_path (copy_at s c)" _ "mark_dirty c False s"]
  by (auto simp: push_if_dirty_def Let_def mark_dirty_def split: option.splits prod.splits res.splits) (metis fst_conv)

lemma sound_fetch_meta: "answers E \<Longrightarrow> sound (fetch_meta E p s)"
proof -
  assume a: "answers E"
  obtain hit c where h: "cache_get p (instant E s) (fs_cache s) = (hit, c)" by (cases "cache_get p (instant E s) (fs_cache s)")
  have "sound (on_world (get_metadata (e_ops E) p) (s\<lparr>fs_cache := c\<rparr>))" using sound_dev(10)[OF a] by simp
  then show ?thesis
    by (cases "on_world (get_metadata (e_ops E) p) (s\<lparr>fs_cache := c\<rparr>)")
      (auto simp: fetch_meta_def h Let_def split: option.splits res.splits device_error.splits)
qed

lemma sound_on_device: "(\<And>w. sound (f w)) \<Longrightarrow> sound (on_device f s)"
  by (simp add: on_device_def)

text \<open>Taking a copy panics only on a poisoned lock, which no reachable state has.\<close>

lemma sound_acquire:
  assumes "answers E" "copies_ok E None s"
  shows "sound (acquire_copy E i p init s)"
proof -
  obtain c s1 where e: "copy_entry E i s = (c, s1)" by (cases "copy_entry E i s")
  have ent: "\<not> lc_poisoned (copy_at s1 c)" "\<not> lc_evicted (copy_at s1 c)"
    using copy_entry_entered(1)[OF assms(2) e] by (simp_all add: entered_def)
  have "sound (try_res (on_host_fs (host_create (lc_path (copy_at s1 c))) s1) (\<lambda>_ s. (Ok (), mark_dirty c True s)))"
    by (rule sound_try) simp_all
  then have "sound (populate E c p init s1)"
    using sound_dev(1)[OF assms(1)] by (simp add: populate_def split: copy_init.splits)
  then have "fst (acquire_round E i p init s) \<noteq> Some Panicked"
    using ent by (cases "populate E c p init s1") (auto simp: acquire_round_def e split: res.splits)
  then show ?thesis using acquire_round_ok[OF assms(2), of i p init] acquire_copy_round[OF assms(2)] by (metis fst_conv)
qed

lemma sound_release: "copies_ok E (Some (i, c)) s \<Longrightarrow> sound (release_copy i c s)"
  using release_copy_ok(2) by fastforce

definition fine :: "(int, reply) res \<times> 's \<Rightarrow> bool" where
  "fine r = (fst r \<noteq> Panicked \<and> fst r \<noteq> Ok NoReply)"

lemma fine_iff: "fst (answer r) \<noteq> NoReply \<longleftrightarrow> fine r"
  by (cases r; cases "fst r") (auto simp: fine_def)

lemma fine_simps [simp]: "fine (Err e, s)" "fine (Ok x, s) \<longleftrightarrow> x \<noteq> NoReply"
  by (auto simp: fine_def)

lemma fine_try:
  "sound r \<Longrightarrow> (\<And>a s. r = (Ok a, s) \<Longrightarrow> fine (k a s)) \<Longrightarrow> fine (try_res r k)"
  by (cases r; cases "fst r") auto

lemma fine_path: "(\<And>p. ino_path ino s = Some p \<Longrightarrow> fine (k p s)) \<Longrightarrow> fine (with_path ino k s)"
  by (simp add: with_path_def split: option.splits)

lemma fine_release_err:
  "copies_ok E (Some (i, c)) s \<Longrightarrow> fine (try_res (release_copy i c s) (\<lambda>_ s. (Err e, s)))"
  by (rule fine_try[OF sound_release]) simp_all

lemma acquired:
  assumes "copies_ok E None s" "acquire_copy E i p init s = (Ok c, t)"
  shows "copies_ok E (Some (i, c)) t"
  using acquire_copy_ok[OF assms(1), of i p init] by (simp add: assms(2))

lemma fine_reply_new_entry: "answers E \<Longrightarrow> fine (reply_new_entry E p s)"
  unfolding reply_new_entry_def
  by (rule fine_try) (simp_all add: sound_on_device sound_dev split: prod.splits)

lemma fine_open:
  assumes "answers E" "copies_ok E None s"
  shows "fst (fs_open E ino s) \<noteq> NoReply"
  unfolding fs_open_def fine_iff
proof (rule fine_path, rule fine_try[OF sound_acquire[OF assms]])
  fix p c t assume "acquire_copy E ino p PullInit s = (Ok c, t)"
  then have c: "copies_ok E (Some (ino, c)) t" by (rule acquired[OF assms(2)])
  obtain r u where o: "on_host_fs (host_open (lc_path (copy_at t c))) t = (r, u)"
    by (cases "on_host_fs (host_open (lc_path (copy_at t c))) t")
  have "r \<noteq> Panicked" using sound_on_host_fs[of "host_open (lc_path (copy_at t c))" t] by (simp add: o)
  moreover have "copies_ok E (Some (ino, c)) u"
    using same_core_copies[OF _ c] core_on_host[of t "host_open (lc_path (copy_at t c))"] by (simp add: o)
  ultimately show "fine (case on_host_fs (host_open (lc_path (copy_at t c))) t of
         (Ok f, s) \<Rightarrow> (case insert_handle ino c f s of (fh, s) \<Rightarrow>
             (Ok (ReplyOpened fh (file_open_flags (e_opts E))), s))
       | (Err e, s) \<Rightarrow> try_res (release_copy ino c s) (\<lambda>_ s. (Err e, s))
       | (Panicked, s) \<Rightarrow> (Panicked, s))"
    using fine_release_err by (cases r) (auto simp: o split: prod.splits)
qed

lemma sound_truncate:
  assumes "answers E" "copies_ok E None s"
  shows "sound (truncate_file E ino p n s)"
  unfolding truncate_file_def Let_def
proof (rule sound_try[OF sound_acquire[OF assms]])
  fix c t assume "acquire_copy E ino p (if n = 0 then EmptyInit else PullInit) s = (Ok c, t)"
  then have c: "copies_ok E (Some (ino, c)) t" by (rule acquired[OF assms(2)])
  have "sound (truncate_and_push E ino c n t)"
    unfolding truncate_and_push_def
    by (rule sound_try, simp, rule sound_try, simp) (rule sound_push_if_dirty[OF assms(1)])
  then obtain r u where r: "truncate_and_push E ino c n t = (r, u)" "r \<noteq> Panicked"
    by (cases "truncate_and_push E ino c n t") auto
  have u: "copies_ok E (Some (ino, c)) u"
    using same_core_copies[OF core_truncate_and_push c] r(1) by (metis snd_conv)
  have "sound (try_res (release_copy ino c u) (\<lambda>_ s. (Err e, s)))" for e :: int
    by (rule sound_try[OF sound_release[OF u]]) simp
  then show "sound (case truncate_and_push E ino c n t of (Panicked, s) \<Rightarrow> (Panicked, s)
        | (Ok _, s) \<Rightarrow> release_copy ino c s
        | (Err e, s) \<Rightarrow> try_res (release_copy ino c s) (\<lambda>_ s. (Err e, s)))"
    using r sound_release[OF u] by (cases r) simp_all
qed

lemma fine_setattr:
  assumes "answers E" "copies_ok E None s"
  shows "fst (fs_setattr E ino sz a m s) \<noteq> NoReply"
  unfolding fs_setattr_def fine_iff
proof (rule fine_path, rule fine_try)
  fix p
  show "sound (case sz of Some n \<Rightarrow> truncate_file E ino p n s | None \<Rightarrow> (Ok (), s))"
    using sound_truncate[OF assms] by (cases sz) simp_all
  fix u :: unit and t
  have touch: "sound (try_res (fs_touch E p a m t) (\<lambda>_ s. (Ok (), invalidate p s)))" for a m
  proof (rule sound_try)
    show "sound (fs_touch E p a m t)"
      using sound_touch[OF assms(1), of p a m "touch_gnu_mode t" "fs_world t"]
      by (cases "dev_touch (e_ops E) p a m (touch_gnu_mode t, fs_world t)") (simp add: fs_touch_def)
  qed simp
  show "fine (let a = map_option (resolve_time E t) a; m = map_option (resolve_time E t) m
       in try_res
         (if a \<noteq> None \<or> m \<noteq> None
          then try_res (fs_touch E p a m t) (\<lambda>_ s. (Ok (), invalidate p s))
          else (Ok (), t)) (\<lambda>_ s.
            try_res (on_device (get_metadata (e_ops E) p) s) (\<lambda>meta s.
              (Ok (ReplyAttr (attr_timeout (e_opts E)) (meta_to_attr (e_opts E) ino meta)),
               remember E p (Some meta) s))))"
    unfolding Let_def
  proof (rule fine_try)
    fix v s'
    show "fine (try_res (on_device (get_metadata (e_ops E) p) s') (\<lambda>meta s.
        (Ok (ReplyAttr (attr_timeout (e_opts E)) (meta_to_attr (e_opts E) ino meta)), remember E p (Some meta) s)))"
      by (rule fine_try) (simp_all add: sound_on_device sound_dev[OF assms(1)])
  qed (use touch in simp)
qed

lemma fine_create:
  assumes "answers E" "fs_ok E s" "next_ino (inodes s) \<noteq> - 1"
  shows "fst (fs_create E parent name s) \<noteq> NoReply"
  unfolding fs_create_def fine_iff
proof (rule fine_path, unfold Let_def)
  fix pp
  let ?p = "child_path pp name"
  obtain ino s1 where a: "assign_ino ?p s = (ino, s1)" by (cases "assign_ino ?p s")
  have c1: "copies_ok E None s1" using fs_ok_assign(1)[OF assms(2,3) a] by (simp add: fs_ok_def)
  have "fine (try_res (acquire_copy E ino ?p EmptyInit s1) (\<lambda>c s. case create_opened E ino c ?p s of
           (Panicked, s) \<Rightarrow> (Panicked, s)
         | (Err e, s) \<Rightarrow> try_res (release_copy ino c s) (\<lambda>_ s. (Err e, s))
         | (Ok (f, meta), s) \<Rightarrow> (case insert_handle ino c f (remember E ?p (Some meta) s) of (fh, s) \<Rightarrow>
               (Ok (ReplyCreated (entry_timeout (e_opts E)) (meta_to_attr (e_opts E) ino meta) 0 fh
                     (file_open_flags (e_opts E))), s))))"
  proof (rule fine_try[OF sound_acquire[OF assms(1) c1]])
    fix c t assume "acquire_copy E ino ?p EmptyInit s1 = (Ok c, t)"
    then have c: "copies_ok E (Some (ino, c)) t" by (rule acquired[OF c1])
    have meta: "sound (try_res (on_device (get_metadata (e_ops E) ?p) s) (\<lambda>meta s. (Ok (f, meta), s)))" for f :: nat and s
      by (rule sound_try) (simp_all add: sound_on_device sound_dev[OF assms(1)])
    have push: "sound (try_res (push_if_dirty E ino c s) (\<lambda>_ s.
        try_res (on_device (get_metadata (e_ops E) ?p) s) (\<lambda>meta s. (Ok (f, meta), s))))" for f :: nat and s
      by (rule sound_try[OF sound_push_if_dirty[OF assms(1)]]) (rule meta)
    have "sound (create_opened E ino c ?p t)"
      unfolding create_opened_def by (rule sound_try, simp) (rule push)
    then obtain r u where r: "create_opened E ino c ?p t = (r, u)" "r \<noteq> Panicked"
      by (cases "create_opened E ino c ?p t") auto
    have "copies_ok E (Some (ino, c)) u"
      using same_core_copies[OF core_create_opened c] r(1) by (metis snd_conv)
    then show "fine (case create_opened E ino c ?p t of
           (Panicked, s) \<Rightarrow> (Panicked, s)
         | (Err e, s) \<Rightarrow> try_res (release_copy ino c s) (\<lambda>_ s. (Err e, s))
         | (Ok (f, meta), s) \<Rightarrow> (case insert_handle ino c f (remember E ?p (Some meta) s) of (fh, s) \<Rightarrow>
               (Ok (ReplyCreated (entry_timeout (e_opts E)) (meta_to_attr (e_opts E) ino meta) 0 fh
                     (file_open_flags (e_opts E))), s)))"
      using r fine_release_err by (cases r) (auto split: prod.splits)
  qed
  then show "fine (case assign_ino ?p s of (ino, s) \<Rightarrow>
       try_res (acquire_copy E ino ?p EmptyInit s) (\<lambda>c s. case create_opened E ino c ?p s of
           (Ok (f, meta), s) \<Rightarrow> (case insert_handle ino c f (remember E ?p (Some meta) s) of (fh, s) \<Rightarrow>
               (Ok (ReplyCreated (entry_timeout (e_opts E)) (meta_to_attr (e_opts E) ino meta) 0 fh
                     (file_open_flags (e_opts E))), s))
         | (Err e, s) \<Rightarrow> try_res (release_copy ino c s) (\<lambda>_ s. (Err e, s))
         | (Panicked, s) \<Rightarrow> (Panicked, s)))"
    by (simp add: a)
qed

lemma fine_mknod:
  fixes E :: "'d fs_env"
  assumes "answers E"
  shows "fst (fs_mknod E parent name s) \<noteq> NoReply"
  unfolding fs_mknod_def fine_iff
proof (rule fine_path, unfold Let_def, rule fine_try)
  show "sound (on_world (e_tempdir_in E (e_tmp_dir E)) s)" by (simp add: sound_dev[OF assms])
  fix pp d and t :: "'d adb_fs"
  let ?p = "child_path pp name" and ?l = "path_join d ''node''"
  obtain r u where m: "on_host_fs (host_mknod (utf8_lossy ?l)) t = (r, u)"
    by (cases "on_host_fs (host_mknod (utf8_lossy ?l)) t")
  have r: "r \<noteq> Panicked" using sound_on_host_fs[of "host_mknod (utf8_lossy ?l)" t] by (simp add: m)
  obtain r' v where p: "push_and_sync E ?l ?p u = (r', v)" by (cases "push_and_sync E ?l ?p u")
  have "r' \<noteq> Panicked" using sound_push_and_sync[OF assms, of ?l ?p u] by (simp add: p)
  with r show "fine (if CHR 0x00 \<in> set (utf8_lossy ?l) then (Err EINVAL, drop_scratch E d t)
       else case on_host_fs (host_mknod (utf8_lossy ?l)) t of
         (Ok _, s) \<Rightarrow>
           (case map_err_res device_err (push_and_sync E ?l ?p s) of
              (Ok _, s) \<Rightarrow> reply_new_entry E ?p (drop_scratch E d (invalidate ?p s))
            | (Err e, s) \<Rightarrow> (Err e, drop_scratch E d s)
            | (Panicked, s) \<Rightarrow> (Panicked, drop_scratch E d s))
       | (Err e, s) \<Rightarrow> (Err e, drop_scratch E d s)
       | (Panicked, s) \<Rightarrow> (Panicked, drop_scratch E d s))"
    by (cases r; cases r') (simp_all add: m p fine_reply_new_entry[OF assms])
qed

lemma fine_meta_requests:
  assumes "answers E"
  shows "fst (fs_getattr E ino s) \<noteq> NoReply" "fst (fs_lookup E parent name s) \<noteq> NoReply"
    "fst (fs_opendir E ino s) \<noteq> NoReply"
proof -
  show "fst (fs_getattr E ino s) \<noteq> NoReply"
    unfolding fs_getattr_def fine_iff by (rule fine_path, rule fine_try) (simp_all add: sound_fetch_meta[OF assms])
  have "fine (case fetch_meta E p s of
       (Ok meta, s) \<Rightarrow> (case assign_ino p s of (ino, s) \<Rightarrow>
           (Ok (ReplyEntry (entry_timeout (e_opts E)) (meta_to_attr (e_opts E) ino meta) 0), s))
     | (Err e, s) \<Rightarrow>
         (if (case e of NotFound _ \<Rightarrow> True | _ \<Rightarrow> False) \<and> negative_timeout (e_opts E) \<noteq> 0
          then (Ok (ReplyEntry (negative_timeout (e_opts E)) NEGATIVE_ENTRY 0), s)
          else (Err (device_err e), s))
     | (Panicked, s) \<Rightarrow> (Panicked, s))" for p
    using sound_fetch_meta[OF assms, of p s] by (auto split: prod.splits res.splits)
  then show "fst (fs_lookup E parent name s) \<noteq> NoReply"
    unfolding fs_lookup_def fine_iff Let_def by (intro fine_path)
  show "fst (fs_opendir E ino s) \<noteq> NoReply"
    unfolding fs_opendir_def fine_iff
    by (rule fine_path, rule fine_try)
      (auto simp: sound_on_device sound_dev[OF assms] Let_def split: prod.splits)
qed

lemma fine_handle_requests:
  assumes "answers E"
  shows "fst (fs_read fh off n s) \<noteq> NoReply" "fst (fs_write fh off d s) \<noteq> NoReply"
    "fst (fs_flush E fh s) \<noteq> NoReply" "fst (fs_readdir full fh off s) \<noteq> NoReply"
proof -
  have "fine (try_res (on_host_fs (host_read_at i off (unat n)) s) (\<lambda>b s. (Ok (ReplyData b), s)))" for i
    by (rule fine_try) simp_all
  then show "fst (fs_read fh off n s) \<noteq> NoReply"
    by (cases "open_files s fh") (simp_all add: fs_read_def fine_iff)
  have "fine (try_res (on_host_fs (host_write_at i off d) s)
      (\<lambda>n s. (Ok (ReplyWritten (of_nat n)), mark_dirty c True s)))" for i c
    by (rule fine_try) simp_all
  then show "fst (fs_write fh off d s) \<noteq> NoReply"
    by (cases "open_files s fh") (simp_all add: fs_write_def fine_iff)
  have "fine (try_res (push_if_dirty E i c s) (\<lambda>_ s. (Ok ReplyOk, s)))" for i c
    by (rule fine_try) (simp_all add: sound_push_if_dirty[OF assms])
  then show "fst (fs_flush E fh s) \<noteq> NoReply"
    by (cases "open_files s fh") (simp_all add: fs_flush_def fine_iff)
qed (simp add: fs_readdir_def split: option.splits)

lemma fine_tree_requests:
  assumes "answers E"
  shows "fst (fs_mkdir E parent name s) \<noteq> NoReply" "fst (fs_unlink E parent name s) \<noteq> NoReply"
    "fst (fs_rmdir E parent name s) \<noteq> NoReply" "fst (fs_rename E parent name newparent newname s) \<noteq> NoReply"
proof -
  note dev = sound_on_device[OF sound_dev(6)[OF assms]] sound_on_device[OF sound_dev(7)[OF assms]]
    sound_on_device[OF sound_dev(8)[OF assms]] sound_on_device[OF sound_dev(9)[OF assms]]
  show "fst (fs_mkdir E parent name s) \<noteq> NoReply"
    unfolding fs_mkdir_def fine_iff Let_def
    by (rule fine_path, rule fine_try[OF dev(1)]) (rule fine_reply_new_entry[OF assms])
  show "fst (fs_unlink E parent name s) \<noteq> NoReply"
    unfolding fs_unlink_def fine_iff Let_def by (rule fine_path, rule fine_try[OF dev(2)]) simp
  show "fst (fs_rmdir E parent name s) \<noteq> NoReply"
    unfolding fs_rmdir_def fine_iff Let_def by (rule fine_path, rule fine_try[OF dev(3)]) simp
  have "fine (try_res (on_device (dev_mv (e_ops E) a b) s) (\<lambda>_ s.
      let s = s\<lparr>inodes := rekey_paths (e_iter E (path_to_ino (inodes s))) a b (inodes s)\<rparr>
      in (Ok ReplyOk, upd_cache (cache_invalidate_prefix b) (upd_cache (cache_invalidate_prefix a) s))))" for a b
    by (rule fine_try[OF dev(4)]) (simp add: Let_def)
  then show "fst (fs_rename E parent name newparent newname s) \<noteq> NoReply"
    unfolding fs_rename_def fine_iff Let_def by (simp split: option.splits)
qed


text \<open>A host without the \<open>adb\<close> program: every run of it fails.\<close>

definition no_adb_env :: "mock_adb fs_env" where
  "no_adb_env = (demo_env [])\<lparr>e_ops := (mock_env 5 False)\<lparr>d_adb := adb_cli (\<lambda>args w. (Err ENOENT, w)) None\<rparr>\<rparr>"


end
