(* ===== verification/CopyProtocol.thy ===== *)
theory CopyProtocol
  imports Answering
begin

text \<open>
  The local copy of one inode under concurrency (\<open>src/src/fs.rs\<close>). The session serves requests
  on several threads, so \<open>acquire_copy\<close> and \<open>release_copy\<close> of one inode interleave. Here each
  is cut into the steps other threads can observe: looking the map up under its shard lock,
  taking the mutex of the copy, populating it, counting the reference, deleting the local file
  and taking the entry out of the map. A copy is named by a number that is not used again, as an
  \<open>Arc\<close> is one allocation. An activity is one call of \<open>acquire_copy\<close> followed by the matching
  \<open>release_copy\<close>; its program counter says where it stands:

  \<^item> \<open>Seeking\<close>: before the look-up in \<open>open_copies\<close>; \<open>Cloned c\<close>: has the \<open>Arc\<close>, waits for its mutex;
  \<^item> \<open>Entered c\<close>: has the mutex; \<open>Filling c\<close>: pulls or creates the local file;
    \<open>Unmapping c\<close>: has evicted the copy after a failure;
  \<^item> \<open>Holding c\<close>: \<open>acquire_copy\<close> has returned the copy;
  \<^item> \<open>Closing c\<close>: waits for the mutex in \<open>release_copy\<close>; \<open>Dropping c\<close>: has it;
    \<open>Removing c\<close>: was the last, deletes the file; \<open>Forgetting c\<close>: takes the copy out of the map.

  The content of the file is left out, only the copy it was last written for is kept
  (\<open>pr_file\<close>); a populate step of a first reference that fails may leave the file behind or not.
  What a request does between the two calls, and the panics that poison the mutex, are not part
  of the protocol; the theories on requests have them.
\<close>

subsection \<open>The protocol of one inode\<close>

datatype pc =
    Out
  | Seeking
  | Cloned nat
  | Entered nat
  | Filling nat
  | Unmapping nat
  | Holding nat
  | Closing nat
  | Dropping nat
  | Removing nat
  | Forgetting nat

record proto =
  pr_map :: "nat option"
  pr_made :: "nat set"
  pr_refs :: "nat \<Rightarrow> nat"
  pr_pulled :: "nat \<Rightarrow> bool"
  pr_evicted :: "nat \<Rightarrow> bool"
  pr_lock :: "nat \<Rightarrow> nat option"
  pr_file :: "nat option"
  pr_pulls :: "nat \<Rightarrow> nat"
  pr_pc :: "nat \<Rightarrow> pc"

definition proto_start :: proto where
  "proto_start = \<lparr>pr_map = None, pr_made = {}, pr_refs = (\<lambda>_. 0), pr_pulled = (\<lambda>_. False),
     pr_evicted = (\<lambda>_. False), pr_lock = (\<lambda>_. None), pr_file = None, pr_pulls = (\<lambda>_. 0), pr_pc = (\<lambda>_. Out)\<rparr>"

definition goto :: "nat \<Rightarrow> pc \<Rightarrow> proto \<Rightarrow> proto" where
  "goto t p s = s\<lparr>pr_pc := (pr_pc s)(t := p)\<rparr>"

definition unlock :: "nat \<Rightarrow> proto \<Rightarrow> proto" where
  "unlock c s = s\<lparr>pr_lock := (pr_lock s)(c := None)\<rparr>"

definition unmap :: "nat \<Rightarrow> proto \<Rightarrow> proto" where
  "unmap c s = (if pr_map s = Some c then s\<lparr>pr_map := None\<rparr> else s)"

text \<open>One atomic step of activity \<open>t\<close>.\<close>

inductive cstep :: "nat \<Rightarrow> proto \<Rightarrow> proto \<Rightarrow> bool" where
  begin_acquire: "pr_pc s t = Out \<Longrightarrow> cstep t s (goto t Seeking s)"
| clone_mapped: "pr_pc s t = Seeking \<Longrightarrow> pr_map s = Some c \<Longrightarrow> cstep t s (goto t (Cloned c) s)"
| clone_fresh: "pr_pc s t = Seeking \<Longrightarrow> pr_map s = None \<Longrightarrow> c \<notin> pr_made s \<Longrightarrow>
    cstep t s (goto t (Cloned c) (s\<lparr>pr_map := Some c, pr_made := insert c (pr_made s)\<rparr>))"
| lock_acquire: "pr_pc s t = Cloned c \<Longrightarrow> pr_lock s c = None \<Longrightarrow>
    cstep t s (goto t (Entered c) (s\<lparr>pr_lock := (pr_lock s)(c := Some t)\<rparr>))"
| retry: "pr_pc s t = Entered c \<Longrightarrow> pr_evicted s c \<Longrightarrow> cstep t s (goto t Seeking (unlock c s))"
| share: "pr_pc s t = Entered c \<Longrightarrow> \<not> pr_evicted s c \<Longrightarrow> pr_pulled s c \<Longrightarrow>
    cstep t s (goto t (Holding c) (unlock c (s\<lparr>pr_refs := (pr_refs s)(c := Suc (pr_refs s c))\<rparr>)))"
| start_pull: "pr_pc s t = Entered c \<Longrightarrow> \<not> pr_evicted s c \<Longrightarrow> \<not> pr_pulled s c \<Longrightarrow>
    cstep t s (goto t (Filling c) (s\<lparr>pr_pulls := (pr_pulls s)(c := Suc (pr_pulls s c))\<rparr>))"
| start_create: "pr_pc s t = Entered c \<Longrightarrow> \<not> pr_evicted s c \<Longrightarrow> cstep t s (goto t (Filling c) s)"
| fill_ok: "pr_pc s t = Filling c \<Longrightarrow>
    cstep t s (goto t (Holding c) (unlock c (s\<lparr>pr_file := Some c, pr_pulled := (pr_pulled s)(c := True),
      pr_refs := (pr_refs s)(c := Suc (pr_refs s c))\<rparr>)))"
| fill_err: "pr_pc s t = Filling c \<Longrightarrow> pr_refs s c \<noteq> 0 \<Longrightarrow> cstep t s (goto t Out (unlock c s))"
| fill_err_first: "pr_pc s t = Filling c \<Longrightarrow> pr_refs s c = 0 \<Longrightarrow> f \<in> {pr_file s, Some c} \<Longrightarrow>
    cstep t s (goto t (Unmapping c) (s\<lparr>pr_file := f, pr_evicted := (pr_evicted s)(c := True)\<rparr>))"
| unmap_failed: "pr_pc s t = Unmapping c \<Longrightarrow> cstep t s (goto t Out (unlock c (unmap c s)))"
| begin_release: "pr_pc s t = Holding c \<Longrightarrow> cstep t s (goto t (Closing c) s)"
| lock_release: "pr_pc s t = Closing c \<Longrightarrow> pr_lock s c = None \<Longrightarrow>
    cstep t s (goto t (Dropping c) (s\<lparr>pr_lock := (pr_lock s)(c := Some t)\<rparr>))"
| drop_ref: "pr_pc s t = Dropping c \<Longrightarrow> pr_refs s c = Suc n \<Longrightarrow> n \<noteq> 0 \<Longrightarrow>
    cstep t s (goto t Out (unlock c (s\<lparr>pr_refs := (pr_refs s)(c := n)\<rparr>)))"
| drop_last: "pr_pc s t = Dropping c \<Longrightarrow> pr_refs s c = Suc 0 \<Longrightarrow>
    cstep t s (goto t (Removing c) (s\<lparr>pr_refs := (pr_refs s)(c := 0), pr_evicted := (pr_evicted s)(c := True)\<rparr>))"
| remove_file: "pr_pc s t = Removing c \<Longrightarrow> cstep t s (goto t (Forgetting c) (s\<lparr>pr_file := None\<rparr>))"
| forget: "pr_pc s t = Forgetting c \<Longrightarrow> cstep t s (goto t Out (unlock c (unmap c s)))"

inductive_cases cstepE: "cstep t s s'"

inductive creach :: "proto \<Rightarrow> bool" where
  creach_start: "creach proto_start"
| creach_step: "creach s \<Longrightarrow> cstep t s s' \<Longrightarrow> creach s'"

subsection \<open>The invariant\<close>

fun locking :: "pc \<Rightarrow> nat option" where
  "locking (Entered c) = Some c" | "locking (Filling c) = Some c" | "locking (Unmapping c) = Some c"
| "locking (Dropping c) = Some c" | "locking (Removing c) = Some c" | "locking (Forgetting c) = Some c"
| "locking _ = None"

fun naming :: "pc \<Rightarrow> nat option" where
  "naming Out = None" | "naming Seeking = None" | "naming (Cloned c) = Some c" | "naming (Entered c) = Some c"
| "naming (Filling c) = Some c" | "naming (Unmapping c) = Some c" | "naming (Holding c) = Some c"
| "naming (Closing c) = Some c" | "naming (Dropping c) = Some c" | "naming (Removing c) = Some c"
| "naming (Forgetting c) = Some c"

fun referring :: "pc \<Rightarrow> nat option" where
  "referring (Holding c) = Some c" | "referring (Closing c) = Some c" | "referring (Dropping c) = Some c"
| "referring _ = None"

fun leaving :: "pc \<Rightarrow> nat option" where
  "leaving (Unmapping c) = Some c" | "leaving (Removing c) = Some c" | "leaving (Forgetting c) = Some c"
| "leaving _ = None"

definition holders :: "proto \<Rightarrow> nat \<Rightarrow> nat set" where
  "holders s c = {t. referring (pr_pc s t) = Some c}"

definition cinv :: "proto \<Rightarrow> bool" where
  "cinv s =
    (finite {t. pr_pc s t \<noteq> Out}
     \<and> (\<forall>t c. locking (pr_pc s t) = Some c \<longleftrightarrow> pr_lock s c = Some t)
     \<and> (\<forall>t c. naming (pr_pc s t) = Some c \<longrightarrow> c \<in> pr_made s)
     \<and> (\<forall>c. pr_refs s c = card (holders s c))
     \<and> (\<forall>c \<in> pr_made s. pr_evicted s c \<or> pr_map s = Some c)
     \<and> (\<forall>c. pr_map s = Some c \<longrightarrow> c \<in> pr_made s)
     \<and> (\<forall>c. pr_evicted s c \<longrightarrow> pr_map s = Some c \<longrightarrow> (\<exists>t. leaving (pr_pc s t) = Some c))
     \<and> (\<forall>t c. leaving (pr_pc s t) = Some c \<longrightarrow> pr_evicted s c \<and> pr_map s = Some c)
     \<and> (\<forall>t c. pr_pc s t = Filling c \<longrightarrow> \<not> pr_evicted s c)
     \<and> (\<forall>t c. referring (pr_pc s t) = Some c \<longrightarrow> \<not> pr_evicted s c \<and> pr_pulled s c)
     \<and> (\<forall>c. pr_pulled s c \<longrightarrow> \<not> pr_evicted s c \<longrightarrow> pr_file s = Some c \<and> pr_refs s c \<noteq> 0)
     \<and> (\<forall>c. pr_map s = Some c \<longrightarrow> (\<exists>t. naming (pr_pc s t) = Some c))
     \<and> (\<forall>t c. pr_pc s t = Removing c \<longrightarrow> pr_file s = Some c)
     \<and> (\<forall>c. c \<notin> pr_made s \<longrightarrow> \<not> pr_evicted s c \<and> \<not> pr_pulled s c \<and> pr_pulls s c = 0))"

lemma cinv_start: "cinv proto_start"
  by (simp add: cinv_def proto_start_def holders_def)

lemma cinvD:
  assumes "cinv s"
  shows "finite {t. pr_pc s t \<noteq> Out}"
    and "locking (pr_pc s t) = Some c \<longleftrightarrow> pr_lock s c = Some t"
    and "naming (pr_pc s t) = Some c \<Longrightarrow> c \<in> pr_made s"
    and "pr_refs s c = card (holders s c)"
    and "c \<in> pr_made s \<Longrightarrow> \<not> pr_evicted s c \<Longrightarrow> pr_map s = Some c"
    and "pr_map s = Some c \<Longrightarrow> c \<in> pr_made s"
    and "pr_evicted s c \<Longrightarrow> pr_map s = Some c \<Longrightarrow> \<exists>t. leaving (pr_pc s t) = Some c"
    and "leaving (pr_pc s t) = Some c \<Longrightarrow> pr_evicted s c \<and> pr_map s = Some c"
    and "pr_pc s t = Filling c \<Longrightarrow> \<not> pr_evicted s c"
    and "referring (pr_pc s t) = Some c \<Longrightarrow> \<not> pr_evicted s c \<and> pr_pulled s c"
    and "pr_pc s t = Removing c \<Longrightarrow> pr_file s = Some c"
    and "c \<notin> pr_made s \<Longrightarrow> \<not> pr_evicted s c \<and> \<not> pr_pulled s c \<and> pr_pulls s c = 0"
    and "pr_pulled s c \<Longrightarrow> \<not> pr_evicted s c \<Longrightarrow> pr_file s = Some c \<and> pr_refs s c \<noteq> 0"
    and "pr_map s = Some c \<Longrightarrow> \<exists>t. naming (pr_pc s t) = Some c"
  using assms unfolding cinv_def by blast+

lemma holders_finite: "cinv s \<Longrightarrow> finite (holders s c)"
  by (rule finite_subset[OF _ cinvD(1)]) (auto simp: holders_def)

lemma goto_sel [simp]:
  "pr_map (goto t p s) = pr_map s" "pr_made (goto t p s) = pr_made s" "pr_refs (goto t p s) = pr_refs s"
  "pr_pulled (goto t p s) = pr_pulled s" "pr_evicted (goto t p s) = pr_evicted s" "pr_lock (goto t p s) = pr_lock s"
  "pr_file (goto t p s) = pr_file s" "pr_pulls (goto t p s) = pr_pulls s" "pr_pc (goto t p s) = (pr_pc s)(t := p)"
  by (simp_all add: goto_def)

lemma unlock_sel [simp]:
  "pr_map (unlock c s) = pr_map s" "pr_made (unlock c s) = pr_made s" "pr_refs (unlock c s) = pr_refs s"
  "pr_pulled (unlock c s) = pr_pulled s" "pr_evicted (unlock c s) = pr_evicted s"
  "pr_lock (unlock c s) = (pr_lock s)(c := None)"
  "pr_file (unlock c s) = pr_file s" "pr_pulls (unlock c s) = pr_pulls s" "pr_pc (unlock c s) = pr_pc s"
  by (simp_all add: unlock_def)

lemma unmap_sel [simp]:
  "pr_map (unmap c s) = (if pr_map s = Some c then None else pr_map s)" "pr_made (unmap c s) = pr_made s"
  "pr_refs (unmap c s) = pr_refs s" "pr_pulled (unmap c s) = pr_pulled s" "pr_evicted (unmap c s) = pr_evicted s"
  "pr_lock (unmap c s) = pr_lock s" "pr_file (unmap c s) = pr_file s" "pr_pulls (unmap c s) = pr_pulls s"
  "pr_pc (unmap c s) = pr_pc s"
  by (simp_all add: unmap_def)

lemma finite_active: "finite {u. pr_pc s u \<noteq> Out} \<Longrightarrow> finite {u. ((pr_pc s)(t := p)) u \<noteq> Out}"
  by (rule finite_subset[of _ "insert t {u. pr_pc s u \<noteq> Out}"]) auto

lemma holders_goto:
  "holders (goto t p s) c = (if referring p = Some c then insert t (holders s c) else holders s c - {t})"
  by (auto simp: holders_def)

lemma holders_cong: "pr_pc s' = pr_pc s \<Longrightarrow> holders s' = holders s"
  by (simp add: holders_def fun_eq_iff)

lemma no_holders:
  assumes "cinv s" "pr_refs s c = 0"
  shows "referring (pr_pc s t) \<noteq> Some c"
  using cinvD(4)[OF assms(1), of c] assms(2) holders_finite[OF assms(1), of c] by (auto simp: holders_def)

lemma only_holder:
  assumes "cinv s" "pr_refs s c = Suc 0" "referring (pr_pc s t) = Some c"
  shows "referring (pr_pc s u) = Some c \<longleftrightarrow> u = t"
proof -
  have "card (holders s c) = Suc 0" using cinvD(4)[OF assms(1), of c] assms(2) by simp
  then obtain x where "holders s c = {x}" by (auto simp: card_Suc_eq)
  then have "{v. referring (pr_pc s v) = Some c} = {x}" by (simp add: holders_def)
  then have "referring (pr_pc s v) = Some c \<longleftrightarrow> v = x" for v by blast
  with assms(3) show ?thesis by simp
qed

lemma locked_alone:
  "cinv s \<Longrightarrow> locking (pr_pc s t) = Some c \<Longrightarrow> locking (pr_pc s u) = Some c \<Longrightarrow> u = t"
  using cinvD(2) by (metis option.inject)

lemma step_pc: "cstep t s s' \<Longrightarrow> pr_pc s' = (pr_pc s)(t := pr_pc s' t)"
  by (erule cstep.cases) simp_all

text \<open>A step counts its own reference, and no other.\<close>

lemma step_refs:
  "cstep t s s' \<Longrightarrow> pr_refs s' c + (if referring (pr_pc s t) = Some c then 1 else 0)
     = pr_refs s c + (if referring (pr_pc s' t) = Some c then 1 else 0)"
  by (erule cstep.cases) auto

lemma refs_step:
  assumes "cinv s" "cstep t s s'"
  shows "pr_refs s' c = card (holders s' c)"
proof -
  let ?p = "pr_pc s' t"
  have h: "holders s' c = (if referring ?p = Some c then insert t (holders s c) else holders s c - {t})"
    unfolding holders_def by (subst (1) step_pc[OF assms(2)]) auto
  have t: "t \<in> holders s c \<longleftrightarrow> referring (pr_pc s t) = Some c" by (simp add: holders_def)
  have f: "finite (holders s c)" and r: "pr_refs s c = card (holders s c)"
    by (rule holders_finite[OF assms(1)], rule cinvD(4)[OF assms(1)])
  have "0 < card (holders s c)" if "t \<in> holders s c" using f that by (auto simp: card_gt_0_iff)
  then show ?thesis
    using step_refs[OF assms(2), of c] unfolding h r t[symmetric]
    by (cases "referring ?p = Some c"; cases "t \<in> holders s c")
      (auto simp: f card_insert_if card_Diff_singleton_if insert_absorb)
qed

lemma step_locking:
  assumes "cinv s" "cstep t s s'"
  shows "locking (pr_pc s' u) = Some c \<longleftrightarrow> pr_lock s' c = Some u"
proof -
  have l: "locking (pr_pc s v) = Some d \<longleftrightarrow> pr_lock s d = Some v" for v d by (rule cinvD(2)[OF assms(1)])
  show ?thesis using assms(2) l[of t c] l[of u c] l by cases force+
qed

lemma step_naming:
  assumes "cinv s" "cstep t s s'"
  shows "naming (pr_pc s' u) = Some c \<Longrightarrow> c \<in> pr_made s'"
  using assms(2) cinvD(3)[OF assms(1), of u c] cinvD(3)[OF assms(1), of t c] cinvD(6)[OF assms(1), of c]
  by cases (auto split: if_splits)

lemma step_next:
  assumes "cinv s" "cstep t s s'"
  shows "c \<notin> pr_made s' \<Longrightarrow> \<not> pr_evicted s' c \<and> \<not> pr_pulled s' c \<and> pr_pulls s' c = 0"
  using assms(2) cinvD(12)[OF assms(1), of c] cinvD(3)[OF assms(1), of t c]
  by cases auto

lemma step_map:
  assumes "cinv s" "cstep t s s'"
  shows "c \<in> pr_made s' \<Longrightarrow> \<not> pr_evicted s' c \<Longrightarrow> pr_map s' = Some c"
    and "pr_map s' = Some c \<Longrightarrow> c \<in> pr_made s'"
proof -
  show "c \<in> pr_made s' \<Longrightarrow> \<not> pr_evicted s' c \<Longrightarrow> pr_map s' = Some c"
    using assms(2) cinvD(5)[OF assms(1), of c] cinvD(8)[OF assms(1), of t]
    by cases (auto split: if_splits)
  show "pr_map s' = Some c \<Longrightarrow> c \<in> pr_made s'"
    using assms(2) cinvD(6)[OF assms(1), of c] by cases (auto split: if_splits)
qed

lemma leaving_locking: "leaving p = Some c \<Longrightarrow> locking p = Some c"
  by (cases p) auto

lemma naming_of: "locking p = Some c \<Longrightarrow> naming p = Some c" "referring p = Some c \<Longrightarrow> naming p = Some c"
  by (cases p; simp)+

lemma mapped_live:
  assumes "cinv s"
  shows "pr_pc s t = Filling c \<Longrightarrow> pr_map s = Some c" "referring (pr_pc s t) = Some c \<Longrightarrow> pr_map s = Some c"
  using cinvD(5)[OF assms, of c] cinvD(3)[OF assms, of t c] cinvD(9)[OF assms, of t c] cinvD(10)[OF assms, of t c]
    naming_of(2)[of "pr_pc s t" c] by auto

lemma other_pc: "cstep t s s' \<Longrightarrow> u \<noteq> t \<Longrightarrow> pr_pc s' u = pr_pc s u"
  by (metis fun_upd_other step_pc)

lemma step_leaving:
  assumes "cinv s" "cstep t s s'" "leaving (pr_pc s' u) = Some c"
  shows "pr_evicted s' c \<and> pr_map s' = Some c"
proof (cases "u = t")
  case True
  show ?thesis
    using assms(2,3) True mapped_live[OF assms(1), of t c] cinvD(8)[OF assms(1), of t c]
    by cases auto
next
  case False
  then have l: "leaving (pr_pc s u) = Some c" using assms(3) other_pc[OF assms(2)] by simp
  then have old: "pr_evicted s c" "pr_map s = Some c" using cinvD(8)[OF assms(1)] by auto
  have "leaving (pr_pc s t) \<noteq> Some c"
    using locked_alone[OF assms(1) leaving_locking leaving_locking[OF l], of t] False by blast
  then show ?thesis using assms(2) old by - (erule cstep.cases, auto)
qed

lemma step_evicted:
  assumes "cinv s" "cstep t s s'" "pr_evicted s' c" "pr_map s' = Some c"
  shows "\<exists>u. leaving (pr_pc s' u) = Some c"
proof (cases "pr_evicted s c \<and> pr_map s = Some c")
  case True
  then obtain u where u: "leaving (pr_pc s u) = Some c" using cinvD(7)[OF assms(1)] by blast
  show ?thesis
  proof (cases "u = t")
    case True
    have "leaving (pr_pc s' t) = Some c" using assms(2,4) u True by cases (auto split: if_splits)
    then show ?thesis by blast
  next
    case False
    then show ?thesis using u other_pc[OF assms(2)] by metis
  qed
next
  case False
  have "leaving (pr_pc s' t) = Some c"
    using assms(2-4) False cinvD(12)[OF assms(1), of c] by cases (auto split: if_splits)
  then show ?thesis by blast
qed

lemma step_filling:
  assumes "cinv s" "cstep t s s'" "pr_pc s' u = Filling c"
  shows "\<not> pr_evicted s' c"
proof (cases "u = t")
  case True
  show ?thesis using assms(2,3) True by cases auto
next
  case False
  then have p: "pr_pc s u = Filling c" using assms(3) other_pc[OF assms(2)] by simp
  then have old: "\<not> pr_evicted s c" by (rule cinvD(9)[OF assms(1)])
  have "locking (pr_pc s t) \<noteq> Some c" using locked_alone[OF assms(1), of t c u] p False by auto
  then show ?thesis using assms(2) old by - (erule cstep.cases, auto)
qed

lemma step_referring:
  assumes "cinv s" "cstep t s s'" "referring (pr_pc s' u) = Some c"
  shows "\<not> pr_evicted s' c \<and> pr_pulled s' c"
proof (cases "u = t")
  case True
  show ?thesis
    using assms(2,3) True cinvD(10)[OF assms(1), of t c] cinvD(9)[OF assms(1), of t c] by cases auto
next
  case False
  then have p: "referring (pr_pc s u) = Some c" using assms(3) other_pc[OF assms(2)] by simp
  then have old: "\<not> pr_evicted s c" "pr_pulled s c" using cinvD(10)[OF assms(1) p] by auto
  have "pr_refs s c \<noteq> 0" using no_holders[OF assms(1)] p by blast
  moreover have "referring (pr_pc s t) \<noteq> Some c" if "pr_refs s c = Suc 0"
    using only_holder[OF assms(1) that] p False by blast
  moreover note old
  ultimately show ?thesis using assms(2) by - (erule cstep.cases, auto)
qed

lemma step_file:
  assumes "cinv s" "cstep t s s'" "pr_pulled s' c" "\<not> pr_evicted s' c"
  shows "pr_file s' = Some c \<and> pr_refs s' c \<noteq> 0"
proof (cases "pr_pulled s c \<and> \<not> pr_evicted s c")
  case True
  then have f: "pr_file s = Some c" "pr_refs s c \<noteq> 0" using cinvD(13)[OF assms(1)] by auto
  have "c \<in> pr_made s" using True cinvD(12)[OF assms(1), of c] by blast
  then have m: "pr_map s = Some c" using True cinvD(5)[OF assms(1)] by blast
  show ?thesis
    using assms(2,4) f m cinvD(8)[OF assms(1), of t] mapped_live[OF assms(1), of t] True
    by cases auto
next
  case False
  show ?thesis using assms(2-4) False by cases (auto split: if_splits)
qed

lemma step_named:
  assumes "cinv s" "cstep t s s'" "pr_map s' = Some c"
  shows "\<exists>u. naming (pr_pc s' u) = Some c"
proof (cases "naming (pr_pc s' t) = Some c")
  case False
  have m: "pr_map s = Some c" using assms(2,3) False by cases (auto split: if_splits)
  then obtain u where u: "naming (pr_pc s u) = Some c" using cinvD(14)[OF assms(1)] by blast
  have "\<exists>v. v \<noteq> t \<and> naming (pr_pc s v) = Some c"
  proof (cases "u = t")
    case True
    have other: "\<exists>v. v \<noteq> t \<and> referring (pr_pc s v) = Some c" if "1 < pr_refs s c \<or> (pr_refs s c \<noteq> 0 \<and> referring (pr_pc s t) \<noteq> Some c)"
    proof (rule ccontr)
      assume "\<nexists>v. v \<noteq> t \<and> referring (pr_pc s v) = Some c"
      then have "holders s c \<subseteq> (if referring (pr_pc s t) = Some c then {t} else {})" by (auto simp: holders_def)
      then have "card (holders s c) \<le> card (if referring (pr_pc s t) = Some c then {t} else {})"
        by (intro card_mono) auto
      then show False using that cinvD(4)[OF assms(1), of c] by (auto split: if_splits)
    qed
    have "(1 < pr_refs s c \<or> (pr_refs s c \<noteq> 0 \<and> referring (pr_pc s t) \<noteq> Some c)) \<or> (pr_pc s t = Entered c \<and> pr_evicted s c)"
      using assms(2,3) False u True by cases (auto split: if_splits)
    moreover have "\<exists>v. v \<noteq> t \<and> naming (pr_pc s v) = Some c" if e: "pr_pc s t = Entered c" "pr_evicted s c"
    proof -
      obtain v where "leaving (pr_pc s v) = Some c" using cinvD(7)[OF assms(1) e(2) m] by blast
      then show ?thesis using naming_of(1)[OF leaving_locking] e(1) by (intro exI[of _ v]) auto
    qed
    ultimately show ?thesis using other naming_of(2) by metis
  qed (use u in blast)
  then show ?thesis using other_pc[OF assms(2)] by metis
qed blast

lemma step_removing:
  assumes "cinv s" "cstep t s s'" "pr_pc s' u = Removing c"
  shows "pr_file s' = Some c"
proof (cases "u = t")
  case True
  show ?thesis
    using assms(2,3) True cinvD(10)[OF assms(1), of t c] cinvD(13)[OF assms(1), of c] by cases auto
next
  case False
  then have p: "pr_pc s u = Removing c" using assms(3) other_pc[OF assms(2)] by simp
  then have old: "pr_file s = Some c" "pr_map s = Some c" "locking (pr_pc s u) = Some c"
    using cinvD(11)[OF assms(1)] cinvD(8)[OF assms(1), of u c] by auto
  have "locking (pr_pc s t) \<noteq> Some c" using locked_alone[OF assms(1), of t c u] old False by auto
  then show ?thesis
    using assms(2) old mapped_live[OF assms(1), of t] cinvD(8)[OF assms(1), of t]
    by - (erule cstep.cases, auto)
qed

lemma cinv_step:
  assumes "cinv s" "cstep t s s'"
  shows "cinv s'"
proof -
  have "finite {u. pr_pc s' u \<noteq> Out}"
    by (subst step_pc[OF assms(2)]) (rule finite_active[OF cinvD(1)[OF assms(1)]])
  then show ?thesis
    unfolding cinv_def
    using step_locking[OF assms] step_naming[OF assms] refs_step[OF assms] step_map[OF assms] step_evicted[OF assms]
      step_leaving[OF assms] step_filling[OF assms] step_referring[OF assms] step_file[OF assms]
      step_named[OF assms] step_removing[OF assms] step_next[OF assms]
    by blast
qed

lemma creach_inv: "creach s \<Longrightarrow> cinv s"
  by (induction rule: creach.induct) (auto intro: cinv_start cinv_step)

subsection \<open>At most one pull\<close>

definition pinv :: "proto \<Rightarrow> bool" where
  "pinv s = (\<forall>c. pr_pulls s c \<le> 1 \<and> (pr_pulls s c \<noteq> 0 \<longrightarrow>
     pr_pulled s c \<or> pr_evicted s c \<or> (\<exists>t. pr_pc s t = Filling c)))"

lemma pinv_step:
  assumes "cinv s" "pinv s" "cstep t s s'"
  shows "pinv s'"
  unfolding pinv_def
proof (intro allI)
  fix c
  have p: "pr_pulls s c \<le> 1" "pr_pulls s c \<noteq> 0 \<longrightarrow> pr_pulled s c \<or> pr_evicted s c \<or> (\<exists>t. pr_pc s t = Filling c)"
    using assms(2) by (auto simp: pinv_def)
  have alone: "pr_pc s u \<noteq> Filling c" if "pr_pc s t = Entered c" for u
    using locked_alone[OF assms(1), of t c u] that by auto
  have refs: "pr_pulled s c" if "pr_refs s c \<noteq> 0"
  proof -
    have "card (holders s c) \<noteq> 0" using that cinvD(4)[OF assms(1)] by simp
    then obtain u where "referring (pr_pc s u) = Some c" by (auto simp: holders_def card_eq_0_iff)
    then show ?thesis using cinvD(10)[OF assms(1)] by blast
  qed
  have keep: "pr_pc s' u = Filling c" if "pr_pc s u = Filling c" "u \<noteq> t" for u
    using that other_pc[OF assms(3)] by simp
  have "pr_pulls s' c \<le> 1" using assms(3) p alone by cases auto
  moreover have "pr_pulled s' c \<or> pr_evicted s' c \<or> (\<exists>u. pr_pc s' u = Filling c)" if n: "pr_pulls s' c \<noteq> 0"
  proof (cases "pr_pulls s c = 0")
    case True
    have "pr_pc s' t = Filling c" using assms(3) True n by cases (auto split: if_splits)
    then show ?thesis by blast
  next
    case False
    then consider "pr_pulled s c \<or> pr_evicted s c" | u where "pr_pc s u = Filling c" "u \<noteq> t" | "pr_pc s t = Filling c"
      using p(2) by blast
    then show ?thesis
    proof cases
      case 1
      show ?thesis using assms(3) 1 by cases auto
    next
      case 2
      then show ?thesis using keep by blast
    next
      case 3
      show ?thesis using assms(3) 3 refs by cases auto
    qed
  qed
  ultimately show "pr_pulls s' c \<le> 1 \<and> (pr_pulls s' c \<noteq> 0 \<longrightarrow>
      pr_pulled s' c \<or> pr_evicted s' c \<or> (\<exists>t. pr_pc s' t = Filling c))" by blast
qed

lemma creach_pinv: "creach s \<Longrightarrow> pinv s"
proof (induction rule: creach.induct)
  case creach_start
  show ?case by (simp add: pinv_def proto_start_def)
next
  case (creach_step s t s')
  then show ?case using pinv_step creach_inv by blast
qed

subsection \<open>The abstract resource\<close>

text \<open>
  What the protocol promises: a set of users of one generation of the local file. The first user
  brings a generation about, later ones join it, and it ends when its last user leaves.
\<close>

record resource =
  rs_users :: "nat set"
  rs_copy :: "nat option"

inductive rstep :: "resource \<Rightarrow> resource \<Rightarrow> bool" where
  rs_idle: "rstep r r"
| rs_first: "rs_users r = {} \<Longrightarrow> rstep r \<lparr>rs_users = {t}, rs_copy = Some c\<rparr>"
| rs_join: "rs_users r \<noteq> {} \<Longrightarrow> t \<notin> rs_users r \<Longrightarrow> rstep r (r\<lparr>rs_users := insert t (rs_users r)\<rparr>)"
| rs_leave: "t \<in> rs_users r \<Longrightarrow> rs_users r \<noteq> {t} \<Longrightarrow> rstep r (r\<lparr>rs_users := rs_users r - {t}\<rparr>)"
| rs_last: "rs_users r = {t} \<Longrightarrow> rstep r \<lparr>rs_users = {}, rs_copy = None\<rparr>"

inductive_simps rstep_iff: "rstep r r'"

definition users :: "proto \<Rightarrow> nat set" where
  "users s = {t. referring (pr_pc s t) \<noteq> None}"

definition resource_of :: "proto \<Rightarrow> resource" where
  "resource_of s = \<lparr>rs_users = users s, rs_copy = (if users s = {} then None else pr_map s)\<rparr>"

lemma users_step:
  assumes "cstep t s s'"
  shows "users s' = (if referring (pr_pc s' t) \<noteq> None then insert t (users s) else users s - {t})"
proof -
  have "u \<in> users s' \<longleftrightarrow> (if u = t then referring (pr_pc s' t) \<noteq> None else u \<in> users s)" for u
    using other_pc[OF assms] by (simp add: users_def)
  then have "users s' = {u. if u = t then referring (pr_pc s' t) \<noteq> None else u \<in> users s}" by blast
  also have "\<dots> = (if referring (pr_pc s' t) \<noteq> None then insert t (users s) else users s - {t})"
    by (simp split: if_split) blast
  finally show ?thesis .
qed

lemma users_map:
  assumes "cinv s"
  shows "t \<in> users s \<Longrightarrow> referring (pr_pc s t) = pr_map s"
  using mapped_live(2)[OF assms] by (auto simp: users_def)

lemma users_holders:
  assumes "cinv s" "pr_map s = Some c"
  shows "users s = holders s c"
proof -
  have "referring (pr_pc s t) = Some d \<Longrightarrow> d = c" for t d
    using mapped_live(2)[OF assms(1), of t d] assms(2) by simp
  then show ?thesis by (auto simp: users_def holders_def)
qed

text \<open>The map is only left by a copy nobody uses.\<close>

lemma map_kept:
  assumes "cinv s" "cstep t s s'" "users s \<noteq> {}"
  shows "pr_map s' = pr_map s"
proof -
  obtain u c where u: "referring (pr_pc s u) = Some c" using assms(3) by (auto simp: users_def)
  have c: "pr_map s = Some c" "\<not> pr_evicted s c" using mapped_live(2)[OF assms(1) u] cinvD(10)[OF assms(1) u] by auto
  have "leaving (pr_pc s t) \<noteq> Some d" for d using cinvD(8)[OF assms(1), of t d] c by auto
  then show ?thesis using assms(2) c by - (erule cstep.cases, auto)
qed

lemma resource_step:
  assumes "cinv s" "cstep t s s'"
  shows "rstep (resource_of s) (resource_of s')"
proof -
  have i': "cinv s'" by (rule cinv_step[OF assms])
  consider (same) "users s' = users s" | (add) "t \<notin> users s" "users s' = insert t (users s)"
    | (del) "t \<in> users s" "users s' = users s - {t}"
    using users_step[OF assms(2)] by (metis Diff_empty Diff_insert0 insert_absorb)
  then show ?thesis
  proof cases
    case same
    then have "resource_of s' = resource_of s"
      using map_kept[OF assms] by (auto simp: resource_of_def)
    then show ?thesis by (simp add: rs_idle)
  next
    case add
    show ?thesis
    proof (cases "users s = {}")
      case True
      have t: "t \<in> users s'" using add by simp
      then have "referring (pr_pc s' t) \<noteq> None" by (simp add: users_def)
      with users_map[OF i' t] obtain c where "pr_map s' = Some c" by fastforce
      then have e: "resource_of s' = \<lparr>rs_users = {t}, rs_copy = Some c\<rparr>" using add True by (simp add: resource_of_def)
      show ?thesis unfolding e by (rule rs_first) (simp add: resource_of_def True)
    next
      case False
      have "resource_of s' = (resource_of s)\<lparr>rs_users := insert t (rs_users (resource_of s))\<rparr>"
        using add False map_kept[OF assms False] by (simp add: resource_of_def)
      moreover have "rs_users (resource_of s) \<noteq> {}" "t \<notin> rs_users (resource_of s)"
        using False add by (simp_all add: resource_of_def)
      ultimately show ?thesis using rs_join by simp
    qed
  next
    case del
    show ?thesis
    proof (cases "users s = {t}")
      case True
      then show ?thesis using del by (simp add: resource_of_def rstep_iff)
    next
      case False
      then have ne: "users s \<noteq> {}" "users s - {t} \<noteq> {}" using del by auto
      have "resource_of s' = (resource_of s)\<lparr>rs_users := rs_users (resource_of s) - {t}\<rparr>"
        using del ne map_kept[OF assms ne(1)] by (simp add: resource_of_def)
      moreover have "t \<in> rs_users (resource_of s)" "rs_users (resource_of s) \<noteq> {t}"
        using False del by (simp_all add: resource_of_def)
      ultimately show ?thesis using rs_leave by simp
    qed
  qed
qed

subsection \<open>The sequential functions are runs of the protocol\<close>

text \<open>Steps of one activity, while the others stand still.\<close>

inductive csteps :: "nat \<Rightarrow> proto \<Rightarrow> proto \<Rightarrow> bool" where
  csteps_refl: "csteps t P P"
| csteps_step: "csteps t P Q \<Longrightarrow> cstep t Q R \<Longrightarrow> csteps t P R"

text \<open>The protocol state \<open>P\<close> shows what the file system's state says about the copy of one inode.\<close>

definition seen_as :: "u64 \<Rightarrow> 'd adb_fs \<Rightarrow> proto \<Rightarrow> bool" where
  "seen_as i s P = (pr_map P = open_copies s i
     \<and> (\<forall>c. open_copies s i = Some c \<longrightarrow> pr_refs P c = lc_refs (copy_at s c)
          \<and> pr_pulled P c = lc_pulled (copy_at s c) \<and> pr_evicted P c = lc_evicted (copy_at s c)
          \<and> pr_lock P c = None)
     \<and> (\<forall>c \<in> pr_made P. c < next_copy s))"

lemma csteps_trans: "csteps t P Q \<Longrightarrow> cstep t Q R \<Longrightarrow> csteps t P R"
  by (rule csteps_step)

text \<open>A copy the protocol has not made yet is blank.\<close>

lemma fresh_blank:
  assumes "creach P" "c \<notin> pr_made P"
  shows "pr_refs P c = 0" "\<not> pr_pulled P c" "\<not> pr_evicted P c" "pr_lock P c = None"
proof -
  note i = creach_inv[OF assms(1)]
  have "naming (pr_pc P t) \<noteq> Some c" for t using cinvD(3)[OF i, of t c] assms(2) by blast
  then have n: "referring (pr_pc P t) \<noteq> Some c" "locking (pr_pc P t) \<noteq> Some c" for t
    using naming_of by blast+
  then have "holders P c = {}" by (auto simp: holders_def)
  then show "pr_refs P c = 0" using cinvD(4)[OF i, of c] by simp
  show "\<not> pr_pulled P c" "\<not> pr_evicted P c" using cinvD(12)[OF i assms(2)] by auto
  show "pr_lock P c = None" using n(2) cinvD(2)[OF i] by (metis not_None_eq)
qed

lemma run_retry_free:
  assumes "copies_ok E None s" "seen_as i s P" "open_copies s i = Some c"
  shows "\<not> pr_evicted P c" "pr_pulled P c" "pr_lock P c = None" "pr_refs P c \<noteq> 0" "pr_map P = Some c"
  using copies_okD(5)[OF assms(1,3)] assms(2,3) by (auto simp: seen_as_def copy_ok_def holds_def)

text \<open>From the map entry to the held lock.\<close>

definition at_entry :: "nat \<Rightarrow> nat \<Rightarrow> proto \<Rightarrow> proto \<Rightarrow> bool" where
  "at_entry t c P Q = (csteps t P Q \<and> pr_pc Q t = Entered c \<and> pr_map Q = Some c \<and> \<not> pr_evicted Q c
     \<and> pr_lock Q = (pr_lock P)(c := Some t) \<and> pr_refs Q = pr_refs P \<and> pr_pulled Q = pr_pulled P
     \<and> pr_evicted Q = pr_evicted P \<and> pr_made Q = insert c (pr_made P))"

lemma run_entry:
  assumes "creach P" "pr_pc P t = Out" "pr_map P = Some c" "\<not> pr_evicted P c" "pr_lock P c = None"
  shows "\<exists>Q. at_entry t c P Q"
proof -
  let ?P1 = "goto t Seeking P"
  let ?P2 = "goto t (Cloned c) ?P1"
  let ?P3 = "goto t (Entered c) (?P2\<lparr>pr_lock := (pr_lock ?P2)(c := Some t)\<rparr>)"
  have "csteps t P ?P1" by (rule csteps_step[OF csteps_refl begin_acquire[OF assms(2)]])
  then have "csteps t P ?P2" by (rule csteps_step) (rule clone_mapped; use assms(3) in simp)
  then have "csteps t P ?P3" by (rule csteps_step) (rule lock_acquire; use assms(5) in simp)
  moreover have "c \<in> pr_made P" by (rule cinvD(6)[OF creach_inv[OF assms(1)] assms(3)])
  ultimately show ?thesis using assms(3,4) by (intro exI[of _ ?P3]) (simp add: at_entry_def insert_absorb)
qed

lemma run_entry_fresh:
  assumes "creach P" "pr_pc P t = Out" "pr_map P = None" "c \<notin> pr_made P"
  shows "\<exists>Q. at_entry t c P Q"
proof -
  let ?P1 = "goto t Seeking P"
  let ?P2 = "goto t (Cloned c) (?P1\<lparr>pr_map := Some c, pr_made := insert c (pr_made ?P1)\<rparr>)"
  let ?P3 = "goto t (Entered c) (?P2\<lparr>pr_lock := (pr_lock ?P2)(c := Some t)\<rparr>)"
  have "csteps t P ?P1" by (rule csteps_step[OF csteps_refl begin_acquire[OF assms(2)]])
  then have "csteps t P ?P2" by (rule csteps_step) (rule clone_fresh; use assms(3,4) in simp)
  then have "csteps t P ?P3"
    by (rule csteps_step) (rule lock_acquire; use fresh_blank(4)[OF assms(1,4)] in simp)
  then show ?thesis using fresh_blank(3)[OF assms(1,4)] by (intro exI[of _ ?P3]) (simp add: at_entry_def)
qed

text \<open>From the held lock to the end of the acquisition, by outcome.\<close>

lemma run_fill:
  assumes "at_entry t c P Q"
  shows "\<exists>R. csteps t P R \<and> pr_pc R t = Holding c \<and> pr_map R = Some c \<and> pr_lock R = (pr_lock P)(c := None)
    \<and> pr_refs R = (pr_refs P)(c := Suc (pr_refs P c)) \<and> pr_pulled R = (pr_pulled P)(c := True)
    \<and> pr_evicted R = pr_evicted P \<and> pr_made R = insert c (pr_made P)"
proof -
  note q = assms[unfolded at_entry_def]
  let ?F = "goto t (Filling c) Q"
  let ?R = "goto t (Holding c) (unlock c (?F\<lparr>pr_file := Some c, pr_pulled := (pr_pulled ?F)(c := True),
      pr_refs := (pr_refs ?F)(c := Suc (pr_refs ?F c))\<rparr>))"
  have "csteps t P ?F" by (rule csteps_step[of _ _ Q]) (use q in \<open>auto intro: start_create\<close>)
  then have "csteps t P ?R" by (rule csteps_step) (rule fill_ok, simp)
  then show ?thesis using q by (intro exI[of _ ?R]) simp
qed

lemma run_fill_err:
  assumes "at_entry t c P Q" "pr_refs P c \<noteq> 0"
  shows "\<exists>R. csteps t P R \<and> pr_pc R t = Out \<and> pr_map R = Some c \<and> pr_lock R = (pr_lock P)(c := None)
    \<and> pr_refs R = pr_refs P \<and> pr_pulled R = pr_pulled P \<and> pr_evicted R = pr_evicted P \<and> pr_made R = insert c (pr_made P)"
proof -
  note q = assms(1)[unfolded at_entry_def]
  let ?F = "goto t (Filling c) Q"
  have "csteps t P ?F" by (rule csteps_step[of _ _ Q]) (use q in \<open>auto intro: start_create\<close>)
  then have "csteps t P (goto t Out (unlock c ?F))" by (rule csteps_step) (rule fill_err; use q assms(2) in simp)
  then show ?thesis using q by (intro exI[of _ "goto t Out (unlock c ?F)"]) simp
qed

lemma run_fill_err_first:
  assumes "at_entry t c P Q" "pr_refs P c = 0"
  shows "\<exists>R. csteps t P R \<and> pr_pc R t = Out \<and> pr_map R = None \<and> pr_made R = insert c (pr_made P)"
proof -
  note q = assms(1)[unfolded at_entry_def]
  let ?F = "goto t (Filling c) Q"
  let ?U = "goto t (Unmapping c) (?F\<lparr>pr_file := pr_file ?F, pr_evicted := (pr_evicted ?F)(c := True)\<rparr>)"
  let ?R = "goto t Out (unlock c (unmap c ?U))"
  have "csteps t P ?F" by (rule csteps_step[of _ _ Q]) (use q in \<open>auto intro: start_create\<close>)
  then have "csteps t P ?U" by (rule csteps_step) (rule fill_err_first; use q assms(2) in simp)
  then have "csteps t P ?R" by (rule csteps_step) (rule unmap_failed, simp)
  then show ?thesis using q by (intro exI[of _ ?R]) simp
qed

text \<open>What \<open>acquire_copy\<close> does to the copy, on an open inode and on one that is not.\<close>

lemma acquire_open_view:
  assumes "copies_ok E None s" "open_copies s i = Some c" "acquire_copy E i p init s = (r, s')"
  shows "open_copies s' = open_copies s \<and> next_copy s' = next_copy s
    \<and> lc_pulled (copy_at s' c) \<and> (r \<noteq> Panicked \<longrightarrow> \<not> lc_evicted (copy_at s' c))
    \<and> (case r of Ok d \<Rightarrow> d = c \<and> lc_refs (copy_at s' c) = Suc (lc_refs (copy_at s c))
       | Err e \<Rightarrow> lc_refs (copy_at s' c) = lc_refs (copy_at s c) | Panicked \<Rightarrow> True)"
proof -
  have k: "copy_ok E i (card (handles s c)) (copy_at s c)"
    using copies_okD(5)[OF assms(1,2)] by (simp add: holds_def)
  have e: "copy_entry E i s = (c, s)" using assms(2) by (simp add: copy_entry_def)
  obtain x t where pop: "populate E c p init s = (x, t)" by (cases "populate E c p init s")
  then have core: "same_core s t" using core_populate by (metis snd_conv)
  note f = same_core_copy[OF core, of c]
  have o: "open_copies t = open_copies s" "next_copy t = next_copy s" using core by (simp_all add: same_core_def)
  have ne: "handles s c \<noteq> {}" using k by (auto simp: copy_ok_def)
  have acq: "acquire_copy E i p init s = (case x of
      Ok _ \<Rightarrow> (Ok c, set_copy c ((copy_at t c)\<lparr>lc_pulled := True, lc_refs := Suc (lc_refs (copy_at t c))\<rparr>) t)
    | Err e \<Rightarrow> (Err e, t)
    | Panicked \<Rightarrow> (Panicked, set_copy c ((copy_at t c)\<lparr>lc_poisoned := True\<rparr>) t))"
    using k f ne by (cases x) (simp_all add: acquire_copy_def numeral_2_eq_2 acquire_round_def e pop copy_ok_def)
  show ?thesis
    using assms(3) k f o unfolding acq by (cases x) (auto simp: copy_ok_def)
qed

lemma acquire_closed_view:
  assumes "copies_ok E None s" "open_copies s i = None" "acquire_copy E i p init s = (r, s')"
  shows "next_copy s' = Suc (next_copy s) \<and> (case r of
      Ok d \<Rightarrow> d = next_copy s \<and> open_copies s' i = Some d \<and> lc_refs (copy_at s' d) = 1 \<and> lc_pulled (copy_at s' d)
        \<and> \<not> lc_evicted (copy_at s' d)
    | Err e \<Rightarrow> open_copies s' i = None | Panicked \<Rightarrow> True)"
proof -
  let ?c = "next_copy s"
  obtain x t where pop: "populate E ?c p init (fresh_copy E i s) = (x, t)"
    by (cases "populate E ?c p init (fresh_copy E i s)")
  then have core: "same_core (fresh_copy E i s) t" using core_populate by (metis snd_conv)
  have o: "open_copies t = (open_copies s)(i \<mapsto> ?c)" "next_copy t = Suc ?c" "\<not> lc_evicted (copy_at t ?c)"
    using core same_core_copy(4)[OF core, of ?c] by (simp_all add: same_core_def fresh_copy_def local_copy_new_def)
  show ?thesis
    using assms(3) o unfolding acquire_fresh[OF assms(2) pop] by (cases x) (auto simp: forget_copy_def)
qed

lemma seen_fresh: "seen_as i s P \<Longrightarrow> next_copy s \<notin> pr_made P"
  by (auto simp: seen_as_def)

lemma acquire_is_run_open:
  assumes "creach P" "copies_ok E None s" "seen_as i s P" "pr_pc P t = Out" "open_copies s i = Some c"
    and "acquire_copy E i p init s = (r, s')" "r \<noteq> Panicked"
  shows "\<exists>Q. csteps t P Q \<and> seen_as i s' Q \<and> pr_pc Q t = (case r of Ok c \<Rightarrow> Holding c | _ \<Rightarrow> Out)"
proof -
  note v = acquire_open_view[OF assms(2,5,6)] and k = run_retry_free[OF assms(2,3,5)]
  have made: "c \<in> pr_made P" by (rule cinvD(6)[OF creach_inv[OF assms(1)] k(5)])
  obtain Q where q: "at_entry t c P Q" using run_entry[OF assms(1,4) k(5,1,3)] by blast
  show ?thesis
  proof (cases r)
    case (Ok d)
    from run_fill[OF q] obtain R where R: "csteps t P R" "pr_pc R t = Holding c" "pr_map R = Some c"
      "pr_lock R = (pr_lock P)(c := None)" "pr_refs R = (pr_refs P)(c := Suc (pr_refs P c))"
      "pr_pulled R = (pr_pulled P)(c := True)" "pr_evicted R = pr_evicted P" "pr_made R = insert c (pr_made P)" by blast
    show ?thesis
      by (rule exI[of _ R]) (use R Ok v k made assms(3,5) in \<open>auto simp: seen_as_def insert_absorb\<close>)
  next
    case (Err e)
    from run_fill_err[OF q k(4)] obtain R where R: "csteps t P R" "pr_pc R t = Out" "pr_map R = Some c"
      "pr_lock R = (pr_lock P)(c := None)" "pr_refs R = pr_refs P"
      "pr_pulled R = pr_pulled P" "pr_evicted R = pr_evicted P" "pr_made R = insert c (pr_made P)" by blast
    show ?thesis
      by (rule exI[of _ R]) (use R Err v k made assms(3,5) in \<open>auto simp: seen_as_def insert_absorb\<close>)
  qed (use assms(7) in simp)
qed

lemma acquire_is_run_closed:
  assumes "creach P" "copies_ok E None s" "seen_as i s P" "pr_pc P t = Out" "open_copies s i = None"
    and "acquire_copy E i p init s = (r, s')" "r \<noteq> Panicked"
  shows "\<exists>Q. csteps t P Q \<and> seen_as i s' Q \<and> pr_pc Q t = (case r of Ok c \<Rightarrow> Holding c | _ \<Rightarrow> Out)"
proof -
  let ?c = "next_copy s"
  note v = acquire_closed_view[OF assms(2,5,6)]
  have m: "pr_map P = None" "?c \<notin> pr_made P" using assms(3,5) by (auto simp: seen_as_def)
  note b = fresh_blank[OF assms(1) m(2)]
  obtain Q where q: "at_entry t ?c P Q" using run_entry_fresh[OF assms(1,4) m] by blast
  have lt: "\<forall>d \<in> insert ?c (pr_made P). d < next_copy s'" using assms(3) v by (auto simp: seen_as_def less_Suc_eq)
  show ?thesis
  proof (cases r)
    case (Ok d)
    from run_fill[OF q] obtain R where R: "csteps t P R" "pr_pc R t = Holding ?c" "pr_map R = Some ?c"
      "pr_lock R = (pr_lock P)(?c := None)" "pr_refs R = (pr_refs P)(?c := Suc (pr_refs P ?c))"
      "pr_pulled R = (pr_pulled P)(?c := True)" "pr_evicted R = pr_evicted P" "pr_made R = insert ?c (pr_made P)" by blast
    show ?thesis
      by (rule exI[of _ R]) (use R Ok v b lt in \<open>auto simp: seen_as_def insert_absorb\<close>)
  next
    case (Err e)
    from run_fill_err_first[OF q b(1)] obtain R where R: "csteps t P R" "pr_pc R t = Out" "pr_map R = None"
      "pr_made R = insert ?c (pr_made P)" by blast
    show ?thesis
      by (rule exI[of _ R]) (use R Err v lt in \<open>auto simp: seen_as_def insert_absorb\<close>)
  qed (use assms(7) in simp)
qed

lemma release_is_run:
  assumes "creach P" "copies_ok E (Some (i, c)) s" "seen_as i s P" "pr_pc P t = Holding c"
    and "release_copy i c s = (Ok (), s')"
  shows "\<exists>Q. csteps t P Q \<and> seen_as i s' Q \<and> pr_pc Q t = Out"
proof -
  note held = held_copy[OF assms(2)]
  have k: "pr_map P = Some c" "pr_refs P c = lc_refs (copy_at s c)" "pr_lock P c = None"
    "pr_pulled P c = lc_pulled (copy_at s c)" "pr_evicted P c = lc_evicted (copy_at s c)"
    using assms(3) held(1) by (auto simp: seen_as_def)
  let ?P1 = "goto t (Closing c) P"
  let ?P2 = "goto t (Dropping c) (?P1\<lparr>pr_lock := (pr_lock ?P1)(c := Some t)\<rparr>)"
  have "csteps t P ?P1" by (rule csteps_step[OF csteps_refl begin_release[OF assms(4)]])
  then have s2: "csteps t P ?P2" by (rule csteps_step) (rule lock_release; use k(3) in simp)
  show ?thesis
  proof (cases "card (handles s c)")
    case 0
    then have one: "lc_refs (copy_at s c) = Suc 0" using held(3) by simp
    let ?P3 = "goto t (Removing c) (?P2\<lparr>pr_refs := (pr_refs ?P2)(c := 0), pr_evicted := (pr_evicted ?P2)(c := True)\<rparr>)"
    let ?P4 = "goto t (Forgetting c) (?P3\<lparr>pr_file := None\<rparr>)"
    let ?P5 = "goto t Out (unlock c (unmap c ?P4))"
    have "csteps t P ?P3" using s2 by (rule csteps_step) (rule drop_last; use k(2) one in simp)
    then have "csteps t P ?P4" by (rule csteps_step) (rule remove_file, simp)
    then have run: "csteps t P ?P5" by (rule csteps_step) (rule forget, simp)
    have "open_copies s' i = None" "next_copy s' = next_copy s"
      using assms(5) held(1,4) one by (auto simp: release_copy_def Let_def forget_copy_def on_host_fs_def
          on_world_def on_host_def split: prod.splits if_splits)
    then have "seen_as i s' ?P5" using assms(3) k(1) by (simp add: seen_as_def)
    with run show ?thesis by (intro exI[of _ ?P5]) simp
  next
    case (Suc n)
    then have two: "lc_refs (copy_at s c) = Suc (Suc n)" using held(3) by simp
    let ?P3 = "goto t Out (unlock c (?P2\<lparr>pr_refs := (pr_refs ?P2)(c := Suc n)\<rparr>))"
    have run: "csteps t P ?P3" using s2 by (rule csteps_step) (rule drop_ref; use k(2) two in simp)
    have "s' = set_copy c ((copy_at s c)\<lparr>lc_refs := Suc n\<rparr>) s"
      using assms(5) held(4) two by (simp add: release_copy_def Let_def)
    then have "seen_as i s' ?P3" using assms(3) k held(1) by (simp add: seen_as_def)
    with run show ?thesis by (intro exI[of _ ?P3]) simp
  qed
qed

text \<open>C15. Taking a reference one request at a time, as the theorems on requests do, is a run of the
  concurrent protocol: from a protocol state that shows what the file system's state says about
  the copy of an inode, one idle activity can step to a state that shows what \<open>acquire_copy\<close>
  leaves, holding the copy when it succeeds and idle again when it fails. Dropping a reference is
  such a run, too.\<close>

theorem sequential_is_run:
  assumes "creach P" "copies_ok E held s" "seen_as i s P"
  shows "(\<forall>p init r s' t. held = None \<longrightarrow> pr_pc P t = Out \<longrightarrow> acquire_copy E i p init s = (r, s') \<longrightarrow> r \<noteq> Panicked \<longrightarrow>
      (\<exists>Q. csteps t P Q \<and> seen_as i s' Q \<and> pr_pc Q t = (case r of Ok c \<Rightarrow> Holding c | _ \<Rightarrow> Out)))
    \<and> (\<forall>c s' t. held = Some (i, c) \<longrightarrow> pr_pc P t = Holding c \<longrightarrow> release_copy i c s = (Ok (), s') \<longrightarrow>
      (\<exists>Q. csteps t P Q \<and> seen_as i s' Q \<and> pr_pc Q t = Out))"
proof (intro conjI allI impI)
  fix p init r s' t
  assume h: "held = None" and a: "pr_pc P t = Out" "acquire_copy E i p init s = (r, s')" "r \<noteq> Panicked"
  show "\<exists>Q. csteps t P Q \<and> seen_as i s' Q \<and> pr_pc Q t = (case r of Ok c \<Rightarrow> Holding c | _ \<Rightarrow> Out)"
    using acquire_is_run_open[OF assms(1) assms(2)[unfolded h] assms(3) a(1) _ a(2,3)]
      acquire_is_run_closed[OF assms(1) assms(2)[unfolded h] assms(3) a(1) _ a(2,3)]
    by (cases "open_copies s i") auto
next
  fix c s' t
  assume h: "held = Some (i, c)" and a: "pr_pc P t = Holding c" "release_copy i c s = (Ok (), s')"
  show "\<exists>Q. csteps t P Q \<and> seen_as i s' Q \<and> pr_pc Q t = Out"
    by (rule release_is_run[OF assms(1) assms(2)[unfolded h] assms(3) a])
qed

subsection \<open>Properties\<close>

text \<open>C5. However acquisitions and releases of one file interleave: every holder's copy is in the
  map, populated and not evicted, and the local file is its own; all holders hold one copy, whose
  count is exactly their number, so no release counts below zero; a copy is pulled at most once;
  and an activity that removes the local file removes the one of the copy it evicted, which
  nobody holds any more.\<close>

theorem copy_protocol_safe:
  assumes "creach s"
  shows "(\<forall>t c. referring (pr_pc s t) = Some c \<longrightarrow> pr_map s = Some c \<and> pr_pulled s c \<and> \<not> pr_evicted s c
        \<and> pr_file s = Some c \<and> pr_refs s c = card (holders s c) \<and> pr_refs s c \<noteq> 0)
    \<and> (\<forall>t u c d. referring (pr_pc s t) = Some c \<longrightarrow> referring (pr_pc s u) = Some d \<longrightarrow> c = d)
    \<and> (\<forall>t c. pr_pc s t = Removing c \<longrightarrow> pr_file s = Some c \<and> pr_evicted s c \<and> pr_refs s c = 0
        \<and> (\<forall>u d. referring (pr_pc s u) \<noteq> Some d))
    \<and> (\<forall>c. pr_pulls s c \<le> 1)"
proof -
  note i = creach_inv[OF assms]
  have hold: "pr_map s = Some c \<and> pr_pulled s c \<and> \<not> pr_evicted s c
      \<and> pr_file s = Some c \<and> pr_refs s c = card (holders s c) \<and> pr_refs s c \<noteq> 0"
    if "referring (pr_pc s t) = Some c" for t c
    using mapped_live(2)[OF i that] cinvD(10)[OF i that] cinvD(13)[OF i, of c] cinvD(4)[OF i, of c] by auto
  moreover have "c = d" if "referring (pr_pc s t) = Some c" "referring (pr_pc s u) = Some d" for t u c d
    using hold[OF that(1)] hold[OF that(2)] by simp
  moreover have "pr_file s = Some c \<and> pr_evicted s c \<and> pr_refs s c = 0 \<and> (\<forall>u d. referring (pr_pc s u) \<noteq> Some d)"
    if r: "pr_pc s t = Removing c" for t c
  proof -
    have c: "pr_evicted s c" "pr_map s = Some c" using cinvD(8)[OF i, of t c] r by auto
    have none: "referring (pr_pc s u) \<noteq> Some d" for u d using hold[of u d] c by auto
    then have "holders s c = {}" by (auto simp: holders_def)
    then have "pr_refs s c = 0" using cinvD(4)[OF i, of c] by simp
    with c none cinvD(11)[OF i r] show ?thesis by blast
  qed
  moreover have "pr_pulls s c \<le> 1" for c using creach_pinv[OF assms] by (simp add: pinv_def)
  ultimately show ?thesis by blast
qed

lemma creach_finite: "creach s \<Longrightarrow> finite (pr_made s)"
proof (induction rule: creach.induct)
  case creach_start
  show ?case by (simp add: proto_start_def)
next
  case (creach_step s t s')
  show ?case using creach_step(2) creach_step.IH by cases auto
qed

lemma locked_steps:
  assumes "cinv s" "locking (pr_pc s t) = Some c"
  shows "\<exists>s'. cstep t s s'"
proof (cases "pr_pc s t")
  case (Entered d)
  then show ?thesis using retry start_create by blast
next
  case (Filling d)
  then show ?thesis using fill_ok by blast
next
  case (Dropping d)
  then have "pr_refs s d \<noteq> 0" using no_holders[OF assms(1), of d t] by auto
  then obtain n where "pr_refs s d = Suc n" using not0_implies_Suc by blast
  then show ?thesis using Dropping drop_ref drop_last by (cases "n = 0") blast+
next
  case (Unmapping d)
  then show ?thesis using unmap_failed by blast
next
  case (Removing d)
  then show ?thesis using remove_file by blast
next
  case (Forgetting d)
  then show ?thesis using forget by blast
qed (use assms(2) in simp_all)

text \<open>C13. No activity waits for ever because of another's state: whenever one that is neither idle nor
  holding cannot step, the copy it waits for is locked by an activity that can; and an acquisition
  that finds its copy evicted finds another in the map when it starts over, so it does not spin.\<close>

theorem copy_protocol_live:
  assumes "creach s" "pr_pc s t \<noteq> Out"
  shows "((\<exists>s'. cstep t s s') \<or> (\<exists>u c s'. naming (pr_pc s t) = Some c \<and> pr_lock s c = Some u \<and> u \<noteq> t \<and> cstep u s s'))
    \<and> (\<forall>c. pr_pc s t = Entered c \<longrightarrow> pr_evicted s c \<longrightarrow> pr_map s \<noteq> Some c)"
proof -
  note i = creach_inv[OF assms(1)]
  have waits: "(\<exists>s'. cstep t s s') \<or> (\<exists>u s'. pr_lock s c = Some u \<and> u \<noteq> t \<and> cstep u s s')"
    if "pr_pc s t = Cloned c \<or> pr_pc s t = Closing c" for c
  proof (cases "pr_lock s c")
    case None
    then show ?thesis using that lock_acquire lock_release by blast
  next
    case (Some u)
    then have "locking (pr_pc s u) = Some c" using cinvD(2)[OF i] by blast
    moreover have "u \<noteq> t" using calculation that by auto
    ultimately show ?thesis using locked_steps[OF i] Some by blast
  qed
  have "(\<exists>s'. cstep t s s') \<or> (\<exists>u c s'. naming (pr_pc s t) = Some c \<and> pr_lock s c = Some u \<and> u \<noteq> t \<and> cstep u s s')"
  proof (cases "pr_pc s t")
    case Seeking
    then show ?thesis
    proof (cases "pr_map s")
      case None
      have "finite (pr_made s)" by (rule creach_finite[OF assms(1)])
      then obtain c where "c \<notin> pr_made s" using ex_new_if_finite infinite_UNIV_nat by blast
      then show ?thesis using Seeking None clone_fresh by blast
    qed (use clone_mapped in blast)
  next
    case (Cloned c)
    then show ?thesis using waits[of c] by auto
  next
    case (Closing c)
    then show ?thesis using waits[of c] by auto
  next
    case (Holding c)
    then show ?thesis using begin_release by blast
  qed (use assms(2) locked_steps[OF i, of t] in auto)
  moreover have "pr_map s \<noteq> Some c" if e: "pr_pc s t = Entered c" "pr_evicted s c" for c
  proof
    assume "pr_map s = Some c"
    then obtain u where u: "leaving (pr_pc s u) = Some c" using cinvD(7)[OF i e(2)] by blast
    then have "u = t" using locked_alone[OF i, of t c u] leaving_locking[OF u] e(1) by simp
    with u e(1) show False by simp
  qed
  ultimately show ?thesis by blast
qed

text \<open>Nothing is left behind: when every activity has finished, the map has no copy, no copy
  counts a reference and none is locked.\<close>

theorem copy_protocol_no_leak:
  assumes "creach s" "\<And>t. pr_pc s t = Out"
  shows "pr_map s = None \<and> (\<forall>c. pr_refs s c = 0 \<and> pr_lock s c = None)"
proof -
  note i = creach_inv[OF assms(1)]
  have "pr_map s \<noteq> Some c" for c using cinvD(14)[OF i, of c] assms(2) by auto
  moreover have "holders s c = {}" for c using assms(2) by (simp add: holders_def)
  then have "pr_refs s c = 0" for c using cinvD(4)[OF i, of c] by simp
  moreover have "pr_lock s c \<noteq> Some t" for c t using cinvD(2)[OF i, of t c] assms(2) by simp
  ultimately show ?thesis by (metis not_None_eq)
qed

text \<open>C14. The protocol refines one shared resource: whatever step is taken, the users of the file
  and the copy they use change as a counted resource does, or not at all. The first user brings a
  copy about, later users join the same copy, and it goes exactly when its last user leaves.\<close>

theorem copy_protocol_refines:
  assumes "creach s" "cstep t s s'"
  shows "rstep (resource_of s) (resource_of s')"
  by (rule resource_step[OF creach_inv[OF assms(1)] assms(2)])

subsection \<open>A run\<close>

text \<open>Activity 0 opens the file and pulls it, activity 1 opens it and shares the copy, then both release.\<close>

definition run_at :: "nat \<Rightarrow> (nat \<Rightarrow> pc) \<Rightarrow> nat option \<Rightarrow> proto" where
  "run_at n p l = \<lparr>pr_map = Some 0, pr_made = {0}, pr_refs = (\<lambda>_. 0)(0 := n), pr_pulled = (\<lambda>_. False)(0 := True),
     pr_evicted = (\<lambda>_. False), pr_lock = (\<lambda>_. None)(0 := l), pr_file = Some 0, pr_pulls = (\<lambda>_. 0)(0 := 1), pr_pc = p\<rparr>"

abbreviation both_out :: "nat \<Rightarrow> pc" where
  "both_out \<equiv> (\<lambda>_. Out)"

lemma creach_filling:
  "creach ((run_at 0 (both_out(0 := Filling 0)) (Some 0))\<lparr>pr_pulled := (\<lambda>_. False), pr_file := None\<rparr>)"
proof -
  let ?s1 = "goto 0 Seeking proto_start"
  let ?s2 = "goto 0 (Cloned 0) (?s1\<lparr>pr_map := Some 0, pr_made := insert 0 (pr_made ?s1)\<rparr>)"
  let ?s3 = "goto 0 (Entered 0) (?s2\<lparr>pr_lock := (pr_lock ?s2)(0 := Some 0)\<rparr>)"
  let ?s4 = "goto 0 (Filling 0) (?s3\<lparr>pr_pulls := (pr_pulls ?s3)(0 := Suc (pr_pulls ?s3 0))\<rparr>)"
  have "creach ?s1" by (rule creach_step[OF creach_start begin_acquire]) (simp add: proto_start_def)
  then have "creach ?s2" by (rule creach_step) (rule clone_fresh; simp add: proto_start_def)
  then have "creach ?s3" by (rule creach_step) (rule lock_acquire; simp add: proto_start_def)
  then have "creach ?s4" by (rule creach_step) (rule start_pull; simp add: proto_start_def)
  moreover have "?s4 = (run_at 0 (both_out(0 := Filling 0)) (Some 0))\<lparr>pr_pulled := (\<lambda>_. False), pr_file := None\<rparr>"
    by (simp add: goto_def proto_start_def run_at_def fun_eq_iff)
  ultimately show ?thesis by simp
qed

lemma fill_step:
  "cstep 0 ((run_at 0 (both_out(0 := Filling 0)) (Some 0))\<lparr>pr_pulled := (\<lambda>_. False), pr_file := None\<rparr>)
     (run_at 1 (both_out(0 := Holding 0)) None)" (is "cstep 0 ?s _")
proof -
  have "cstep 0 ?s (goto 0 (Holding 0) (unlock 0 (?s\<lparr>pr_file := Some 0, pr_pulled := (pr_pulled ?s)(0 := True),
      pr_refs := (pr_refs ?s)(0 := Suc (pr_refs ?s 0))\<rparr>)))"
    by (rule fill_ok) (simp add: run_at_def)
  then show ?thesis by (simp add: goto_def unlock_def run_at_def)
qed

lemma creach_two: "creach (run_at 2 (both_out(0 := Holding 0, 1 := Holding 0)) None)"
proof -
  let ?s0 = "run_at 1 (both_out(0 := Holding 0)) None"
  let ?s1 = "goto 1 Seeking ?s0"
  let ?s2 = "goto 1 (Cloned 0) ?s1"
  let ?s3 = "goto 1 (Entered 0) (?s2\<lparr>pr_lock := (pr_lock ?s2)(0 := Some 1)\<rparr>)"
  let ?s4 = "goto 1 (Holding 0) (unlock 0 (?s3\<lparr>pr_refs := (pr_refs ?s3)(0 := Suc (pr_refs ?s3 0))\<rparr>))"
  have "creach ?s0" by (rule creach_step[OF creach_filling fill_step])
  then have "creach ?s1" by (rule creach_step) (rule begin_acquire; simp add: run_at_def)
  then have "creach ?s2" by (rule creach_step) (rule clone_mapped; simp add: run_at_def)
  then have "creach ?s3" by (rule creach_step) (rule lock_acquire; simp add: run_at_def)
  then have "creach ?s4" by (rule creach_step) (rule share; simp add: run_at_def)
  then show ?thesis by (simp add: goto_def unlock_def run_at_def numeral_2_eq_2)
qed

lemma creach_done:
  "\<exists>s. creach s \<and> (\<forall>t. pr_pc s t = Out) \<and> pr_pulls s 0 = 1"
proof -
  let ?s0 = "run_at 1 (both_out(0 := Holding 0)) None"
  let ?s1 = "goto 0 (Closing 0) ?s0"
  let ?s2 = "goto 0 (Dropping 0) (?s1\<lparr>pr_lock := (pr_lock ?s1)(0 := Some 0)\<rparr>)"
  let ?s3 = "goto 0 (Removing 0) (?s2\<lparr>pr_refs := (pr_refs ?s2)(0 := 0), pr_evicted := (pr_evicted ?s2)(0 := True)\<rparr>)"
  let ?s4 = "goto 0 (Forgetting 0) (?s3\<lparr>pr_file := None\<rparr>)"
  let ?s5 = "goto 0 Out (unlock 0 (unmap 0 ?s4))"
  have "creach ?s0" by (rule creach_step[OF creach_filling fill_step])
  then have "creach ?s1" by (rule creach_step) (rule begin_release; simp add: run_at_def)
  then have "creach ?s2" by (rule creach_step) (rule lock_release; simp add: run_at_def)
  then have "creach ?s3" by (rule creach_step) (rule drop_last; simp add: run_at_def)
  then have "creach ?s4" by (rule creach_step) (rule remove_file; simp add: run_at_def)
  then have "creach ?s5" by (rule creach_step) (rule forget; simp add: run_at_def)
  then show ?thesis by (intro exI[of _ ?s5]) (simp add: run_at_def)
qed

theorem copy_protocol_safe_witness:
  "\<exists>s. creach s \<and> pr_pc s 0 = Holding 0 \<and> pr_pc s 1 = Holding 0 \<and> pr_file s = Some 0
     \<and> pr_refs s 0 = card (holders s 0) \<and> pr_pulls s 0 \<le> 1"
proof -
  let ?s = "run_at 2 (both_out(0 := Holding 0, 1 := Holding 0)) None"
  have p: "pr_pc ?s 0 = Holding 0" "pr_pc ?s 1 = Holding 0" by (simp_all add: run_at_def)
  then have r: "referring (pr_pc ?s 0) = Some 0" by simp
  note k = copy_protocol_safe[OF creach_two]
  from k have "pr_file ?s = Some 0 \<and> pr_refs ?s 0 = card (holders ?s 0)" using r by meson
  moreover from k have "pr_pulls ?s 0 \<le> 1" by meson
  ultimately show ?thesis using creach_two p by (intro exI[of _ ?s]) simp
qed

theorem copy_protocol_live_witness:
  "\<exists>s. creach s \<and> pr_pc s 0 = Filling 0 \<and> ((\<exists>s'. cstep 0 s s')
     \<or> (\<exists>u c s'. naming (pr_pc s 0) = Some c \<and> pr_lock s c = Some u \<and> u \<noteq> 0 \<and> cstep u s s'))"
proof -
  let ?s = "(run_at 0 (both_out(0 := Filling 0)) (Some 0))\<lparr>pr_pulled := (\<lambda>_. False), pr_file := None\<rparr>"
  have p: "pr_pc ?s 0 = Filling 0" by (simp add: run_at_def)
  then have "pr_pc ?s 0 \<noteq> Out" by simp
  then show ?thesis using copy_protocol_live[OF creach_filling, of 0] p creach_filling by blast
qed

theorem copy_protocol_no_leak_witness:
  "\<exists>s. creach s \<and> pr_pulls s 0 = 1 \<and> pr_map s = None"
  using creach_done copy_protocol_no_leak by blast

theorem copy_protocol_refines_witness:
  "rstep \<lparr>rs_users = {}, rs_copy = None\<rparr> \<lparr>rs_users = {0}, rs_copy = Some 0\<rparr>"
proof -
  have "users ((run_at 0 (both_out(0 := Filling 0)) (Some 0))\<lparr>pr_pulled := (\<lambda>_. False), pr_file := None\<rparr>) = {}"
    "users (run_at 1 (both_out(0 := Holding 0)) None) = {0}"
    by (auto simp: users_def run_at_def)
  then show ?thesis
    using copy_protocol_refines[OF creach_filling fill_step] by (simp add: resource_of_def run_at_def)
qed

theorem sequential_is_run_witness:
  "\<exists>Q. csteps 0 proto_start Q \<and> pr_pc Q 0 = Holding 0 \<and> pr_refs Q 0 = 1"
proof -
  let ?s = "demo_start [] ''data''" and ?E = "demo_env []" and ?l = "local_path_for (demo_env []) 1"
  have ok: "copies_ok ?E None ?s" 
    using fs_ok_new[of "demo_env []" "30000000000" "demo_world [] ''data''"] unfolding fs_ok_def demo_start_def by blast
  have none: "open_copies ?s 1 = None" "next_copy ?s = 0" by (simp_all add: demo_start_def adb_fs_new_def)
  obtain w where "dev_pull (mock_env 5 False) ''/'' ?l (fs_world ?s) = (Ok (), w)"
    by (simp add: dev_pull_def mock_env_def mock_device_def mock_pull_def demo_world_def mock_with_content_def
        mock_new_def on_host_def host_write_file_def host_create_def next_fault_def demo_start_def adb_fs_new_def
        host_write_all.simps)
  then have pop: "populate ?E 0 ''/'' PullInit (fresh_copy ?E 1 ?s) = (Ok (), (fresh_copy ?E 1 ?s)\<lparr>fs_world := w\<rparr>)"
    by (simp add: populate_def none local_copy_new_def on_world_def)
  obtain s' where acq: "acquire_copy ?E 1 ''/'' PullInit ?s = (Ok 0, s')" and refs: "open_copies s' 1 = Some 0" "lc_refs (copy_at s' 0) = 1"
    using acquire_fresh[OF none(1), of ?E "''/''" PullInit] pop none by simp
  have seen: "seen_as 1 ?s proto_start" using none by (simp add: seen_as_def proto_start_def)
  have out: "pr_pc proto_start 0 = Out" by (simp add: proto_start_def)
  obtain Q where "csteps 0 proto_start Q" "seen_as 1 s' Q" "pr_pc Q 0 = Holding 0"
    using sequential_is_run[OF creach_start ok seen] acq out by fastforce
  then show ?thesis using refs by (auto simp: seen_as_def)
qed

end
