(* ===== verification/InodeRace.thy ===== *)
theory InodeRace
  imports CopyProtocol
begin

text \<open>
  \<open>get_or_assign_ino\<close> under concurrency (\<open>src/src/fs.rs\<close>). Each access to the two maps and to the
  counter is atomic, the function as a whole is not: between the look-up of a path and the two
  insertions other threads run. Here a call is cut at these accesses; the program counter says what
  a thread has done: \<open>Asked p\<close> called the function, \<open>Missed p\<close> found no inode in \<open>path_to_ino\<close>,
  \<open>Numbered p i\<close> took \<open>i\<close> from \<open>next_ino\<close>, \<open>Keyed p i\<close> inserted it in \<open>path_to_ino\<close>,
  \<open>Answered p i\<close> inserted the path in \<open>ino_to_path\<close>, or found the inode, and returns it.
\<close>

subsection \<open>The steps\<close>

datatype ipc =
    Idle
  | Asked string
  | Missed string
  | Numbered string u64
  | Keyed string u64
  | Answered string u64

record ino_race =
  ir_table :: ino_table
  ir_pc :: "nat \<Rightarrow> ipc"

definition race_start :: ino_race where
  "race_start = \<lparr>ir_table = ino_table_new, ir_pc = (\<lambda>_. Idle)\<rparr>"

definition moves :: "nat \<Rightarrow> ipc \<Rightarrow> ino_table \<Rightarrow> ino_race \<Rightarrow> ino_race" where
  "moves t p tb s = \<lparr>ir_table = tb, ir_pc = (ir_pc s)(t := p)\<rparr>"

inductive istep :: "nat \<Rightarrow> ino_race \<Rightarrow> ino_race \<Rightarrow> bool" where
  ask: "ir_pc s t = Idle \<Longrightarrow> istep t s (moves t (Asked p) (ir_table s) s)"
| found: "ir_pc s t = Asked p \<Longrightarrow> path_to_ino (ir_table s) p = Some i \<Longrightarrow>
    istep t s (moves t (Answered p i) (ir_table s) s)"
| missed: "ir_pc s t = Asked p \<Longrightarrow> path_to_ino (ir_table s) p = None \<Longrightarrow>
    istep t s (moves t (Missed p) (ir_table s) s)"
| fetch_add: "ir_pc s t = Missed p \<Longrightarrow> tb = ir_table s \<Longrightarrow>
    istep t s (moves t (Numbered p (next_ino tb)) (tb\<lparr>next_ino := next_ino tb + 1\<rparr>) s)"
| list_path: "ir_pc s t = Numbered p i \<Longrightarrow> tb = ir_table s \<Longrightarrow>
    istep t s (moves t (Keyed p i) (tb\<lparr>path_to_ino := (path_to_ino tb)(p \<mapsto> i)\<rparr>) s)"
| name_ino: "ir_pc s t = Keyed p i \<Longrightarrow> tb = ir_table s \<Longrightarrow>
    istep t s (moves t (Answered p i) (tb\<lparr>ino_to_path := (ino_to_path tb)(i \<mapsto> p)\<rparr>) s)"
| reply: "ir_pc s t = Answered p i \<Longrightarrow> istep t s (moves t Idle (ir_table s) s)"

text \<open>The states after a number of steps, in any interleaving.\<close>

inductive irun :: "nat \<Rightarrow> ino_race \<Rightarrow> bool" where
  irun_start: "irun 0 race_start"
| irun_step: "irun n s \<Longrightarrow> istep t s s' \<Longrightarrow> irun (Suc n) s'"

lemma moves_sel [simp]:
  "ir_table (moves t p tb s) = tb" "ir_pc (moves t p tb s) = (ir_pc s)(t := p)"
  by (simp_all add: moves_def)

subsection \<open>The invariant\<close>

text \<open>The number an activity has taken and not named yet.\<close>

fun taken :: "ipc \<Rightarrow> u64 option" where
  "taken (Numbered p i) = Some i" | "taken (Keyed p i) = Some i" | "taken _ = None"

text \<open>The inode leads to the path, or is about to.\<close>

definition leads :: "ino_race \<Rightarrow> u64 \<Rightarrow> string \<Rightarrow> bool" where
  "leads s i p = (get_path i (ir_table s) = Some p \<or> (\<exists>t. ir_pc s t = Keyed p i))"

definition iinv :: "nat \<Rightarrow> ino_race \<Rightarrow> bool" where
  "iinv n s = (unat (next_ino (ir_table s)) \<le> n + 2
     \<and> (\<forall>i p. get_path i (ir_table s) = Some p \<longrightarrow> i < next_ino (ir_table s))
     \<and> (\<forall>t i. taken (ir_pc s t) = Some i \<longrightarrow> i < next_ino (ir_table s) \<and> get_path i (ir_table s) = None
          \<and> (\<forall>u. taken (ir_pc s u) = Some i \<longrightarrow> u = t))
     \<and> (\<forall>i p. path_to_ino (ir_table s) p = Some i \<longrightarrow> leads s i p)
     \<and> (\<forall>t i p. ir_pc s t = Answered p i \<longrightarrow> leads s i p))"

lemma iinv_start: "iinv 0 race_start"
  by (simp add: iinv_def leads_def race_start_def get_path_def ino_table_new_def FUSE_ROOT_INO_def)

lemma iinvD:
  assumes "iinv n s"
  shows "unat (next_ino (ir_table s)) \<le> n + 2"
    and "get_path i (ir_table s) = Some p \<Longrightarrow> i < next_ino (ir_table s)"
    and "taken (ir_pc s t) = Some i \<Longrightarrow> i < next_ino (ir_table s) \<and> get_path i (ir_table s) = None"
    and "taken (ir_pc s t) = Some i \<Longrightarrow> taken (ir_pc s u) = Some i \<Longrightarrow> u = t"
    and "path_to_ino (ir_table s) p = Some i \<Longrightarrow> leads s i p"
    and "ir_pc s t = Answered p i \<Longrightarrow> leads s i p"
  using assms unfolding iinv_def by blast+

lemma leads_one:
  assumes "iinv n s" "leads s i p" "leads s i q"
  shows "p = q"
proof -
  have "False" if "ir_pc s t = Keyed r i" "get_path i (ir_table s) = Some r'" for t r r'
    using iinvD(3)[OF assms(1), of t i] that by simp
  moreover have "r = r'" if "ir_pc s t = Keyed r i" "ir_pc s u = Keyed r' i" for t u r r'
    using iinvD(4)[OF assms(1), of t i u] that by simp
  ultimately show ?thesis using assms(2,3) unfolding leads_def by force
qed

text \<open>A step keeps what an inode leads to, and a new number has no path yet.\<close>

lemma next_ino_less:
  assumes "iinv n s" "n < 2 ^ 64 - 3"
  shows "next_ino (ir_table s) < next_ino (ir_table s) + 1"
proof -
  have "unat (next_ino (ir_table s)) < 2 ^ 64 - 1" using iinvD(1)[OF assms(1)] assms(2) by linarith
  then have "next_ino (ir_table s) \<noteq> - 1" by (auto simp: unsigned_minus_1_eq_mask mask_eq_exp_minus_1)
  then show ?thesis by (rule word_less_Suc)
qed

lemma path_kept:
  assumes "iinv n s" "istep t s s'" "get_path i (ir_table s) = Some p"
  shows "get_path i (ir_table s') = Some p"
  using assms(2,3) iinvD(3)[OF assms(1), of t i] by cases (auto simp: get_path_def)

lemma leads_kept:
  assumes "iinv n s" "istep t s s'" "leads s i p"
  shows "leads s' i p"
proof (cases "get_path i (ir_table s) = Some p")
  case True
  then show ?thesis using path_kept[OF assms(1,2)] by (simp add: leads_def)
next
  case False
  then obtain u where u: "ir_pc s u = Keyed p i" using assms(3) by (auto simp: leads_def)
  have "ir_pc s' u = Keyed p i \<or> get_path i (ir_table s') = Some p"
    using assms(2) u by cases (auto simp: get_path_def)
  then show ?thesis by (auto simp: leads_def)
qed

lemma step_taken:
  assumes "iinv n s" "istep t s s'" "next_ino (ir_table s) < next_ino (ir_table s) + 1" "taken (ir_pc s' u) = Some i"
  shows "i < next_ino (ir_table s')" "get_path i (ir_table s') = None"
    "taken (ir_pc s' v) = Some i \<Longrightarrow> v = u"
proof -
  have a: "taken (ir_pc s w) = Some j \<Longrightarrow> j < next_ino (ir_table s) \<and> get_path j (ir_table s) = None" for w j
    using iinvD(3)[OF assms(1)] .
  have b: "get_path (next_ino (ir_table s)) (ir_table s) = None"
    using iinvD(2)[OF assms(1), of "next_ino (ir_table s)"] by (cases "get_path (next_ino (ir_table s)) (ir_table s)") auto
  have c: "taken (ir_pc s w) \<noteq> Some (next_ino (ir_table s))" for w using a[of w "next_ino (ir_table s)"] by auto
  have d: "taken (ir_pc s w) = Some j \<Longrightarrow> taken (ir_pc s x) = Some j \<Longrightarrow> x = w" for w x j
    using iinvD(4)[OF assms(1)] .
  have up: "j < next_ino (ir_table s) \<Longrightarrow> j < next_ino (ir_table s) + 1" for j
    using assms(3) by (rule order_less_trans[rotated])
  show "i < next_ino (ir_table s')"
    using assms(2,4) a[of u i] a[of t i] up assms(3) by cases (auto split: if_splits)
  show "get_path i (ir_table s') = None"
    using assms(2,4) a[of u i] a[of t i] b d[of t i u] by cases (auto simp: get_path_def split: if_splits)
  show "v = u" if "taken (ir_pc s' v) = Some i"
    using assms(2,4) that c d[of t i u] d[of t i v] d[of u i v] by cases (auto split: if_splits)
qed

lemma iinv_step:
  assumes "iinv n s" "istep t s s'" "n < 2 ^ 64 - 3"
  shows "iinv (Suc n) s'"
proof -
  note lt = next_ino_less[OF assms(1,3)]
  have le: "unat (next_ino (ir_table s')) \<le> Suc n + 2"
    using assms(2) iinvD(1)[OF assms(1)] unat_of_nat
    by cases (auto simp: unat_word_ariths intro: order_trans[OF mod_less_eq_dividend])
  have named: "i < next_ino (ir_table s')" if "get_path i (ir_table s') = Some p" for i p
    using assms(2) that iinvD(2)[OF assms(1), of i p] iinvD(3)[OF assms(1), of t i] lt
    by cases (auto simp: get_path_def split: if_splits)
  have listed: "leads s' i p" if "path_to_ino (ir_table s') p = Some i" for i p
  proof (cases "path_to_ino (ir_table s) p = Some i")
    case True
    then show ?thesis using leads_kept[OF assms(1,2)] iinvD(5)[OF assms(1)] by blast
  next
    case False
    have "ir_pc s' t = Keyed p i" using assms(2) that False by cases (auto split: if_splits)
    then show ?thesis by (auto simp: leads_def)
  qed
  have answered: "leads s' i p" if "ir_pc s' u = Answered p i" for u i p
  proof (cases "ir_pc s u = Answered p i")
    case True
    then show ?thesis using leads_kept[OF assms(1,2)] iinvD(6)[OF assms(1)] by blast
  next
    case False
    have "path_to_ino (ir_table s) p = Some i \<or> ir_pc s t = Keyed p i"
      using assms(2) that False by cases (auto split: if_splits)
    then have "leads s i p" using iinvD(5)[OF assms(1)] by (auto simp: leads_def)
    then show ?thesis by (rule leads_kept[OF assms(1,2)])
  qed
  show ?thesis
    unfolding iinv_def using le named step_taken[OF assms(1,2) lt] listed answered by blast
qed

lemma irun_inv: "irun n s \<Longrightarrow> n < 2 ^ 64 - 2 \<Longrightarrow> iinv n s"
proof (induction rule: irun.induct)
  case irun_start
  show ?case by (rule iinv_start)
next
  case (irun_step n s t s')
  then show ?case using iinv_step[of n s t s'] by simp
qed

subsection \<open>Alone, the steps are the function\<close>

inductive isteps :: "nat \<Rightarrow> ino_race \<Rightarrow> ino_race \<Rightarrow> bool" where
  isteps_refl: "isteps t s s"
| isteps_step: "isteps t s s' \<Longrightarrow> istep t s' s'' \<Longrightarrow> isteps t s s''"

lemma get_or_assign_is_run:
  assumes "ir_pc s t = Idle"
  shows "\<exists>q. isteps t s q \<and> ir_pc q t = Answered p (fst (get_or_assign_ino p (ir_table s)))
    \<and> ir_table q = snd (get_or_assign_ino p (ir_table s))"
proof -
  let ?a = "moves t (Asked p) (ir_table s) s"
  have a: "isteps t s ?a" by (rule isteps_step[OF isteps_refl ask[OF assms]])
  show ?thesis
  proof (cases "path_to_ino (ir_table s) p")
    case (Some i)
    have "isteps t s (moves t (Answered p i) (ir_table ?a) ?a)"
      using a by (rule isteps_step) (rule found; use Some in simp)
    then show ?thesis using Some by (intro exI) (auto simp: get_or_assign_ino_def)
  next
    case None
    let ?b = "moves t (Missed p) (ir_table ?a) ?a"
    let ?tb = "ir_table s" let ?i = "next_ino ?tb"
    let ?c = "moves t (Numbered p ?i) (?tb\<lparr>next_ino := ?i + 1\<rparr>) ?b"
    let ?d = "moves t (Keyed p ?i) ((ir_table ?c)\<lparr>path_to_ino := (path_to_ino (ir_table ?c))(p \<mapsto> ?i)\<rparr>) ?c"
    let ?e = "moves t (Answered p ?i) ((ir_table ?d)\<lparr>ino_to_path := (ino_to_path (ir_table ?d))(?i \<mapsto> p)\<rparr>) ?d"
    have "isteps t s ?b" using a by (rule isteps_step) (rule missed; use None in simp)
    then have "isteps t s ?c" by (rule isteps_step) (use fetch_add[of ?b t p "ir_table ?b"] in simp)
    then have "isteps t s ?d" by (rule isteps_step) (rule list_path; simp)
    then have "isteps t s ?e" by (rule isteps_step) (rule name_ino; simp)
    then show ?thesis using None by (intro exI[of _ ?e]) (simp add: get_or_assign_ino_def Let_def)
  qed
qed

subsection \<open>Properties\<close>

text \<open>C16. However calls of \<open>get_or_assign_ino\<close> interleave on the threads, before the counter wraps:
  an answered inode leads to the path that was asked for as soon as the call that took the number
  has returned; no inode is answered for two paths, and no step takes the path of an inode away or
  changes it.\<close>

theorem inode_calls_safe:
  assumes "irun n s" "n < 2 ^ 64 - 2"
  shows "(\<forall>t p i. ir_pc s t = Answered p i \<longrightarrow>
        get_path i (ir_table s) = Some p \<or> (\<exists>u. ir_pc s u = Keyed p i))
    \<and> (\<forall>p i. path_to_ino (ir_table s) p = Some i \<longrightarrow>
        get_path i (ir_table s) = Some p \<or> (\<exists>u. ir_pc s u = Keyed p i))
    \<and> (\<forall>t u p q i. ir_pc s t = Answered p i \<longrightarrow> ir_pc s u = Answered q i \<longrightarrow> p = q)
    \<and> (\<forall>t s' i p. istep t s s' \<longrightarrow> get_path i (ir_table s) = Some p \<longrightarrow> get_path i (ir_table s') = Some p)"
proof -
  note i = irun_inv[OF assms]
  have "p = q" if "ir_pc s t = Answered p k" "ir_pc s u = Answered q k" for t u p q k
    using iinvD(6)[OF i that(1)] iinvD(6)[OF i that(2)] leads_one[OF i] by blast
  then show ?thesis
    using iinvD(5,6)[OF i] path_kept[OF i] unfolding leads_def by (intro conjI) metis+
qed

text \<open>Both calls look the path up before either inserts it.\<close>

definition raced :: "string \<Rightarrow> ino_race" where
  "raced p = \<lparr>ir_table = \<lparr>path_to_ino = [''/'' \<mapsto> 1, p \<mapsto> 3],
       ino_to_path = [1 \<mapsto> ''/'', 2 \<mapsto> p, 3 \<mapsto> p], next_ino = 4\<rparr>,
     ir_pc = (\<lambda>_. Idle)(0 := Answered p 2, 1 := Answered p 3)\<rparr>"

lemma irun_moves:
  "irun n s \<Longrightarrow> istep t s s' \<Longrightarrow> s' = s'' \<Longrightarrow> irun (Suc n) s''"
  using irun_step by blast

lemma raced_run:
  assumes "p \<noteq> ''/''"
  shows "irun 10 (raced p)"
proof -
  let ?s0 = "race_start" let ?t0 = "ino_table_new"
  let ?s1 = "moves 0 (Asked p) ?t0 ?s0"
  let ?s2 = "moves 1 (Asked p) ?t0 ?s1"
  let ?s3 = "moves 0 (Missed p) ?t0 ?s2"
  let ?s4 = "moves 1 (Missed p) ?t0 ?s3"
  let ?t5 = "?t0\<lparr>next_ino := 3\<rparr>"
  let ?s5 = "moves 0 (Numbered p 2) ?t5 ?s4"
  let ?t6 = "?t0\<lparr>next_ino := 4\<rparr>"
  let ?s6 = "moves 1 (Numbered p 3) ?t6 ?s5"
  let ?t7 = "?t6\<lparr>path_to_ino := (path_to_ino ?t6)(p \<mapsto> 2)\<rparr>"
  let ?s7 = "moves 0 (Keyed p 2) ?t7 ?s6"
  let ?t8 = "?t7\<lparr>path_to_ino := (path_to_ino ?t7)(p \<mapsto> 3)\<rparr>"
  let ?s8 = "moves 1 (Keyed p 3) ?t8 ?s7"
  let ?t9 = "?t8\<lparr>ino_to_path := (ino_to_path ?t8)(2 \<mapsto> p)\<rparr>"
  let ?s9 = "moves 0 (Answered p 2) ?t9 ?s8"
  let ?t10 = "?t9\<lparr>ino_to_path := (ino_to_path ?t9)(3 \<mapsto> p)\<rparr>"
  let ?s10 = "moves 1 (Answered p 3) ?t10 ?s9"
  note d = race_start_def ino_table_new_def FUSE_ROOT_INO_def
  have "irun 1 ?s1" using irun_moves[OF irun_start ask[of ?s0 0 p]] by (simp add: d)
  then have "irun 2 ?s2" using irun_moves[OF _ ask[of ?s1 1 p]] by (simp add: d numeral_2_eq_2)
  then have "irun 3 ?s3" using irun_moves[OF _ missed[of ?s2 0 p]] assms by (simp add: d eval_nat_numeral)
  then have "irun 4 ?s4" using irun_moves[OF _ missed[of ?s3 1 p]] assms by (simp add: d eval_nat_numeral)
  then have "irun 5 ?s5" using irun_moves[OF _ fetch_add[of ?s4 0 p ?t0]] by (simp add: d eval_nat_numeral)
  then have "irun 6 ?s6" using irun_moves[OF _ fetch_add[of ?s5 1 p ?t5]] by (simp add: d eval_nat_numeral)
  then have "irun 7 ?s7" using irun_moves[OF _ list_path[of ?s6 0 p 2 ?t6]] by (simp add: eval_nat_numeral)
  then have "irun 8 ?s8" using irun_moves[OF _ list_path[of ?s7 1 p 3 ?t7]] by (simp add: eval_nat_numeral)
  then have "irun 9 ?s9" using irun_moves[OF _ name_ino[of ?s8 0 p 2 ?t8]] by (simp add: eval_nat_numeral)
  then have "irun 10 ?s10" using irun_moves[OF _ name_ino[of ?s9 1 p 3 ?t9]] by (simp add: eval_nat_numeral)
  moreover have "?s10 = raced p" using assms by (simp add: raced_def moves_def d fun_upd_twist)
  ultimately show ?thesis by simp
qed

text \<open>C17. The look-up and the insertion are not one step: two threads that ask for the same new path
  at once can be given different inodes, which then both lead to the path although the map knows
  one of them only. The two inodes have local copies of different names, so the writes of one are
  not seen through the other.\<close>

theorem inode_race_splits_path:
  assumes "p \<noteq> ''/''"
  shows "\<exists>n s i j. irun n s \<and> n < 2 ^ 64 - 2 \<and> i \<noteq> j \<and> ir_pc s 0 = Answered p i \<and> ir_pc s 1 = Answered p j
    \<and> get_path i (ir_table s) = Some p \<and> get_path j (ir_table s) = Some p
    \<and> path_to_ino (ir_table s) p = Some j \<and> \<not> ino_table_ok (ir_table s)
    \<and> local_path_for E i \<noteq> local_path_for E j"
proof -
  have "local_path_for E 2 \<noteq> local_path_for E 3" by (simp add: local_path_inj)
  moreover have "path_to_ino (ir_table (raced p)) p = Some 3" "ino_to_path (ir_table (raced p)) 2 = Some p"
    "ino_to_path (ir_table (raced p)) 3 = Some p" "ir_pc (raced p) 0 = Answered p 2" "ir_pc (raced p) 1 = Answered p 3"
    by (simp_all add: raced_def)
  moreover from this have "\<not> ino_table_ok (ir_table (raced p))"
    using ino_table_okD[of "ir_table (raced p)" p 2] by auto
  ultimately show ?thesis
    using raced_run[OF assms]
    by (intro exI[of _ 10] exI[of _ "raced p"] exI[of _ 2] exI[of _ 3]) (simp add: get_path_def)
qed

theorem inode_race_splits_path_witness:
  "\<exists>n s i j. irun n s \<and> i \<noteq> j \<and> ir_pc s 0 = Answered ''/a'' i \<and> ir_pc s 1 = Answered ''/a'' j"
  using inode_race_splits_path[of "''/a''"] by fastforce

theorem inode_calls_safe_witness:
  "\<exists>s. irun 10 s \<and> ir_pc s 0 = Answered ''/a'' 2
     \<and> (get_path 2 (ir_table s) = Some ''/a'' \<or> (\<exists>u. ir_pc s u = Keyed ''/a'' 2))"
proof -
  have r: "irun 10 (raced ''/a'')" by (rule raced_run) simp
  have a: "ir_pc (raced ''/a'') 0 = Answered ''/a'' 2" by (simp add: raced_def)
  show ?thesis using inode_calls_safe[OF r] r a by (intro exI[of _ "raced ''/a''"]) simp
qed

end
