(* ===== verification/Mount.thy ===== *)
theory Mount
  imports InodeRace
begin

text \<open>
  The program's start: \<open>main\<close> and \<open>daemonize\<close> (\<open>src/src/main.rs\<close>), \<open>mount\<close> and \<open>AdbFs::new\<close>
  (\<open>src/src/fs.rs\<close>), and the constructors of \<open>DeviceOps\<close> (\<open>src/src/ops.rs\<close>). The session of
  \<open>fuser\<close>, the process calls of \<open>libc\<close> and \<open>tempfile\<close> are the parameter \<open>system\<close>; each gets the
  world and gives it back. A call can end the process (\<open>_exit\<close> in the parent of a fork), so the
  result is \<open>Exits\<close> or \<open>Returns\<close> a value, an error report or a panic. \<open>fork\<close> returns once per
  process; the model follows one of them, whichever value \<open>sy_fork\<close> gives. The parse of the
  arguments by \<open>clap\<close> and the log filter are left out.
\<close>

subsection \<open>The command line and the session\<close>

text \<open>The arguments as \<open>clap\<close> has parsed them.\<close>

record cli =
  cl_mountpoint :: string
  cl_foreground :: bool
  cl_debug :: bool
  cl_single_threaded :: bool
  cl_rescan :: bool
  cl_cache_ttl :: u64
  cl_options :: "string list"

datatype mount_option = AutoUnmount | FSName string | CUSTOM string

text \<open>The fields of \<open>fuser::Config\<close> the program sets; the access rule stands by its name.\<close>

record mount_config =
  cf_mount_options :: "mount_option list"
  cf_acl :: string
  cf_n_threads :: "nat option"
  cf_clone_fd :: bool

datatype report = OptionReport option_error | IoReport int | Wrapped string int

text \<open>A call that may not come back because the process ended.\<close>

datatype 'a ending = Returns "(report, 'a) res" | Exits int

definition and_then :: "'a ending \<times> 'w \<Rightarrow> ('a \<Rightarrow> 'w \<Rightarrow> 'b ending \<times> 'w) \<Rightarrow> 'b ending \<times> 'w" where
  "and_then r k = (case r of
     (Returns (Ok a), w) \<Rightarrow> k a w
   | (Returns (Err e), w) \<Rightarrow> (Returns (Err e), w)
   | (Returns Panicked, w) \<Rightarrow> (Returns Panicked, w)
   | (Exits c, w) \<Rightarrow> (Exits c, w))"

text \<open>The \<open>?\<close> operator in a function that returns a report.\<close>

definition reported :: "('e \<Rightarrow> report) \<Rightarrow> ('e, 'a) res \<times> 'w \<Rightarrow> 'a ending \<times> 'w" where
  "reported f r = (case map_err_res f r of (x, w) \<Rightarrow> (Returns x, w))"

abbreviation io :: "(int, 'a) res \<times> 'w \<Rightarrow> 'a ending \<times> 'w" where
  "io \<equiv> reported IoReport"

text \<open>
  What the program calls: the directory of the \<open>tempfile\<close> crate, \<open>available_parallelism\<close>, the
  session of \<open>fuser\<close> (made, spawned and joined) and the process calls of \<open>libc\<close>. The session takes
  the file system over; \<open>sy_serve\<close> is \<open>spawn\<close> and \<open>sy_join\<close> waits for its end.
\<close>

record 'd system =
  sy_tempdir :: "'d world \<Rightarrow> (int, string) res \<times> 'd world"
  sy_parallelism :: "nat option"
  sy_default_config :: mount_config
  sy_session_new :: "mount_config \<Rightarrow> string \<Rightarrow> 'd world \<Rightarrow> (int, unit) res \<times> 'd world"
  sy_serve :: "'d fs_env \<Rightarrow> 'd adb_fs \<Rightarrow> (int, unit) res \<times> 'd world"
  sy_join :: "'d world \<Rightarrow> (int, unit) res \<times> 'd world"
  sy_fork :: "'d world \<Rightarrow> int \<times> 'd world"
  sy_setsid :: "'d world \<Rightarrow> int \<times> 'd world"
  sy_chdir :: "string \<Rightarrow> 'd world \<Rightarrow> int \<times> 'd world"
  sy_open_rdwr :: "string \<Rightarrow> 'd world \<Rightarrow> int \<times> 'd world"
  sy_dup2 :: "int \<Rightarrow> int \<Rightarrow> 'd world \<Rightarrow> int \<times> 'd world"
  sy_close :: "int \<Rightarrow> 'd world \<Rightarrow> int \<times> 'd world"
  sy_errno :: "'d world \<Rightarrow> int"

subsection \<open>The operations\<close>

definition device_ops_new :: "'d adb_device \<Rightarrow> libc \<Rightarrow> 'd dev_env" where
  "device_ops_new adb lc = \<lparr>d_adb = adb, d_libc = lc, d_rescan = False\<rparr>"

definition with_rescan :: "bool \<Rightarrow> 'd dev_env \<Rightarrow> 'd dev_env" where
  "with_rescan rescan E = E\<lparr>d_rescan := rescan\<rparr>"

definition STDERR_FILENO :: int where "STDERR_FILENO = 2"

text \<open>The parent ends with status 0; the rest runs in the child.\<close>

definition daemonize :: "'d system \<Rightarrow> 'd world \<Rightarrow> unit ending \<times> 'd world" where
  "daemonize Y w =
     (case sy_fork Y w of (pid, w) \<Rightarrow>
        if pid = - 1 then (Returns (Err (Wrapped ''fork failed'' (sy_errno Y w))), w)
        else if pid \<noteq> 0 then (Exits 0, w)
        else case sy_setsid Y w of (sid, w) \<Rightarrow>
          if sid = - 1 then (Returns (Err (Wrapped ''setsid failed'' (sy_errno Y w))), w)
          else
            let w = snd (sy_chdir Y ''/'' w);
                (null, w) = sy_open_rdwr Y ''/dev/null'' w;
                w = (if 0 \<le> null then
                       let w = snd (sy_dup2 Y null 0 w);
                           w = snd (sy_dup2 Y null 1 w);
                           w = snd (sy_dup2 Y null STDERR_FILENO w)
                       in if null > STDERR_FILENO then snd (sy_close Y null w) else w
                     else w)
            in (Returns (Ok ()), w))"

definition session_config :: "'d system \<Rightarrow> string list \<Rightarrow> bool \<Rightarrow> mount_config" where
  "session_config Y options single_threaded =
     (let mount_options = [AutoUnmount, FSName ''adbfs''];
          mount_options = fold (\<lambda>opt os. os @ [CUSTOM opt]) options mount_options;
          n_threads = (if single_threaded then 1
            else case sy_parallelism Y of Some n \<Rightarrow> n | None \<Rightarrow> 4)
      in (sy_default_config Y)\<lparr>cf_mount_options := mount_options, cf_acl := ''RootAndOwner'',
           cf_n_threads := Some n_threads, cf_clone_fd := True\<rparr>)"

definition mount_fs ::
  "'d system \<Rightarrow> 'd fs_env \<times> 'd adb_fs \<Rightarrow> string \<Rightarrow> string list \<Rightarrow> bool
    \<Rightarrow> ('d world \<Rightarrow> unit ending \<times> 'd world) \<Rightarrow> 'd world \<Rightarrow> unit ending \<times> 'd world" where
  "mount_fs Y adbfs mountpoint options single_threaded on_mounted w =
     and_then (io (sy_session_new Y (session_config Y options single_threaded) mountpoint w)) (\<lambda>_ w.
     and_then (on_mounted w) (\<lambda>_ w.
     and_then (io (sy_serve Y (fst adbfs) ((snd adbfs)\<lparr>fs_world := w\<rparr>))) (\<lambda>_ w.
     and_then (io (sy_join Y w)) (\<lambda>_ w. (Returns (Ok ()), w)))))"

text \<open>\<open>AdbFs::new\<close>, the rest of the environment given.\<close>

definition adb_fs_open ::
  "'d system \<Rightarrow> 'd fs_env \<Rightarrow> 'd dev_env \<Rightarrow> nat \<Rightarrow> fs_options \<Rightarrow> 'd world
    \<Rightarrow> ('d fs_env \<times> 'd adb_fs) ending \<times> 'd world" where
  "adb_fs_open Y base ops ttl opts w =
     and_then (io (sy_tempdir Y w)) (\<lambda>tmp w.
       (Returns (Ok (base\<lparr>e_ops := ops, e_opts := opts, e_tmp_dir := tmp\<rparr>, adb_fs_new ttl w)), w))"

definition default_filter :: "bool \<Rightarrow> string" where
  "default_filter debug = (if debug then ''adbfs=debug'' else ''adbfs=warn'')"

definition duration_from_secs :: "u64 \<Rightarrow> nat" where
  "duration_from_secs secs = unat secs * 1000000000"

definition adbfs_main ::
  "'d system \<Rightarrow> 'd exec \<Rightarrow> libc \<Rightarrow> (string \<Rightarrow> nat option) \<Rightarrow> 'd fs_env \<Rightarrow> cli \<Rightarrow> 'd world \<Rightarrow> unit ending \<times> 'd world" where
  "adbfs_main Y exec lc secs_of base cli w =
     and_then (reported OptionReport (split_options secs_of (cl_options cli), w))
       (\<lambda>(fs_opts, mount_options) w.
         let debug = cl_debug cli \<or> opt_debug fs_opts;
             foreground = cl_foreground cli \<or> debug;
             adb = adb_cli exec None;
             ops = with_rescan (cl_rescan cli) (device_ops_new adb lc)
         in and_then (adb_fs_open Y base ops (duration_from_secs (cl_cache_ttl cli)) fs_opts w) (\<lambda>adbfs w.
            mount_fs Y adbfs (cl_mountpoint cli) mount_options (cl_single_threaded cli)
              (\<lambda>w. if foreground then (Returns (Ok ()), w) else daemonize Y w) w))"

subsection \<open>Lemmas\<close>

lemma and_then_simps [simp]:
  "and_then (Returns (Ok a), w) k = k a w"
  "and_then (Returns (Err e), w) k = (Returns (Err e), w)"
  "and_then (Returns Panicked, w) k = (Returns Panicked, w)"
  "and_then (Exits c, w) k = (Exits c, w)"
  by (simp_all add: and_then_def)

lemma reported_simps [simp]:
  "reported f (Ok a, w) = (Returns (Ok a), w)"
  "reported f (Err e, w) = (Returns (Err (f e)), w)"
  "reported f (Panicked, w) = (Returns Panicked, w)"
  by (simp_all add: reported_def)

lemma and_then_Ok: "and_then r k = (Returns (Ok b), w) \<longleftrightarrow> (\<exists>a v. r = (Returns (Ok a), v) \<and> k a v = (Returns (Ok b), w))"
  by (simp add: and_then_def split: prod.splits ending.splits res.splits)

lemma and_then_Exits:
  "and_then r k = (Exits c, w) \<longleftrightarrow> r = (Exits c, w) \<or> (\<exists>a v. r = (Returns (Ok a), v) \<and> k a v = (Exits c, w))"
  by (auto simp: and_then_def split: prod.splits ending.splits res.splits)

lemma and_then_Err:
  "and_then r k = (Returns (Err e), w) \<longleftrightarrow> r = (Returns (Err e), w) \<or> (\<exists>a v. r = (Returns (Ok a), v) \<and> k a v = (Returns (Err e), w))"
  by (auto simp: and_then_def split: prod.splits ending.splits res.splits)

lemmas and_then_iffs = and_then_Ok and_then_Exits and_then_Err

lemma reported_Ok: "reported f r = (Returns (Ok a), w) \<longleftrightarrow> r = (Ok a, w)"
  by (cases r; cases "fst r") (auto simp: reported_def map_err_res_def)

lemma reported_Exits: "reported f r \<noteq> (Exits c, w)"
  by (cases r; cases "fst r") (auto simp: reported_def map_err_res_def)

lemma reported_Err: "reported f r = (Returns (Err x), w) \<longleftrightarrow> (\<exists>e. r = (Err e, w) \<and> x = f e)"
  by (cases r; cases "fst r") (auto simp: reported_def map_err_res_def)

lemmas reported_iffs = reported_Ok reported_Exits reported_Err

lemma fold_custom: "fold (\<lambda>opt os. os @ [CUSTOM opt]) opts os = os @ map CUSTOM opts"
  by (induction opts arbitrary: os) simp_all

lemma session_config_options:
  "cf_mount_options (session_config Y opts single) = [AutoUnmount, FSName ''adbfs''] @ map CUSTOM opts"
  by (simp add: session_config_def Let_def fold_custom)

lemma session_config_threads:
  "cf_n_threads (session_config Y opts single) = Some (if single then 1 else case sy_parallelism Y of Some n \<Rightarrow> n | None \<Rightarrow> 4)"
  by (simp add: session_config_def Let_def)

text \<open>The debug option is set exactly when it was given.\<close>

lemma set_field_debug:
  "(\<And>x. opt_debug (upd x fo) = opt_debug fo) \<Longrightarrow> opt_debug (snd (set_field r upd fo)) = opt_debug fo"
  by (cases r) (simp_all add: set_field_def)

lemma consume_debug:
  "opt_debug (snd (consume secs_of opt fo)) \<longleftrightarrow> opt_debug fo \<or> opt = ''debug''"
proof (cases "split_once (CHR ''='') opt")
  case None
  then show ?thesis by (simp add: consume_def)
next
  case (Some kv)
  then obtain k v where kv: "split_once (CHR ''='') opt = Some (k, v)" by (cases kv) auto
  have "split_once (CHR ''='') ''debug'' = None" by (simp add: split_once_def)
  then have "opt \<noteq> ''debug''" using kv by auto
  moreover have "opt_debug (snd (consume secs_of opt fo)) = opt_debug fo"
    by (simp add: consume_def kv set_field_debug)
  ultimately show ?thesis by simp
qed

lemma apply_all_debug:
  "opt_debug (apply_all_options secs_of opts fo) \<longleftrightarrow> opt_debug fo \<or> ''debug'' \<in> set opts"
  unfolding apply_all_options_def
  by (induction opts arbitrary: fo) (auto simp: consume_debug)

text \<open>What the command line asks for.\<close>

definition wants_foreground :: "cli \<Rightarrow> bool" where
  "wants_foreground cli = (cl_foreground cli \<or> cl_debug cli \<or> ''debug'' \<in> set (cl_options cli))"

definition passed_on :: "cli \<Rightarrow> string list" where
  "passed_on cli = filter (\<lambda>opt. \<not> recognised opt) (cl_options cli)"

definition first_bad :: "(string \<Rightarrow> nat option) \<Rightarrow> cli \<Rightarrow> string option" where
  "first_bad secs_of cli = List.find (\<lambda>opt. bad_option secs_of opt \<noteq> None) (cl_options cli)"

text \<open>\<open>main\<close> with the option list read.\<close>

lemma adbfs_main_bad:
  assumes "first_bad secs_of cli = Some opt"
  shows "adbfs_main Y exec lc secs_of base cli w = (Returns (Err (OptionReport (the (bad_option secs_of opt)))), w)"
  using assms by (simp add: adbfs_main_def split_options_def split_loop_spec first_bad_def)

definition opened_fs :: "'d exec \<Rightarrow> libc \<Rightarrow> (string \<Rightarrow> nat option) \<Rightarrow> 'd fs_env \<Rightarrow> cli \<Rightarrow> string \<Rightarrow> 'd fs_env" where
  "opened_fs exec lc secs_of base cli tmp = base\<lparr>
     e_ops := \<lparr>d_adb = adb_cli exec None, d_libc = lc, d_rescan = cl_rescan cli\<rparr>,
     e_opts := apply_all_options secs_of (cl_options cli) default_options, e_tmp_dir := tmp\<rparr>"

lemma adbfs_main_good:
  assumes "first_bad secs_of cli = None"
  shows "adbfs_main Y exec lc secs_of base cli w =
    and_then (io (sy_tempdir Y w)) (\<lambda>tmp w.
      mount_fs Y (opened_fs exec lc secs_of base cli tmp, adb_fs_new (duration_from_secs (cl_cache_ttl cli)) w)
        (cl_mountpoint cli) (passed_on cli) (cl_single_threaded cli)
        (\<lambda>w. if wants_foreground cli then (Returns (Ok ()), w) else daemonize Y w) w)"
proof -
  have s: "split_options secs_of (cl_options cli)
      = Ok (apply_all_options secs_of (cl_options cli) default_options, passed_on cli)"
    using assms by (simp add: split_options_def split_loop_spec first_bad_def passed_on_def)
  have d: "opt_debug (apply_all_options secs_of (cl_options cli) default_options) \<longleftrightarrow> ''debug'' \<in> set (cl_options cli)"
    by (simp add: apply_all_debug default_options_def)
  have f: "cl_foreground cli \<or> cl_debug cli \<or> ''debug'' \<in> set (cl_options cli) \<longleftrightarrow> wants_foreground cli"
    by (simp add: wants_foreground_def)
  have assoc: "and_then (and_then r g) k = and_then r (\<lambda>a v. and_then (g a v) k)" for r g k
    by (auto simp: and_then_def split: prod.splits ending.splits res.splits)
  show ?thesis
    by (simp add: adbfs_main_def s d f Let_def adb_fs_open_def assoc opened_fs_def with_rescan_def device_ops_new_def)
qed

text \<open>The process forks, becomes the leader of its session, or ends as the parent.\<close>

lemma daemonize_Exits:
  "daemonize Y w = (Exits c, w') \<longleftrightarrow> c = 0 \<and> sy_fork Y w = (fst (sy_fork Y w), w') \<and> fst (sy_fork Y w) \<notin> {- 1, 0}"
  by (cases "sy_fork Y w") (auto simp: daemonize_def Let_def split: prod.splits)

lemma daemonize_Ok:
  "daemonize Y w = (Returns (Ok u), w') \<Longrightarrow> fst (sy_fork Y w) = 0 \<and> fst (sy_setsid Y (snd (sy_fork Y w))) \<noteq> - 1"
  by (auto simp: daemonize_def Let_def split: prod.splits if_splits)

subsection \<open>Properties\<close>

lemma mount_Ok:
  "mount_fs Y a mp opts single om w = (Returns (Ok u), w') \<longleftrightarrow>
     (\<exists>v1 v2 v3. sy_session_new Y (session_config Y opts single) mp w = (Ok (), v1) \<and> om v1 = (Returns (Ok ()), v2)
        \<and> sy_serve Y (fst a) ((snd a)\<lparr>fs_world := v2\<rparr>) = (Ok (), v3) \<and> sy_join Y v3 = (Ok (), w'))"
  by (simp add: mount_fs_def and_then_iffs reported_iffs)

lemma mount_Exits:
  "mount_fs Y a mp opts single om w = (Exits c, w') \<longleftrightarrow>
     (\<exists>v. sy_session_new Y (session_config Y opts single) mp w = (Ok (), v) \<and> om v = (Exits c, w'))"
  by (simp add: mount_fs_def and_then_iffs reported_iffs)

lemma daemonize_report: "daemonize Y w \<noteq> (Returns (Err (OptionReport e)), w')"
  by (simp add: daemonize_def case_prod_beta Let_def)

lemma main_returned:
  assumes "first_bad secs_of cli = None" "adbfs_main Y exec lc secs_of base cli w = (Returns (Ok u), w')"
  shows "\<exists>cf tmp w1 w2 w3 w4 E s.
        sy_tempdir Y w = (Ok tmp, w1)
        \<and> cf_mount_options cf = [AutoUnmount, FSName ''adbfs''] @ map CUSTOM (passed_on cli)
        \<and> sy_session_new Y cf (cl_mountpoint cli) w1 = (Ok (), w2)
        \<and> (if wants_foreground cli then w3 = w2
           else fst (sy_fork Y w2) = 0 \<and> fst (sy_setsid Y (snd (sy_fork Y w2))) \<noteq> - 1
             \<and> daemonize Y w2 = (Returns (Ok ()), w3))
        \<and> sy_serve Y E s = (Ok (), w4) \<and> sy_join Y w4 = (Ok (), w')
        \<and> fs_ok E s \<and> fs_world s = w3 \<and> e_tmp_dir E = tmp \<and> d_rescan (e_ops E) = cl_rescan cli
        \<and> e_opts E = apply_all_options secs_of (cl_options cli) default_options"
proof -
  note m = assms(2)[unfolded adbfs_main_good[OF assms(1)]]
  from m obtain tmp w1 where t: "sy_tempdir Y w = (Ok tmp, w1)"
    and mnt: "mount_fs Y (opened_fs exec lc secs_of base cli tmp, adb_fs_new (duration_from_secs (cl_cache_ttl cli)) w1)
      (cl_mountpoint cli) (passed_on cli) (cl_single_threaded cli)
      (\<lambda>w. if wants_foreground cli then (Returns (Ok ()), w) else daemonize Y w) w1 = (Returns (Ok u), w')"
    by (auto simp: and_then_iffs reported_iffs)
  from mnt[unfolded mount_Ok] obtain w2 w3 w4 where
    n: "sy_session_new Y (session_config Y (passed_on cli) (cl_single_threaded cli)) (cl_mountpoint cli) w1 = (Ok (), w2)"
    and o: "(if wants_foreground cli then (Returns (Ok ()), w2) else daemonize Y w2) = (Returns (Ok ()), w3)"
    and v: "sy_serve Y (opened_fs exec lc secs_of base cli tmp)
       ((adb_fs_new (duration_from_secs (cl_cache_ttl cli)) w1)\<lparr>fs_world := w3\<rparr>) = (Ok (), w4)"
    and j: "sy_join Y w4 = (Ok (), w')" by auto
  have new: "(adb_fs_new ttl w1)\<lparr>fs_world := w3\<rparr> = adb_fs_new ttl w3" for ttl by (simp add: adb_fs_new_def)
  have "fs_ok E (adb_fs_new ttl w3)" "fs_world (adb_fs_new ttl w3) = w3" for E and ttl
    by (rule fs_ok_new) (simp add: adb_fs_new_def)
  moreover have "if wants_foreground cli then w3 = w2
       else fst (sy_fork Y w2) = 0 \<and> fst (sy_setsid Y (snd (sy_fork Y w2))) \<noteq> - 1
         \<and> daemonize Y w2 = (Returns (Ok ()), w3)"
    using o daemonize_Ok[of Y w2] by (auto split: if_splits)
  ultimately show ?thesis
    using t n v[unfolded new] j
    by (intro exI[of _ "session_config Y (passed_on cli) (cl_single_threaded cli)"] exI[of _ tmp] exI[of _ w1]
        exI[of _ w2] exI[of _ w3] exI[of _ w4] exI[of _ "opened_fs exec lc secs_of base cli tmp"]
        exI[of _ "adb_fs_new (duration_from_secs (cl_cache_ttl cli)) w3"])
      (simp add: session_config_options opened_fs_def)
qed


text \<open>In the foreground the process never forks, leaves its session or closes its standard streams:
  what \<open>main\<close> does is the same whatever these calls would do. The foreground is asked for by \<open>-f\<close>, \<open>-d\<close> or an
  option \<open>debug\<close>.\<close>

theorem foreground_never_forks:
  assumes "wants_foreground cli"
  shows "adbfs_main (Y\<lparr>sy_fork := f, sy_setsid := g, sy_chdir := h, sy_open_rdwr := k, sy_dup2 := m, sy_close := c\<rparr>)
       exec lc secs_of base cli w
     = adbfs_main Y exec lc secs_of base cli w"
  by (cases "first_bad secs_of cli") (simp_all add: adbfs_main_bad adbfs_main_good mount_fs_def session_config_def assms)

subsection \<open>A concrete start\<close>

definition demo_cli :: "bool \<Rightarrow> string list \<Rightarrow> cli" where
  "demo_cli f os = \<lparr>cl_mountpoint = ''/mnt'', cl_foreground = f, cl_debug = False, cl_single_threaded = False,
     cl_rescan = True, cl_cache_ttl = 30, cl_options = os\<rparr>"

text \<open>Every call succeeds, and the process is the parent.\<close>

definition demo_system :: "mock_adb system" where
  "demo_system = \<lparr>sy_tempdir = (\<lambda>w. (Ok ''/tmp/adbfs'', w)), sy_parallelism = Some 8,
     sy_default_config = \<lparr>cf_mount_options = [], cf_acl = ''Owner'', cf_n_threads = None, cf_clone_fd = False\<rparr>,
     sy_session_new = (\<lambda>_ _ w. (Ok (), w)), sy_serve = (\<lambda>_ s. (Ok (), fs_world s)), sy_join = (\<lambda>w. (Ok (), w)),
     sy_fork = (\<lambda>w. (77, w)), sy_setsid = (\<lambda>w. (1, w)), sy_chdir = (\<lambda>_ w. (0, w)), sy_open_rdwr = (\<lambda>_ w. (3, w)),
     sy_dup2 = (\<lambda>_ n w. (n, w)), sy_close = (\<lambda>_ w. (0, w)), sy_errno = (\<lambda>_. 0)\<rparr>"

lemma demo_passed: "passed_on (demo_cli f [''ro'', ''direct_io'']) = [''ro'']"
  "first_bad (\<lambda>_. None) (demo_cli f [''ro'', ''direct_io'']) = None"
  "wants_foreground (demo_cli f [''ro'', ''direct_io'']) = f"
  by (simp_all add: passed_on_def first_bad_def demo_cli_def wants_foreground_def recognised_def bad_option_def
      split_once_def flag_keys_def)


theorem foreground_never_forks_witness:
  "adbfs_main (demo_system\<lparr>sy_fork := (\<lambda>w. (- 1, w))\<rparr>) undefined undefined (\<lambda>_. None) (demo_env [])
       (demo_cli True [''ro'', ''direct_io'']) (demo_world [] [])
     = adbfs_main demo_system undefined undefined (\<lambda>_. None) (demo_env [])
       (demo_cli True [''ro'', ''direct_io'']) (demo_world [] [])"
  using foreground_never_forks[where cli = "demo_cli True [''ro'', ''direct_io'']" and Y = demo_system
      and f = "\<lambda>w. (- 1, w)" and g = "sy_setsid demo_system" and h = "sy_chdir demo_system"
      and k = "sy_open_rdwr demo_system" and m = "sy_dup2 demo_system" and c = "sy_close demo_system"]
  by (simp add: demo_passed)

end
