(* ===== verification/UnitTests.thy ===== *)
theory UnitTests
  imports Mount
begin

unbundle bit_operations_syntax

text \<open>
  The unit tests of the repository, run on the model: those of the escapers, the parser, the cache
  and the mount options. A test function is a definition of the same name after \<open>test_\<close>, whose
  value is whether all its assertions hold; the lists collect the tests of a file, and the
  kernel evaluates them. A test that passes in the program and failed here would show a
  definition that is not the code's. The tests of \<open>proptest\<close> are proved for every input they
  could draw. A parsed date goes through \<open>mktime\<close>, so the tests that parse a line have the C library
  as an argument.
\<close>

subsection \<open>The shell escapers (\<open>src/src/escape.rs\<close>)\<close>

text \<open>In the literals \<open>^\<close> stands for a single quote, \<open>$\<close> for a backslash and \<open>@\<close> for a backtick.\<close>

definition lit :: "string \<Rightarrow> string" where
  "lit s = map (\<lambda>c. if c = CHR 0x5E then squote else if c = CHR 0x24 then bslash
     else if c = CHR 0x40 then backtick else c) s"

definition test_escape_path_empty :: bool where
  \<open>test_escape_path_empty =
    (shell_escape_path [] = [])\<close>

definition test_escape_path_no_special_chars :: bool where
  \<open>test_escape_path_no_special_chars =
    (shell_escape_path ''/mnt/sdcard/photo.jpg'' = ''/mnt/sdcard/photo.jpg'')\<close>

definition test_escape_path_single_quote :: bool where
  \<open>test_escape_path_single_quote =
    (shell_escape_path (lit ''it^s'') = lit ''it^$^^s'')\<close>

definition test_escape_path_double_quote_is_literal :: bool where
  \<open>test_escape_path_double_quote_is_literal =
    (shell_escape_path ''say "hello"'' = ''say "hello"'')\<close>

definition test_escape_path_both_quotes :: bool where
  \<open>test_escape_path_both_quotes =
    (shell_escape_path (lit ''it^s "fine"'') = lit ''it^$^^s "fine"'')\<close>

definition test_escape_path_backslash_is_literal :: bool where
  \<open>test_escape_path_backslash_is_literal =
    (shell_escape_path (lit ''a$b'') = lit ''a$b'')\<close>

definition test_escape_path_multiple_single_quotes :: bool where
  \<open>test_escape_path_multiple_single_quotes =
    (shell_escape_path (lit ''a^b^c'') = lit ''a^$^^b^$^^c'')\<close>

definition test_escape_path_only_quotes :: bool where
  \<open>test_escape_path_only_quotes =
    (shell_escape_path (lit ''^'') = lit ''^$^^''
     \<and> shell_escape_path (lit ''^^'') = lit ''^$^^^$^^'')\<close>

definition test_escape_command_empty :: bool where
  \<open>test_escape_command_empty =
    (shell_escape_command [] = [])\<close>

definition test_escape_command_no_special_chars :: bool where
  \<open>test_escape_command_no_special_chars =
    (shell_escape_command ''ls -la'' = ''ls -la'')\<close>

definition test_escape_command_backslash :: bool where
  \<open>test_escape_command_backslash =
    (shell_escape_command (lit ''a$b'') = lit ''a$$b'')\<close>

definition test_escape_command_single_quote :: bool where
  \<open>test_escape_command_single_quote =
    (shell_escape_command (lit ''it^s'') = lit ''it$^s'')\<close>

definition test_escape_command_backtick :: bool where
  \<open>test_escape_command_backtick =
    (shell_escape_command (lit ''echo @date@'') = lit ''echo $@date$@'')\<close>

definition test_escape_command_all_three :: bool where
  \<open>test_escape_command_all_three =
    (shell_escape_command (lit ''a$b^c@d'') = lit ''a$$b$^c$@d'')\<close>

definition test_escape_command_double_backslash :: bool where
  \<open>test_escape_command_double_backslash =
    (shell_escape_command (lit ''$$'') = lit ''$$$$'')\<close>

definition test_adb_escape_empty :: bool where
  \<open>test_adb_escape_empty =
    (adb_shell_escape_command [] = [])\<close>

definition test_adb_escape_no_special_chars :: bool where
  \<open>test_adb_escape_no_special_chars =
    (adb_shell_escape_command ''ls -la /sdcard'' = ''ls -la /sdcard'')\<close>

definition test_adb_escape_backslash :: bool where
  \<open>test_adb_escape_backslash =
    (adb_shell_escape_command (lit ''a$b'') = lit ''a$$b'')\<close>

definition test_adb_escape_parentheses :: bool where
  \<open>test_adb_escape_parentheses =
    (adb_shell_escape_command ''f(x)'' = lit ''f$(x$)'')\<close>

definition test_adb_escape_single_quote :: bool where
  \<open>test_adb_escape_single_quote =
    (adb_shell_escape_command (lit ''it^s'') = lit ''it$^s'')\<close>

definition test_adb_escape_backtick :: bool where
  \<open>test_adb_escape_backtick =
    (adb_shell_escape_command (lit ''@cmd@'') = lit ''$@cmd$@'')\<close>

definition test_adb_escape_pipe :: bool where
  \<open>test_adb_escape_pipe =
    (adb_shell_escape_command ''a|b'' = lit ''a$|b'')\<close>

definition test_adb_escape_ampersand :: bool where
  \<open>test_adb_escape_ampersand =
    (adb_shell_escape_command ''a&b'' = lit ''a$&b'')\<close>

definition test_adb_escape_semicolon :: bool where
  \<open>test_adb_escape_semicolon =
    (adb_shell_escape_command ''a;b'' = lit ''a$;b'')\<close>

definition test_adb_escape_angle_brackets :: bool where
  \<open>test_adb_escape_angle_brackets =
    (adb_shell_escape_command ''a<b>c'' = lit ''a$<b$>c'')\<close>

definition test_adb_escape_star :: bool where
  \<open>test_adb_escape_star =
    (adb_shell_escape_command ''*.txt'' = lit ''$*.txt'')\<close>

definition test_adb_escape_hash :: bool where
  \<open>test_adb_escape_hash =
    (adb_shell_escape_command ''# comment'' = lit ''$# comment'')\<close>

definition test_adb_escape_percent :: bool where
  \<open>test_adb_escape_percent =
    (adb_shell_escape_command ''100%'' = lit ''100$%'')\<close>

definition test_adb_escape_equals :: bool where
  \<open>test_adb_escape_equals =
    (adb_shell_escape_command ''a=b'' = lit ''a$=b'')\<close>

definition test_adb_escape_tilde :: bool where
  \<open>test_adb_escape_tilde =
    (adb_shell_escape_command ''~user'' = lit ''$~user'')\<close>

definition test_adb_escape_all_special_chars :: bool where
  \<open>test_adb_escape_all_special_chars =
    (adb_shell_escape_command (lit ''$()^@|&;<>*#%=~'') = lit ''$$$($)$^$@$|$&$;$<$>$*$#$%$=$~'')\<close>

definition test_adb_escape_strips_ansi_codes :: bool where
  \<open>test_adb_escape_strips_ansi_codes =
    (adb_shell_escape_command ''hello/[0;0m world'' = ''hello world''
     \<and> adb_shell_escape_command ''/[1;32mgreen'' = ''green''
     \<and> adb_shell_escape_command ''blue/[1;34m'' = ''blue''
     \<and> adb_shell_escape_command ''/[1;36mcyan/[0;0m'' = ''cyan'')\<close>

definition test_adb_escape_strips_ansi_and_escapes :: bool where
  \<open>test_adb_escape_strips_ansi_and_escapes =
    (adb_shell_escape_command ''file/[0;0m|name'' = lit ''file$|name'')\<close>

definition test_adb_escape_multiple_specials_together :: bool where
  \<open>test_adb_escape_multiple_specials_together =
    (adb_shell_escape_command ''a|b&c;d'' = lit ''a$|b$&c$;d'')\<close>

definition escape_tests :: "bool list" where
    "escape_tests = [test_escape_path_empty, test_escape_path_no_special_chars,
     test_escape_path_single_quote, test_escape_path_double_quote_is_literal, test_escape_path_both_quotes,
     test_escape_path_backslash_is_literal, test_escape_path_multiple_single_quotes,
     test_escape_path_only_quotes, test_escape_command_empty, test_escape_command_no_special_chars,
     test_escape_command_backslash, test_escape_command_single_quote, test_escape_command_backtick,
     test_escape_command_all_three, test_escape_command_double_backslash, test_adb_escape_empty,
     test_adb_escape_no_special_chars, test_adb_escape_backslash, test_adb_escape_parentheses,
     test_adb_escape_single_quote, test_adb_escape_backtick, test_adb_escape_pipe,
     test_adb_escape_ampersand, test_adb_escape_semicolon, test_adb_escape_angle_brackets,
     test_adb_escape_star, test_adb_escape_hash, test_adb_escape_percent, test_adb_escape_equals,
     test_adb_escape_tilde, test_adb_escape_all_special_chars, test_adb_escape_strips_ansi_codes,
     test_adb_escape_strips_ansi_and_escapes, test_adb_escape_multiple_specials_together]"


lemmas escape_test_defs = test_escape_path_empty_def test_escape_path_no_special_chars_def
  test_escape_path_single_quote_def test_escape_path_double_quote_is_literal_def
  test_escape_path_both_quotes_def test_escape_path_backslash_is_literal_def
  test_escape_path_multiple_single_quotes_def test_escape_path_only_quotes_def test_escape_command_empty_def
  test_escape_command_no_special_chars_def test_escape_command_backslash_def
  test_escape_command_single_quote_def test_escape_command_backtick_def test_escape_command_all_three_def
  test_escape_command_double_backslash_def test_adb_escape_empty_def test_adb_escape_no_special_chars_def
  test_adb_escape_backslash_def test_adb_escape_parentheses_def test_adb_escape_single_quote_def
  test_adb_escape_backtick_def test_adb_escape_pipe_def test_adb_escape_ampersand_def
  test_adb_escape_semicolon_def test_adb_escape_angle_brackets_def test_adb_escape_star_def
  test_adb_escape_hash_def test_adb_escape_percent_def test_adb_escape_equals_def test_adb_escape_tilde_def
  test_adb_escape_all_special_chars_def test_adb_escape_strips_ansi_codes_def
  test_adb_escape_strips_ansi_and_escapes_def test_adb_escape_multiple_specials_together_def

lemma escape_tests_pass: "list_all (\<lambda>passes. passes) escape_tests"
  by (simp add: escape_tests_def escape_test_defs lit_def shell_escape_path_def shell_escape_command_def
      adb_shell_escape_command_def ADB_ESCAPE_CHARS_def strip_ansi_def ANSI_STRIP_PATTERNS_def)

subsection \<open>The parser of \<open>ls\<close> output (\<open>src/src/parse.rs\<close>)\<close>

definition S_IRWXU :: u32 where "S_IRWXU = 0x1C0"
definition S_IRWXG :: u32 where "S_IRWXG = 0x38"
definition S_IRWXO :: u32 where "S_IRWXO = 0x7"

definition test_mode_regular_file_rw :: bool where
  "test_mode_regular_file_rw =
    (let md = parse_mode_string ''-rw-r--r--'' in
     (md AND S_IFMT = S_IFREG
     \<and> md AND S_IRUSR \<noteq> 0
     \<and> md AND S_IWUSR \<noteq> 0
     \<and> md AND S_IXUSR = 0
     \<and> md AND S_IRGRP \<noteq> 0
     \<and> md AND S_IWGRP = 0
     \<and> md AND S_IROTH \<noteq> 0
     \<and> md AND S_IWOTH = 0))"

definition test_mode_directory :: bool where
  "test_mode_directory =
    (let md = parse_mode_string ''drwxr-xr-x'' in
     (md AND S_IFMT = S_IFDIR
     \<and> md AND S_IXUSR \<noteq> 0
     \<and> md AND S_IXGRP \<noteq> 0
     \<and> md AND S_IXOTH \<noteq> 0))"

definition test_mode_symlink :: bool where
  "test_mode_symlink =
    (let md = parse_mode_string ''lrwxrwxrwx'' in
     (md AND S_IFMT = S_IFLNK
     \<and> md AND S_IRWXU \<noteq> 0
     \<and> md AND S_IRWXG \<noteq> 0
     \<and> md AND S_IRWXO \<noteq> 0))"

definition test_mode_socket :: bool where
  "test_mode_socket =
    (let md = parse_mode_string ''srwxrwxrwx'' in
     (md AND S_IFMT = S_IFSOCK))"

definition test_mode_block_device :: bool where
  "test_mode_block_device =
    (let md = parse_mode_string ''brw-rw----'' in
     (md AND S_IFMT = S_IFBLK))"

definition test_mode_char_device :: bool where
  "test_mode_char_device =
    (let md = parse_mode_string ''crw-rw-rw-'' in
     (md AND S_IFMT = S_IFCHR))"

definition test_mode_fifo :: bool where
  "test_mode_fifo =
    (let md = parse_mode_string ''prw-r--r--'' in
     (md AND S_IFMT = S_IFIFO))"

definition test_mode_setuid_with_exec :: bool where
  "test_mode_setuid_with_exec =
    (let md = parse_mode_string ''-rwsr-xr-x'' in
     (md AND S_ISUID \<noteq> 0
     \<and> md AND S_IXUSR \<noteq> 0))"

definition test_mode_setuid_without_exec :: bool where
  "test_mode_setuid_without_exec =
    (let md = parse_mode_string ''-rwSr-xr-x'' in
     (md AND S_ISUID \<noteq> 0
     \<and> md AND S_IXUSR = 0))"

definition test_mode_setgid_with_exec :: bool where
  "test_mode_setgid_with_exec =
    (let md = parse_mode_string ''-rwxr-sr-x'' in
     (md AND S_ISGID \<noteq> 0
     \<and> md AND S_IXGRP \<noteq> 0))"

definition test_mode_setgid_without_exec :: bool where
  "test_mode_setgid_without_exec =
    (let md = parse_mode_string ''-rwxr-Sr-x'' in
     (md AND S_ISGID \<noteq> 0
     \<and> md AND S_IXGRP = 0))"

definition test_mode_sticky_with_exec :: bool where
  "test_mode_sticky_with_exec =
    (let md = parse_mode_string ''drwxr-xr-t'' in
     (md AND S_ISVTX \<noteq> 0
     \<and> md AND S_IXOTH \<noteq> 0))"

definition test_mode_sticky_without_exec :: bool where
  "test_mode_sticky_without_exec =
    (let md = parse_mode_string ''drwxr-xr-T'' in
     (md AND S_ISVTX \<noteq> 0
     \<and> md AND S_IXOTH = 0))"

definition test_valid_ls_regular_file :: bool where
  "test_valid_ls_regular_file =
    (is_valid_ls_output ''-rw-rw-r-- root     sdcard_rw   763362 2012-06-22 02:16 file.html'')"

definition test_valid_ls_directory :: bool where
  "test_valid_ls_directory =
    (is_valid_ls_output ''drwxr-xr-x root     root              2012-06-22 02:16 somedir'')"

definition test_invalid_ls_error_message :: bool where
  "test_invalid_ls_error_message =
    (\<not> is_valid_ls_output ''/data/misc: Permission denied'')"

definition test_invalid_ls_opendir_error :: bool where
  "test_invalid_ls_opendir_error =
    (\<not> is_valid_ls_output ''opendir failed, No such file or directory'')"

definition test_invalid_ls_empty :: bool where
  "test_invalid_ls_empty =
    (\<not> is_valid_ls_output [])"

definition test_invalid_ls_short :: bool where
  "test_invalid_ls_short =
    (\<not> is_valid_ls_output ''x'')"

definition test_parse_regular_file_without_nlink :: "libc \<Rightarrow> bool" where
  "test_parse_regular_file_without_nlink L =
    (let line = ''-rw-rw-r-- root     sdcard_rw   763362 2012-06-22 02:16 file.html''
     in case parse_ls_line L line of
       Done (Some m) \<Rightarrow> (m_mode m AND S_IFMT = S_IFREG
     \<and> m_nlink m = 1
     \<and> m_size m = 763362
     \<and> m_rdev m = 0
     \<and> m_raw_line m = line)
     | _ \<Rightarrow> False)"

definition test_parse_regular_file_with_nlink :: "libc \<Rightarrow> bool" where
  "test_parse_regular_file_with_nlink L =
    (let line = ''-rw-r--r--   1 root   root      5905 1970-01-01 01:00 ueventd.rc''
     in case parse_ls_line L line of
       Done (Some m) \<Rightarrow> (m_mode m AND S_IFMT = S_IFREG
     \<and> m_nlink m = 1
     \<and> m_size m = 5905)
     | _ \<Rightarrow> False)"

definition test_parse_directory :: "libc \<Rightarrow> bool" where
  "test_parse_directory L =
    (let line = ''drwxr-xr-x root     root              2012-06-22 02:16 somedir''
     in case parse_ls_line L line of
       Done (Some m) \<Rightarrow> (m_mode m AND S_IFMT = S_IFDIR
     \<and> m_size m = 0)
     | _ \<Rightarrow> False)"

definition test_parse_directory_with_nlink :: "libc \<Rightarrow> bool" where
  "test_parse_directory_with_nlink L =
    (let line = ''drwxr-xr-x   2 root   root      4096 1970-01-01 01:00 dev'' in case parse_ls_line L line of
       Done (Some m) \<Rightarrow> (m_mode m AND S_IFMT = S_IFDIR
     \<and> m_nlink m = 2
     \<and> m_size m = 0)
     | _ \<Rightarrow> False)"

definition test_parse_symlink :: "libc \<Rightarrow> bool" where
  "test_parse_symlink L =
    (let line = ''lrwxrwxrwx root     root              2012-06-22 02:16 link -> /target''
     in case parse_ls_line L line of
       Done (Some m) \<Rightarrow> (m_mode m AND S_IFMT = S_IFLNK
     \<and> m_size m = 0)
     | _ \<Rightarrow> False)"

definition test_parse_char_device :: "libc \<Rightarrow> bool" where
  "test_parse_char_device L =
    (let line = ''crw-rw-rw- root     root     10, 123 1970-01-01 01:00 urandom''
     in case parse_ls_line L line of
       Done (Some m) \<Rightarrow> (m_mode m AND S_IFMT = S_IFCHR
     \<and> m_rdev m = 10 * 256 + 123
     \<and> m_size m = 0)
     | _ \<Rightarrow> False)"

definition test_parse_invalid_line :: "libc \<Rightarrow> bool" where
  "test_parse_invalid_line L =
    (parse_ls_line L ''/data: Permission denied'' = Done None)"

definition test_parse_empty_line :: "libc \<Rightarrow> bool" where
  "test_parse_empty_line L =
    (parse_ls_line L [] = Done None)"

definition test_extract_filename_regular :: bool where
  "test_extract_filename_regular =
    (extract_filename ''-rw-rw-r-- root     sdcard_rw   763362 2012-06-22 02:16 file.html''
      = Done (Some ''file.html''))"

definition test_extract_filename_with_spaces :: bool where
  "test_extract_filename_with_spaces =
    (extract_filename ''-rw-rw-r-- root     sdcard_rw   763362 2012-06-22 02:16 my file name.txt''
      = Done (Some ''my file name.txt''))"

definition test_extract_filename_symlink :: bool where
  "test_extract_filename_symlink =
    (extract_filename ''lrwxrwxrwx root     root              2012-06-22 02:16 link -> /target''
      = Done (Some ''link''))"

definition test_extract_filename_no_colon :: bool where
  "test_extract_filename_no_colon =
    (extract_filename ''no time field here'' = Done None)"

definition test_symlink_absolute_to_relative :: bool where
  "test_symlink_absolute_to_relative =
    (parse_symlink_target ''lrwxrwxrwx root root 2012-06-22 02:16 link -> /system/bin/sh'' 2
      = Done (Some ''../system/bin/sh''))"

definition test_symlink_absolute_deep_path :: bool where
  "test_symlink_absolute_deep_path =
    (parse_symlink_target ''lrwxrwxrwx root root 2012-06-22 02:16 link -> /data/local/tmp'' 4
      = Done (Some ''../../../data/local/tmp''))"

definition test_symlink_relative_target :: bool where
  "test_symlink_relative_target =
    (parse_symlink_target ''lrwxrwxrwx root root 2012-06-22 02:16 link -> ../other/file'' 2
      = Done (Some ''../other/file''))"

definition test_symlink_no_arrow :: bool where
  "test_symlink_no_arrow =
    (parse_symlink_target ''-rw-r--r-- root root 5905 1970-01-01 01:00 regular_file'' 2 = Done None)"

definition test_symlink_absolute_root_path :: bool where
  "test_symlink_absolute_root_path =
    (parse_symlink_target ''lrwxrwxrwx root root 2012-06-22 02:16 link -> /init'' 1 = Done (Some ''init''))"

definition parse_tests :: "libc \<Rightarrow> bool list" where
    "parse_tests L = [test_mode_regular_file_rw, test_mode_directory, test_mode_symlink, test_mode_socket,
     test_mode_block_device, test_mode_char_device, test_mode_fifo, test_mode_setuid_with_exec,
     test_mode_setuid_without_exec, test_mode_setgid_with_exec, test_mode_setgid_without_exec,
     test_mode_sticky_with_exec, test_mode_sticky_without_exec, test_valid_ls_regular_file,
     test_valid_ls_directory, test_invalid_ls_error_message, test_invalid_ls_opendir_error,
     test_invalid_ls_empty, test_invalid_ls_short, test_parse_regular_file_without_nlink L,
     test_parse_regular_file_with_nlink L, test_parse_directory L, test_parse_directory_with_nlink L,
     test_parse_symlink L, test_parse_char_device L, test_parse_invalid_line L, test_parse_empty_line L,
     test_extract_filename_regular, test_extract_filename_with_spaces, test_extract_filename_symlink,
     test_extract_filename_no_colon, test_symlink_absolute_to_relative, test_symlink_absolute_deep_path,
     test_symlink_relative_target, test_symlink_no_arrow, test_symlink_absolute_root_path]"


lemmas parse_test_defs = test_mode_regular_file_rw_def test_mode_directory_def test_mode_symlink_def
  test_mode_socket_def test_mode_block_device_def test_mode_char_device_def test_mode_fifo_def
  test_mode_setuid_with_exec_def test_mode_setuid_without_exec_def test_mode_setgid_with_exec_def
  test_mode_setgid_without_exec_def test_mode_sticky_with_exec_def test_mode_sticky_without_exec_def
  test_valid_ls_regular_file_def test_valid_ls_directory_def test_invalid_ls_error_message_def
  test_invalid_ls_opendir_error_def test_invalid_ls_empty_def test_invalid_ls_short_def
  test_parse_regular_file_without_nlink_def test_parse_regular_file_with_nlink_def test_parse_directory_def
  test_parse_directory_with_nlink_def test_parse_symlink_def test_parse_char_device_def
  test_parse_invalid_line_def test_parse_empty_line_def test_extract_filename_regular_def
  test_extract_filename_with_spaces_def test_extract_filename_symlink_def test_extract_filename_no_colon_def
  test_symlink_absolute_to_relative_def test_symlink_absolute_deep_path_def test_symlink_relative_target_def
  test_symlink_no_arrow_def test_symlink_absolute_root_path_def

lemma split_ws_graphic:
  "33 \<le> byte c \<Longrightarrow> byte c < 127 \<Longrightarrow> split_ws cur (c # cs) = split_ws (cur @ [c]) cs"
proof -
  assume a: "33 \<le> byte c" "byte c < 127"
  have "ws_width (c # cs) = 0"
    using a by (cases cs rule: ws_width.cases) (simp_all add: ascii_ws_def ws2_def ws3_def)
  then show ?thesis by simp
qed

lemma split_ws_blank: "split_ws cur (CHR '' '' # cs) = (if cur = [] then [] else [cur]) @ split_ws [] cs"
proof -
  have "ws_width (CHR '' '' # cs) = 1"
    by (cases cs rule: ws_width.cases) (simp_all add: ascii_ws_def byte_def)
  then show ?thesis by simp
qed

declare split_ws.simps [simp del]

lemmas split_eval = split_ws_graphic split_ws_blank split_ws.simps(1)

lemmas ls_eval = split_whitespace_def split_eval byte_def is_valid_ls_output_def parse_mode_string_def type_bits_def
  flag_bits_def exec_bits_def file_type_defs perm_defs detect_nlink_def parse_u32_def parse_u64_def digit_val_def get_nth_def
  size_rdev_date_def date_fields_def date_tm_def unwrap_or_def trim_end_char_def
  resolve_uid_def resolve_gid_def

text \<open>The local clock reads every date as a time after the epoch, as it does in Greenwich.\<close>

definition clock_ok :: "libc \<Rightarrow> bool" where
  "clock_ok L = (\<forall>d. 0 \<le> mktime L d \<and> mktime L d < 2 ^ 63)"

lemma parse_datetime_clock:
  "clock_ok L \<Longrightarrow> parse_datetime L d t = Done (map_option (\<lambda>f. mktime L f * 1000000000) (date_fields d t))"
proof (cases "date_fields d t")
  case (Some f)
  assume "clock_ok L"
  then have m: "0 \<le> mktime L f" "mktime L f < 2 ^ 63" by (auto simp: clock_ok_def)
  then have "uint (word_of_int (mktime L f) :: u64) = mktime L f" by (simp add: uint_word_of_int)
  then show ?thesis using m Some by (simp add: parse_datetime_def epoch_plus_secs_def)
qed (simp add: parse_datetime_def)

lemma replicate_three: "replicate 3 x = [x, x, x]"
  by (simp add: numeral_3_eq_3)

lemma parse_tests_pass: "clock_ok L \<Longrightarrow> list_all (\<lambda>passes. passes) (parse_tests L)"
  by (simp add: parse_tests_def parse_test_defs parse_ls_line_def ls_eval parse_datetime_clock extract_filename_def
    parse_symlink_target_def slice_from_def slice_to_def is_char_boundary_def is_cont_def repeat_str_def replicate_three trim_start_char_def
    S_IRWXU_def S_IRWXG_def S_IRWXO_def)

subsection \<open>The random tests\<close>

text \<open>A text \<open>proptest\<close> generates is any text, so the property is proved for all of them.\<close>

definition test_escape_path_all_quotes_properly_escaped :: "string \<Rightarrow> bool" where
  "test_escape_path_all_quotes_properly_escaped s =
     (squote \<notin> set (replace_sub [squote, bslash, squote, squote] [] (shell_escape_path s)))"

definition test_escape_path_round_trips_through_single_quotes :: "string \<Rightarrow> bool" where
  "test_escape_path_round_trips_through_single_quotes s =
     (shell_unquote ([squote] @ shell_escape_path s @ [squote]) = Some s)"

definition arb_mode_string :: "string \<Rightarrow> bool" where
  "arb_mode_string s =
     (length s = 10 \<and> s ! 0 \<in> set ''sl-dbcp'' \<and> s ! 1 \<in> set ''-r'' \<and> s ! 2 \<in> set ''-w'' \<and> s ! 3 \<in> set ''-xsS''
      \<and> s ! 4 \<in> set ''-r'' \<and> s ! 5 \<in> set ''-w'' \<and> s ! 6 \<in> set ''-xsS''
      \<and> s ! 7 \<in> set ''-r'' \<and> s ! 8 \<in> set ''-w'' \<and> s ! 9 \<in> set ''-xtT'')"

definition test_mode_string_always_has_file_type :: "string \<Rightarrow> bool" where
  "test_mode_string_always_has_file_type s =
     (let file_type = parse_mode_string s AND S_IFMT;
          valid_types = [S_IFSOCK, S_IFLNK, S_IFREG, S_IFDIR, S_IFBLK, S_IFCHR, S_IFIFO]
      in file_type \<in> set valid_types)"

lemma strip_escapes:
  "replace_sub [squote, bslash, squote, squote] [] (shell_escape_path s) = filter (\<lambda>c. c \<noteq> squote) s"
  by (induction s) (simp_all add: shell_escape_path_def)

lemma flag_bits_type: "bits AND 0xF000 = 0 \<Longrightarrow> flag_bits want bits c AND 0xF000 = 0"
  by (simp add: flag_bits_def)

lemma exec_bits_type: "sp AND 0xF000 = 0 \<Longrightarrow> x AND 0xF000 = 0 \<Longrightarrow> exec_bits lo up sp x c AND 0xF000 = 0"
  by (simp add: exec_bits_def bit.conj_disj_distrib2)

lemma mode_string_type:
  "length s = 10 \<Longrightarrow> parse_mode_string s AND S_IFMT = type_bits (s ! 0) AND S_IFMT"
  by (simp add: parse_mode_string_def bit.conj_disj_distrib2 flag_bits_type exec_bits_type file_type_defs perm_defs)

lemma random_tests_pass:
  "test_escape_path_all_quotes_properly_escaped s"
  "test_escape_path_round_trips_through_single_quotes s"
  "arb_mode_string m \<Longrightarrow> test_mode_string_always_has_file_type m"
proof -
  show "test_escape_path_all_quotes_properly_escaped s"
    by (simp add: test_escape_path_all_quotes_properly_escaped_def strip_escapes)
  show "test_escape_path_round_trips_through_single_quotes s"
    using unquote_escaped_path[of "[]" s "[squote]"]
    by (simp add: test_escape_path_round_trips_through_single_quotes_def shell_unquote_def)
  assume "arb_mode_string m"
  then have l: "length m = 10" and t: "m ! 0 \<in> set ''sl-dbcp''" by (simp_all add: arb_mode_string_def)
  show "test_mode_string_always_has_file_type m"
    using t unfolding test_mode_string_always_has_file_type_def Let_def mode_string_type[OF l]
    by (auto simp: type_bits_def file_type_defs)
qed

subsection \<open>The metadata cache (\<open>src/src/cache.rs\<close>)\<close>

text \<open>The tests run at the instant \<open>t\<close>; times are nanoseconds.\<close>

definition dummy_meta :: file_meta where
  "dummy_meta = \<lparr>m_mode = 0x81A4, m_nlink = 1, m_uid = 0, m_gid = 0, m_size = 42, m_rdev = 0, m_mtime = 0,
     m_raw_line = []\<rparr>"

definition cached :: "string \<Rightarrow> nat \<Rightarrow> metadata_cache \<Rightarrow> file_meta option option" where
  "cached path t c = fst (cache_get path t c)"

definition test_get_returns_none_for_missing :: "nat \<Rightarrow> bool" where
  "test_get_returns_none_for_missing t = (cached ''/nonexistent'' t (cache_new 30000000000) = None)"

definition test_insert_then_get :: "nat \<Rightarrow> bool" where
  "test_insert_then_get t =
     (let cache = cache_insert ''/sdcard/file.txt'' (Some dummy_meta) t (cache_new 30000000000)
      in case cached ''/sdcard/file.txt'' t cache of
        Some (Some got) \<Rightarrow> m_size got = m_size dummy_meta \<and> m_mode got = m_mode dummy_meta
      | _ \<Rightarrow> False)"

definition test_negative_cache_hit :: "nat \<Rightarrow> bool" where
  "test_negative_cache_hit t =
     (let cache = cache_insert ''/sdcard/missing'' None t (cache_new 30000000000)
      in cached ''/sdcard/missing'' t cache = Some None)"

definition test_expired_entry_returns_none :: "nat \<Rightarrow> bool" where
  "test_expired_entry_returns_none t =
     (let cache = cache_insert ''/tmp/ephemeral'' (Some dummy_meta) t (cache_new 50000000)
      in cached ''/tmp/ephemeral'' (t + 100000000) cache = None)"

definition test_invalidate_removes_entry :: "nat \<Rightarrow> bool" where
  "test_invalidate_removes_entry t =
     (let cache = cache_insert ''/sdcard/remove_me'' (Some dummy_meta) t (cache_new 30000000000);
          cache = cache_invalidate ''/sdcard/remove_me'' cache
      in cached ''/sdcard/remove_me'' t cache = None)"

text \<open>\<open>cache.insert(path, Some(dummy_meta()))\<close> for each path in turn.\<close>

definition filled :: "string list \<Rightarrow> nat \<Rightarrow> metadata_cache" where
  "filled paths t = fold (\<lambda>p. cache_insert p (Some dummy_meta) t) paths (cache_new 30000000000)"

definition test_invalidate_prefix_removes_children :: "nat \<Rightarrow> bool" where
  "test_invalidate_prefix_removes_children t =
     (let cache = filled [''/sdcard'', ''/sdcard/a'', ''/sdcard/b'', ''/other''] t;
          cache = cache_invalidate_prefix ''/sdcard'' cache
      in cached ''/sdcard'' t cache = None \<and> cached ''/sdcard/a'' t cache = None
         \<and> cached ''/sdcard/b'' t cache = None \<and> cached ''/other'' t cache \<noteq> None)"

definition test_invalidate_prefix_keeps_siblings_sharing_the_prefix :: "nat \<Rightarrow> bool" where
  "test_invalidate_prefix_keeps_siblings_sharing_the_prefix t =
     (let cache = filled [''/sdcard/a'', ''/sdcardfoo'', ''/sdcard2/b''] t;
          cache = cache_invalidate_prefix ''/sdcard'' cache
      in cached ''/sdcard/a'' t cache = None \<and> cached ''/sdcardfoo'' t cache \<noteq> None
         \<and> cached ''/sdcard2/b'' t cache \<noteq> None)"

definition test_invalidate_prefix_root_clears_everything :: "nat \<Rightarrow> bool" where
  "test_invalidate_prefix_root_clears_everything t =
     (let cache = filled [''/'', ''/sdcard/a''] t;
          cache = cache_invalidate_prefix ''/'' cache
      in cached ''/'' t cache = None \<and> cached ''/sdcard/a'' t cache = None)"

definition cache_tests :: "nat \<Rightarrow> bool list" where
  "cache_tests t = [test_get_returns_none_for_missing t, test_insert_then_get t, test_negative_cache_hit t,
     test_expired_entry_returns_none t, test_invalidate_removes_entry t, test_invalidate_prefix_removes_children t,
     test_invalidate_prefix_keeps_siblings_sharing_the_prefix t, test_invalidate_prefix_root_clears_everything t]"

lemmas cache_test_defs = test_get_returns_none_for_missing_def test_insert_then_get_def test_negative_cache_hit_def
  test_expired_entry_returns_none_def test_invalidate_removes_entry_def test_invalidate_prefix_removes_children_def
  test_invalidate_prefix_keeps_siblings_sharing_the_prefix_def test_invalidate_prefix_root_clears_everything_def

lemma cache_tests_pass: "list_all (\<lambda>passes. passes) (cache_tests t)"
  by (simp add: cache_tests_def cache_test_defs cached_def filled_def cache_new_def cache_get_def cache_insert_def
      cache_invalidate_def cache_invalidate_prefix_def prefix_dir_def suffix_def)

subsection \<open>The mount options (\<open>src/src/mount_opts.rs\<close>)\<close>

text \<open>What the tests need of the parse of seconds.\<close>

definition test_secs :: "string \<Rightarrow> nat option" where
  "test_secs s = (if s = ''2.5'' then Some 2500000000 else None)"

definition test_split :: "string list \<Rightarrow> fs_options \<times> string list" where
  "test_split args = (case split_options test_secs args of Ok r \<Rightarrow> r | _ \<Rightarrow> (default_options, []))"

definition test_unknown_options_pass_through :: bool where
  "test_unknown_options_pass_through =
     (let (fs, mnt) = test_split [''allow_other'', ''max_read=65536'', ''ro'']
      in fs = default_options \<and> mnt = [''allow_other'', ''max_read=65536'', ''ro''])"

definition test_known_options_are_consumed :: bool where
  "test_known_options_are_consumed =
     (let (fs, mnt) = test_split [''allow_other'', ''direct_io'', ''uid=1000'', ''attr_timeout=2.5'']
      in mnt = [''allow_other''] \<and> direct_io fs \<and> opt_uid fs = Some 1000 \<and> attr_timeout fs = 2500000000)"

definition test_umask_is_octal :: bool where
  "test_umask_is_octal =
     (let (fs, _) = test_split [''umask=022''];
          (md, _, _) = apply_ownership fs (S_IFREG OR 0x180) 0 0
      in opt_umask fs = Some 0x12 \<and> md = S_IFREG OR 0x1ED)"

definition test_ownership_defaults_to_device_values :: bool where
  "test_ownership_defaults_to_device_values =
     (let (fs, _) = test_split [];
          (md, uid, gid) = apply_ownership fs (S_IFREG OR 0x180) 2000 3000
      in uid = 2000 \<and> gid = 3000 \<and> md = S_IFREG OR 0x180)"

definition test_bad_values_are_rejected :: bool where
  "test_bad_values_are_rejected =
     list_all (\<lambda>bad. case split_options test_secs [bad] of Err _ \<Rightarrow> True | _ \<Rightarrow> False)
       [''uid=root'', ''umask=999'', ''attr_timeout=soon'', ''attr_timeout=-1'']"

definition test_flags_with_values_are_not_flags :: bool where
  "test_flags_with_values_are_not_flags =
     (let (fs, mnt) = test_split [''debug=1''] in \<not> opt_debug fs \<and> mnt = [''debug=1''])"

definition mount_tests :: "bool list" where
  "mount_tests = [test_unknown_options_pass_through, test_known_options_are_consumed, test_umask_is_octal,
     test_ownership_defaults_to_device_values, test_bad_values_are_rejected, test_flags_with_values_are_not_flags]"

lemmas mount_test_defs = test_unknown_options_pass_through_def test_known_options_are_consumed_def
  test_umask_is_octal_def test_ownership_defaults_to_device_values_def test_bad_values_are_rejected_def
  test_flags_with_values_are_not_flags_def

lemma mount_tests_pass: "list_all (\<lambda>passes. passes) mount_tests"
  by (simp add: mount_tests_def mount_test_defs test_split_def test_secs_def split_options_def consume_def Let_def
      set_field_def seconds_def number_def split_once_def parse_u32_def digit_val_def byte_def default_options_def
      apply_ownership_def S_IFREG_def S_IFMT_def)

end
