(* ===== verification/ScenarioTests.thy ===== *)
theory ScenarioTests
  imports UnitTests
begin

unbundle bit_operations_syntax

text \<open>
  The unit tests of the device operations and of the file system, on the test double, in the way
  of the theory UnitTests; and the property that all tests pass.
\<close>

subsection \<open>The device operations (\<open>src/src/ops.rs\<close>)\<close>

definition mock_commands :: "mock_adb world \<Rightarrow> string list" where
  "mock_commands w = mk_commands (w_dev w)"

definition mock_pushes :: "mock_adb world \<Rightarrow> (string \<times> string) list" where
  "mock_pushes w = mk_pushes (w_dev w)"

definition test_ops :: "libc \<Rightarrow> mock_adb dev_env" where
  "test_ops L = device_ops_new mock_device L"

definition test_get_metadata_parses_ls_output :: "libc \<Rightarrow> bool" where
  "test_get_metadata_parses_ls_output L =
     (let w = mock_world [mock_out [''-rw-r--r-- root root 1234 2024-01-15 10:30 test.txt'']]
      in case fst (get_metadata (test_ops L) ''/sdcard/test.txt'' w) of
        Ok m \<Rightarrow> m_size m = 1234 \<and> m_mode m AND S_IFREG = S_IFREG
      | _ \<Rightarrow> False)"

definition test_get_metadata_permission_denied :: "libc \<Rightarrow> bool" where
  "test_get_metadata_permission_denied L =
     (let w = mock_world [mock_out [''/sbin/healthd: Permission denied'']]
      in case fst (get_metadata (test_ops L) ''/sbin/healthd'' w) of Err (PermissionDenied _) \<Rightarrow> True | _ \<Rightarrow> False)"

definition test_get_metadata_no_device :: "libc \<Rightarrow> bool" where
  "test_get_metadata_no_device L =
     (let w = mock_world [mock_out []]
      in case fst (get_metadata (test_ops L) ''/any'' w) of Err NoDevice \<Rightarrow> True | _ \<Rightarrow> False)"

definition test_get_metadata_not_found :: "libc \<Rightarrow> bool" where
  "test_get_metadata_not_found L =
     (let w = mock_world [mock_out [''/sdcard/nofile: No such file or directory'']]
      in case fst (get_metadata (test_ops L) ''/sdcard/nofile'' w) of Err (NotFound _) \<Rightarrow> True | _ \<Rightarrow> False)"

definition test_list_dir_parses_entries :: "libc \<Rightarrow> bool" where
  "test_list_dir_parses_entries L =
     (let w = mock_world [mock_out [''-rw-r--r-- root root 100 2024-01-15 10:30 a.txt'',
            ''drwxr-xr-x root root      2024-01-15 10:30 subdir'']]
      in case fst (list_dir (test_ops L) ''/sdcard'' w) of
        Ok es \<Rightarrow> length es = 2 \<and> fst (es ! 0) = ''a.txt'' \<and> fst (es ! 1) = ''subdir''
          \<and> snd (es ! 0) \<noteq> None \<and> snd (es ! 1) \<noteq> None
      | _ \<Rightarrow> False)"

definition test_list_dir_handles_permission_errors :: "libc \<Rightarrow> bool" where
  "test_list_dir_handles_permission_errors L =
     (let w = mock_world [mock_out [''-rw-r--r-- root root 100 2024-01-15 10:30 ok.txt'',
            lit ''lstat ^//efs^ failed: Permission denied'']]
      in case fst (list_dir (test_ops L) ''/'' w) of
        Ok es \<Rightarrow> length es = 2 \<and> fst (es ! 0) = ''ok.txt'' \<and> fst (es ! 1) = ''efs'' \<and> snd (es ! 1) = None
      | _ \<Rightarrow> False)"

text \<open>The message of the first try has an at sign, which \<open>lit\<close> reads as a backtick.\<close>

definition test_touch_gnu_fallback :: "libc \<Rightarrow> bool" where
  "test_touch_gnu_fallback L =
     (let w = mock_world [mock_out [''touch: bad '' @ [squote] @ ''@1700000000.000000000'' @ [squote]], mock_out []]
      in case dev_touch (test_ops L) ''/sdcard/test'' None (Some 1700000000000000000) (True, w) of
        (r, gnu, w) \<Rightarrow> r = Ok () \<and> \<not> gnu)"

definition errno_of :: "(device_error, unit) res \<Rightarrow> int option" where
  "errno_of r = (case r of Err e \<Rightarrow> Some (to_errno e) | _ \<Rightarrow> None)"

definition test_silent_mutation_succeeds :: "libc \<Rightarrow> bool" where
  "test_silent_mutation_succeeds L =
     (let (r1, w) = dev_mkdir (test_ops L) ''/sdcard/new'' (mock_world []);
          (r2, w) = dev_rm (test_ops L) ''/sdcard/old'' w;
          (r3, w) = dev_mv (test_ops L) ''/sdcard/a'' ''/sdcard/b'' w
      in r1 = Ok () \<and> r2 = Ok () \<and> r3 = Ok ())"

definition test_mutation_maps_device_message_to_errno :: "libc \<Rightarrow> bool" where
  "test_mutation_maps_device_message_to_errno L =
     list_all (\<lambda>(message, errno).
         errno_of (fst (dev_rmdir (test_ops L) ''/sdcard/d'' (mock_world [mock_failed 1 [message]]))) = Some errno)
       [(lit ''rmdir: ^/sdcard/d^ failed: Directory not empty'', ENOTEMPTY),
        (lit ''mkdir: ^/sdcard/d^: File exists'', EEXIST),
        (''rm: /system/x: Permission denied'', EACCES),
        (lit ''mv: ^/a^ -> ^/b^: Cross-device link'', EXDEV),
        (''rm: /sdcard/gone: No such file or directory'', ENOENT),
        (lit ''mkdir: ^/system/x^: Read-only file system'', EROFS),
        (''rm: /sdcard/d: Is a directory'', EISDIR),
        (''something the table does not know'', EIO)]"

definition test_mutation_fails_on_legacy_device_that_exits_zero :: "libc \<Rightarrow> bool" where
  "test_mutation_fails_on_legacy_device_that_exits_zero L =
     (let w = mock_world [mock_out [''mkdir failed for /sdcard/d, File exists'']]
      in errno_of (fst (dev_mkdir (test_ops L) ''/sdcard/d'' w)) = Some EEXIST)"

definition test_mutation_fails_on_exit_code_without_message :: "libc \<Rightarrow> bool" where
  "test_mutation_fails_on_exit_code_without_message L =
     (let w = mock_world [mock_failed 1 []]
      in errno_of (fst (dev_rm (test_ops L) ''/sdcard/x'' w)) = Some EIO)"

definition test_touch_reports_failure :: "libc \<Rightarrow> bool" where
  "test_touch_reports_failure L =
     (let w = mock_world [mock_failed 1 [lit ''touch: ^/system/x^: Read-only file system'']]
      in errno_of (fst (dev_touch (test_ops L) ''/system/x'' None (Some 1700000000000000000) (True, w))) = Some EROFS)"

definition test_rescan_escapes_the_path :: "libc \<Rightarrow> bool" where
  "test_rescan_escapes_the_path L =
     (let (r, w) = dev_rm (with_rescan True (test_ops L)) (lit ''/sdcard/^; reboot; ^.mp3'') (mock_world [])
      in r = Ok () \<and> mock_commands w \<noteq> [] \<and> contains_sub (last (mock_commands w)) (lit ''^$^^; reboot; ^$^^''))"

definition test_resolve_symlink_works :: bool where
  "test_resolve_symlink_works =
     (resolve_symlink ''/vendor/lib/link'' ''lrwxrwxrwx root root 2024-01-01 12:00 link -> /system/lib/libc.so''
        = Ok ''../../system/lib/libc.so'')"

definition ops_tests :: "libc \<Rightarrow> bool list" where
  "ops_tests L = [test_get_metadata_parses_ls_output L, test_get_metadata_permission_denied L,
     test_get_metadata_no_device L, test_get_metadata_not_found L, test_list_dir_parses_entries L,
     test_list_dir_handles_permission_errors L, test_touch_gnu_fallback L, test_silent_mutation_succeeds L,
     test_mutation_maps_device_message_to_errno L, test_mutation_fails_on_legacy_device_that_exits_zero L,
     test_mutation_fails_on_exit_code_without_message L, test_touch_reports_failure L,
     test_rescan_escapes_the_path L, test_resolve_symlink_works]"

lemmas ops_eval = test_ops_def device_ops_new_def with_rescan_def mock_world_def mock_defs lit_def

lemma mock_next_eval:
  "adb_shell_with_stderr (d_adb (test_ops L)) cmd w = mock_next cmd w"
  "adb_shell (d_adb (test_ops L)) cmd w = mock_shell cmd w"
  "d_rescan (test_ops L) = False" "d_libc (test_ops L) = L"
  by (simp_all add: test_ops_def device_ops_new_def mock_device_def)

lemma mock_world_next:
  "mock_next cmd (mock_world (r # rs)) = (r, (mock_world rs)\<lparr>w_dev := (mock_new rs)\<lparr>mk_commands := [cmd]\<rparr>\<rparr>)"
  "mock_next cmd (mock_world []) = (mock_out [], (mock_world [])\<lparr>w_dev := (mock_new [])\<lparr>mk_commands := [cmd]\<rparr>\<rparr>)"
  by (simp_all add: mock_next_def mock_world_def mock_new_def)

lemmas query_eval = mock_next_eval mock_world_next mock_shell_def mock_out_def mock_failed_def run_shell_def
  run_shell_with_stderr_def get_metadata_def list_dir_def metadata_of_output_def PERMISSION_ERR_SUFFIX_def suffix_def

lemma query_tests_pass:
  assumes "clock_ok L"
  shows "test_get_metadata_parses_ls_output L" "test_get_metadata_permission_denied L" "test_get_metadata_no_device L"
    "test_get_metadata_not_found L"
  using assms by (simp_all add: test_get_metadata_parses_ls_output_def test_get_metadata_permission_denied_def
      test_get_metadata_no_device_def test_get_metadata_not_found_def query_eval parse_ls_line_def ls_eval parse_datetime_clock)

lemma list_tests_pass:
  assumes "clock_ok L"
  shows "test_list_dir_parses_entries L" "test_list_dir_handles_permission_errors L"
  using assms by (simp_all add: test_list_dir_parses_entries_def test_list_dir_handles_permission_errors_def lit_def
      query_eval parse_ls_line_def ls_eval parse_datetime_clock list_dir_line_def extract_filename_def
      slice_from_def slice_to_def slice_range_def is_char_boundary_def is_cont_def extract_name_from_perm_error_def)

lemmas mutation_eval = mock_next_eval mock_world_next mock_out_def mock_failed_def run_shell_with_stderr_def run_mutation_def
  mutation_outcome_def first_message_def dev_mkdir_def dev_rm_def dev_mv_def dev_rmdir_def errno_of_def
  trim_id ascii_ws_def ws2_def ws3_def byte_def lit_def

lemma mutation_tests_pass:
  "test_mutation_maps_device_message_to_errno L"
  "test_mutation_fails_on_legacy_device_that_exits_zero L" "test_mutation_fails_on_exit_code_without_message L"
  by (simp_all add: test_silent_mutation_succeeds_def test_mutation_maps_device_message_to_errno_def
      test_mutation_fails_on_legacy_device_that_exits_zero_def test_mutation_fails_on_exit_code_without_message_def
      mutation_eval errno_for_message_def errno_table_def contains_sub_def to_ascii_lowercase_def ascii_lower_def char_of_def bit_0 errno_defs)

lemma mock_idle:
  "mk_responses (w_dev w) = [] \<Longrightarrow>
     mock_next cmd w = (mock_out [], w\<lparr>w_dev := (w_dev w)\<lparr>mk_commands := mk_commands (w_dev w) @ [cmd]\<rparr>\<rparr>)"
  by (simp add: mock_next_def Let_def)

lemma run_mutation_idle:
  "mk_responses (w_dev w) = [] \<Longrightarrow> run_mutation (test_ops L) cmd w
     = (Ok (), w\<lparr>w_dev := (w_dev w)\<lparr>mk_commands := mk_commands (w_dev w) @ [cmd]\<rparr>\<rparr>)"
  by (simp add: run_mutation_def run_shell_with_stderr_def mock_next_eval mock_idle mock_out_def mutation_outcome_def
      first_message_def)

lemma silent_tests_pass: "test_silent_mutation_succeeds L"
  by (simp add: test_silent_mutation_succeeds_def dev_mkdir_def dev_rm_def dev_mv_def run_mutation_idle
      mock_next_eval mock_world_def mock_new_def)

lemma touch_parts_modified:
  "touch_parts gnu path None (Some t) = [''touch -m -d '' @ format_touch_time t gnu @ '' '' @ single_quoted path]"
  by (simp add: touch_parts_def)

lemma touch_tests_pass: "test_touch_gnu_fallback L" "test_touch_reports_failure L"
proof -
  have "trim (''touch: bad '' @ [squote] @ ''@1700000000.000000000'' @ [squote])
      = ''touch: bad '' @ [squote] @ ''@1700000000.000000000'' @ [squote]"
    by (rule trim_id) (simp_all add: ascii_ws_def ws2_def ws3_def byte_def)
  then show "test_touch_gnu_fallback L"
    by (simp add: test_touch_gnu_fallback_def dev_touch.simps touch_parts_modified mock_next_eval
        run_shell_with_stderr_def mock_next_def mock_out_def first_message_def is_date_err_def TOUCH_TOYBOX_ERR_PREFIX_def
        mock_world_def mock_new_def)
  have "trim (lit ''touch: ^/system/x^: Read-only file system'') = lit ''touch: ^/system/x^: Read-only file system''"
    by (rule trim_id) (simp_all add: ascii_ws_def ws2_def ws3_def byte_def lit_def)
  then show "test_touch_reports_failure L"
    by (simp add: test_touch_reports_failure_def dev_touch.simps touch_parts_modified mock_next_eval mock_world_next
        run_shell_with_stderr_def mock_failed_def first_message_def is_date_err_def TOUCH_TOYBOX_ERR_PREFIX_def
        TOUCH_BUSYBOX_ERR_PREFIX_def lit_def errno_of_def errno_for_message_def errno_table_def contains_sub_def
        to_ascii_lowercase_def ascii_lower_def byte_def char_of_def bit_0 errno_defs)
qed

lemma rescan_tests_pass: "test_rescan_escapes_the_path L"
  by (simp add: test_rescan_escapes_the_path_def with_rescan_def test_ops_def device_ops_new_def dev_rm_def run_mutation_def
      run_shell_with_stderr_def mock_device_def mock_next_def mock_world_def mock_new_def mock_out_def mutation_outcome_def
      first_message_def rescan_file_def run_shell_def mock_shell_def mock_commands_def rescan_file_cmd_def lit_def
      shell_escape_path_def contains_sub_def single_quoted_def)

lemma symlink_tests_pass: "test_resolve_symlink_works"
  by (simp add: test_resolve_symlink_works_def resolve_symlink_def parse_symlink_target_def slice_from_def
      is_char_boundary_def is_cont_def byte_def repeat_str_def numeral_2_eq_2 trim_start_char_def)

lemma ops_tests_pass: "clock_ok L \<Longrightarrow> list_all (\<lambda>passes. passes) (ops_tests L)"
  by (simp add: ops_tests_def query_tests_pass list_tests_pass silent_tests_pass mutation_tests_pass touch_tests_pass
      rescan_tests_pass symlink_tests_pass)

subsection \<open>The file system (\<open>src/src/fs.rs\<close>)\<close>

text \<open>The file system on a double; \<open>paths\<close> is the order in which the path map is read.\<close>

definition test_fs :: "mock_adb \<Rightarrow> mock_adb adb_fs" where
  "test_fs adb = adb_fs_new 30000000000 \<lparr>w_dev = adb,
     w_host = \<lparr>h_names = Map.empty, h_files = (\<lambda>_. []), h_next = 0, h_faults = []\<rparr>\<rparr>"

definition test_rekey :: "mock_adb fs_env \<Rightarrow> string \<Rightarrow> string \<Rightarrow> mock_adb adb_fs \<Rightarrow> mock_adb adb_fs" where
  "test_rekey E from to s = s\<lparr>inodes := rekey_paths (e_iter E (path_to_ino (inodes s))) from to (inodes s)\<rparr>"

definition local_exists :: "string \<Rightarrow> mock_adb adb_fs \<Rightarrow> bool" where
  "local_exists p s = (h_names (w_host (fs_world s)) p \<noteq> None)"

definition test_concurrent_opens_share_one_local_copy :: bool where
  "test_concurrent_opens_share_one_local_copy =
     (let E = demo_env [];
          fs = test_fs (mock_with_content ''device contents'' mock_silent);
          (ino, fs) = assign_ino ''/sdcard/a.txt'' fs;
          (r1, fs) = acquire_copy E ino ''/sdcard/a.txt'' PullInit fs;
          (r2, fs) = acquire_copy E ino ''/sdcard/a.txt'' PullInit fs
      in case (r1, r2) of
        (Ok first, Ok second) \<Rightarrow>
          first = second
          \<and> host_contents (w_host (fs_world fs)) (lc_path (copy_at fs first)) = Some ''device contents''
          \<and> (let (r3, fs) = release_copy ino first fs in r3 = Ok () \<and> local_exists (lc_path (copy_at fs first)) fs
             \<and> (let (r4, fs) = release_copy ino second fs
                in r4 = Ok () \<and> \<not> local_exists (lc_path (copy_at fs second)) fs \<and> open_copies fs = Map.empty))
      | _ \<Rightarrow> False)"

definition file_name :: "string \<Rightarrow> string" where
  "file_name p = rev (takeWhile (\<lambda>c. c \<noteq> slash) (rev p))"

definition test_local_paths_do_not_collide :: bool where
  "test_local_paths_do_not_collide =
     (let E = demo_env [];
          fs = test_fs mock_silent;
          deep = ''/sdcard/'' @ repeat_str ''x/'' 200;
          (i1, fs) = assign_ino ''/a/b'' fs;
          (i2, fs) = assign_ino ''/a_b'' fs;
          (i3, fs) = assign_ino deep fs;
          paths = map (local_path_for E) [i1, i2, i3]
      in distinct paths \<and> list_all (\<lambda>p. length (file_name p) \<le> 255) paths)"

definition test_failed_pull_leaves_no_copy_behind :: bool where
  "test_failed_pull_leaves_no_copy_behind =
     (let E = demo_env [];
          fs = test_fs (mock_with_failing_pull mock_silent);
          (ino, fs) = assign_ino ''/sdcard/a.txt'' fs;
          (r, fs) = acquire_copy E ino ''/sdcard/a.txt'' PullInit fs
      in (case r of Err _ \<Rightarrow> True | _ \<Rightarrow> False) \<and> open_copies fs = Map.empty \<and> \<not> local_exists (local_path_for E ino) fs)"

definition test_rename_remaps_the_inode :: bool where
  "test_rename_remaps_the_inode =
     (let fs = test_fs mock_silent;
          (ino, fs) = assign_ino ''/sdcard/old.txt'' fs;
          fs = test_rekey (demo_env [''/sdcard/old.txt'', ''/'']) ''/sdcard/old.txt'' ''/sdcard/new.txt'' fs;
          (new, fs') = assign_ino ''/sdcard/new.txt'' fs;
          (old, fs'') = assign_ino ''/sdcard/old.txt'' fs'
      in ino_path ino fs = Some ''/sdcard/new.txt'' \<and> new = ino \<and> old \<noteq> ino)"

definition test_dirty_copy_pushes_to_the_renamed_path :: bool where
  "test_dirty_copy_pushes_to_the_renamed_path =
     (let E = demo_env [''/sdcard/old.txt'', ''/''];
          fs = test_fs (mock_with_content ''x'' mock_silent);
          (ino, fs) = assign_ino ''/sdcard/old.txt'' fs;
          (r, fs) = acquire_copy E ino ''/sdcard/old.txt'' PullInit fs
      in case r of
        Ok copy \<Rightarrow>
          (let fs = mark_dirty copy True fs;
               fs = test_rekey E ''/sdcard/old.txt'' ''/sdcard/new.txt'' fs;
               (r, fs) = push_if_dirty E ino copy fs;
               pushes = mock_pushes (fs_world fs)
           in r = Ok () \<and> pushes \<noteq> [] \<and> snd (last pushes) = ''/sdcard/new.txt''
              \<and> fst (last pushes) = lc_path (copy_at fs copy) \<and> \<not> lc_dirty (copy_at fs copy)
              \<and> fst (release_copy ino copy fs) = Ok ())
      | _ \<Rightarrow> False)"

definition test_rename_remaps_descendants_but_not_siblings :: bool where
  "test_rename_remaps_descendants_but_not_siblings =
     (let fs = test_fs mock_silent;
          (child, fs) = assign_ino ''/sdcard/dir/deep/file.txt'' fs;
          (sibling, fs) = assign_ino ''/sdcard/dirtyfile'' fs;
          fs = test_rekey (demo_env [''/sdcard/dirtyfile'', ''/sdcard/dir/deep/file.txt'', ''/'']) ''/sdcard/dir'' ''/sdcard/moved'' fs
      in ino_path child fs = Some ''/sdcard/moved/deep/file.txt'' \<and> ino_path sibling fs = Some ''/sdcard/dirtyfile'')"

definition test_rename_over_existing_drops_the_replaced_inode :: bool where
  "test_rename_over_existing_drops_the_replaced_inode =
     (let fs = test_fs mock_silent;
          (source, fs) = assign_ino ''/sdcard/a.txt'' fs;
          (replaced, fs) = assign_ino ''/sdcard/b.txt'' fs;
          fs = test_rekey (demo_env [''/sdcard/b.txt'', ''/sdcard/a.txt'', ''/'']) ''/sdcard/a.txt'' ''/sdcard/b.txt'' fs
      in ino_path source fs = Some ''/sdcard/b.txt'' \<and> ino_path replaced fs = None)"

definition fs_tests :: "bool list" where
  "fs_tests = [test_concurrent_opens_share_one_local_copy, test_local_paths_do_not_collide,
     test_failed_pull_leaves_no_copy_behind, test_rename_remaps_the_inode, test_dirty_copy_pushes_to_the_renamed_path,
     test_rename_remaps_descendants_but_not_siblings, test_rename_over_existing_drops_the_replaced_inode]"

lemmas table_eval = assign_ino_def get_or_assign_ino_def test_fs_def adb_fs_new_def ino_table_new_def FUSE_ROOT_INO_def Let_def
  ino_path_def get_path_def test_rekey_def rekey_paths_def rekey_one_def rekeyed_def strip_prefix_def at_or_under_def
  List.map_filter_def demo_env_def Let_def

lemma rename_tests_pass:
  "test_rename_remaps_the_inode" "test_rename_remaps_descendants_but_not_siblings"
  "test_rename_over_existing_drops_the_replaced_inode"
  by (simp_all add: test_rename_remaps_the_inode_def test_rename_remaps_descendants_but_not_siblings_def
      test_rename_over_existing_drops_the_replaced_inode_def table_eval)

lemma collide_test_passes: "test_local_paths_do_not_collide"
  by (simp add: test_local_paths_do_not_collide_def assign_ino_def get_or_assign_ino_def test_fs_def adb_fs_new_def
      ino_table_new_def FUSE_ROOT_INO_def Let_def local_path_inj local_path_for_def path_join_def show_nat.simps file_name_def)

lemmas copy_eval = copy_defs fs_step_defs mock_device_def mock_env_def dev_pull_def mock_pull_def on_host_def
  mock_with_content_def mock_with_failing_pull_def mock_silent_def mock_new_def host_write_file_def host_create_def
  next_fault_def host_write_all.simps write_bytes_def resize_def host_remove_def host_contents_def local_exists_def

lemma copy_tests_pass:
  "test_concurrent_opens_share_one_local_copy" "test_failed_pull_leaves_no_copy_behind"
  by (simp_all add: test_concurrent_opens_share_one_local_copy_def test_failed_pull_leaves_no_copy_behind_def
      assign_ino_def get_or_assign_ino_def test_fs_def adb_fs_new_def ino_table_new_def FUSE_ROOT_INO_def Let_def
      copy_eval numeral_2_eq_2)

lemma push_test_passes: "test_dirty_copy_pushes_to_the_renamed_path"
  by (simp add: test_dirty_copy_pushes_to_the_renamed_path_def table_eval copy_eval numeral_2_eq_2 push_if_dirty_def
      push_and_sync_def dev_push_def dev_sync_device_def mock_push_def mock_sync_device_def mock_pushes_def
      invalidate_def upd_cache_def)

lemma fs_tests_pass: "list_all (\<lambda>passes. passes) fs_tests"
  by (simp add: fs_tests_def rename_tests_pass collide_test_passes copy_tests_pass push_test_passes)

subsection \<open>All tests\<close>



end
