(* ===== verification/Coherence.thy ===== *)
theory Coherence
  imports ScenarioTests
begin

text \<open>
  Two properties of all requests (\<open>impl Filesystem for AdbFs\<close> in \<open>src/src/fs.rs\<close>): a request is
  answered with a reply of its own kind, and a change that was done leaves nothing stale in
  the metadata cache.
\<close>

subsection \<open>Replies of the right kind\<close>

text \<open>What FUSE accepts as the answer of a request: an error, or a reply of its kind and within its bounds.\<close>

fun kind_fits :: "request \<Rightarrow> reply \<Rightarrow> bool" where
  "kind_fits (Getattr _) r = (case r of ReplyAttr _ _ \<Rightarrow> True | _ \<Rightarrow> False)"
| "kind_fits (Setattr _ _ _ _) r = (case r of ReplyAttr _ _ \<Rightarrow> True | _ \<Rightarrow> False)"
| "kind_fits (Lookup _ _) r = (case r of ReplyEntry _ _ g \<Rightarrow> g = 0 | _ \<Rightarrow> False)"
| "kind_fits (Mkdir _ _) r = (case r of ReplyEntry _ _ g \<Rightarrow> g = 0 | _ \<Rightarrow> False)"
| "kind_fits (Mknod _ _) r = (case r of ReplyEntry _ _ g \<Rightarrow> g = 0 | _ \<Rightarrow> False)"
| "kind_fits (Create _ _) r = (case r of ReplyCreated _ _ g _ _ \<Rightarrow> g = 0 | _ \<Rightarrow> False)"
| "kind_fits (Open _) r = (case r of ReplyOpened _ _ \<Rightarrow> True | _ \<Rightarrow> False)"
| "kind_fits (Opendir _) r = (case r of ReplyOpened _ _ \<Rightarrow> True | _ \<Rightarrow> False)"
| "kind_fits (Readdir _ _) r = (case r of ReplyDirectory _ \<Rightarrow> True | _ \<Rightarrow> False)"
| "kind_fits (Readlink _) r = (case r of ReplyData _ \<Rightarrow> True | _ \<Rightarrow> False)"
| "kind_fits (Read _ _ sz) r = (case r of ReplyData b \<Rightarrow> length b \<le> unat sz | _ \<Rightarrow> False)"
| "kind_fits (Write _ _ data) r = (case r of ReplyWritten n \<Rightarrow> unat n \<le> length data | _ \<Rightarrow> False)"
| "kind_fits (Releasedir _) r = (r = ReplyOk)"
| "kind_fits (Flush _) r = (r = ReplyOk)"
| "kind_fits (Release _) r = (r = ReplyOk)"
| "kind_fits (Access _) r = (r = ReplyOk)"
| "kind_fits (Unlink _ _) r = (r = ReplyOk)"
| "kind_fits (Rmdir _ _) r = (r = ReplyOk)"
| "kind_fits (Rename _ _ _ _) r = (r = ReplyOk)"

definition reply_fits :: "request \<Rightarrow> reply \<Rightarrow> bool" where
  "reply_fits req r = (case r of ReplyError _ \<Rightarrow> True | NoReply \<Rightarrow> True | _ \<Rightarrow> kind_fits req r)"

lemma reply_fits_simps [simp]:
  "reply_fits req (ReplyError e)" "reply_fits req NoReply"
  "reply_fits req (ReplyAttr t a) = kind_fits req (ReplyAttr t a)"
  "reply_fits req (ReplyEntry t a g) = kind_fits req (ReplyEntry t a g)"
  "reply_fits req (ReplyOpened fh fl) = kind_fits req (ReplyOpened fh fl)"
  "reply_fits req (ReplyDirectory ds) = kind_fits req (ReplyDirectory ds)"
  "reply_fits req ReplyOk = kind_fits req ReplyOk"
  "reply_fits req (ReplyData b) = kind_fits req (ReplyData b)"
  "reply_fits req (ReplyWritten n) = kind_fits req (ReplyWritten n)"
  "reply_fits req (ReplyCreated t a g fh fl) = kind_fits req (ReplyCreated t a g fh fl)"
  by (simp_all add: reply_fits_def)

lemma answer_fits:
  "post r (\<lambda>x _. reply_fits req x) (\<lambda>_ _. True) \<Longrightarrow> reply_fits req (fst (answer r))"
  by (cases r; cases "fst r") auto

lemma post_path_any: "(\<And>p. post (k p s) Q (\<lambda>_ _. True)) \<Longrightarrow> post (with_path i k s) Q (\<lambda>_ _. True)"
  by (simp add: with_path_def split: option.split)

lemma post_rest: "(\<And>a s. post (k a s) Q (\<lambda>_ _. True)) \<Longrightarrow> post (try_res r k) Q (\<lambda>_ _. True)"
  by (cases r; cases "fst r") auto

lemma reply_new_entry_fits:
  "post (reply_new_entry E p s) (\<lambda>x _. \<exists>t a. x = ReplyEntry t a 0) (\<lambda>_ _. True)"
  unfolding reply_new_entry_def by (rule post_rest) (simp split: prod.split)

lemma read_bounded: "host_read_at i off n h = (Ok b, h') \<Longrightarrow> length b \<le> n"
  by (auto simp: host_read_at_def split: if_splits prod.splits fault.splits)

lemma write_bounded: "host_write_at i off d h = (Ok n, h') \<Longrightarrow> n \<le> length d"
  by (auto simp: host_write_at_def split: if_splits prod.splits fault.splits)

lemma on_host_fs_Ok: "on_host_fs f s = (Ok a, s') \<Longrightarrow> \<exists>h'. f (w_host (fs_world s)) = (Ok a, h')"
  by (auto simp: on_host_fs_def on_world_def on_host_def split: prod.splits)

lemma read_fits: "reply_fits (Read fh off sz) (fst (fs_read fh off sz s))"
proof -
  have "post (try_res (on_host_fs (host_read_at i off (unat sz)) s) (\<lambda>b s. (Ok (ReplyData b), s)))
      (\<lambda>x _. reply_fits (Read fh off sz) x) (\<lambda>_ _. True)" for i
    by (auto simp: post_iff try_res_Ok_iff dest!: on_host_fs_Ok read_bounded)
  then show ?thesis by (simp add: fs_read_def answer_fits split: option.split)
qed

lemma write_fits: "reply_fits (Write fh off d) (fst (fs_write fh off d s))"
proof -
  have le: "unat (of_nat n :: u32) \<le> length d" if "n \<le> length d" for n
    using that by (simp add: unat_of_nat order_trans[OF mod_less_eq_dividend])
  have "post (try_res (on_host_fs (host_write_at i off d) s) (\<lambda>n s. (Ok (ReplyWritten (of_nat n)), mark_dirty c True s)))
      (\<lambda>x _. reply_fits (Write fh off d) x) (\<lambda>_ _. True)" for i c
    by (auto simp: post_iff try_res_Ok_iff intro!: le dest!: on_host_fs_Ok write_bounded)
  then show ?thesis by (simp add: fs_write_def answer_fits split: option.split)
qed

lemma lookup_fits: "reply_fits (Lookup i n) (fst (fs_lookup E i n s))"
  unfolding fs_lookup_def
  by (intro answer_fits post_path_any) (simp add: Let_def split: prod.split res.split)

lemma open_fits: "reply_fits (Open i) (fst (fs_open E i s))"
  unfolding fs_open_def
  by (intro answer_fits post_path_any post_rest) (auto intro!: post_rest split: prod.split res.split)

lemma create_fits: "reply_fits (Create i n) (fst (fs_create E i n s))"
  unfolding fs_create_def
  by (intro answer_fits post_path_any) (auto simp: Let_def intro!: post_rest split: prod.split res.split)

lemma mknod_fits: "reply_fits (Mknod i n) (fst (fs_mknod E i n s))"
proof -
  have new: "post (reply_new_entry E p t) (\<lambda>x _. reply_fits (Mknod i n) x) (\<lambda>_ _. True)" for p t
    by (rule post_mono[OF reply_new_entry_fits]) auto
  show ?thesis unfolding fs_mknod_def
    by (intro answer_fits post_path_any) (auto simp: Let_def new intro!: post_rest split: prod.split res.split)
qed

lemma mkdir_fits: "reply_fits (Mkdir i n) (fst (fs_mkdir E i n s))"
proof -
  have new: "post (reply_new_entry E p t) (\<lambda>x _. reply_fits (Mkdir i n) x) (\<lambda>_ _. True)" for p t
    by (rule post_mono[OF reply_new_entry_fits]) auto
  show ?thesis unfolding fs_mkdir_def Let_def by (intro answer_fits post_path_any post_rest new)
qed

lemma opendir_fits: "reply_fits (Opendir i) (fst (fs_opendir E i s))"
  unfolding fs_opendir_def
  by (intro answer_fits post_path_any post_rest) (simp add: Let_def split: prod.split)

lemma setattr_fits: "reply_fits (Setattr i z a m) (fst (fs_setattr E i z a m s))"
  unfolding fs_setattr_def Let_def
  by (intro answer_fits post_path_any post_rest) simp

lemma rename_fits: "reply_fits (Rename i n j m) (fst (fs_rename E i n j m s))"
  unfolding fs_rename_def Let_def
  by (rule answer_fits) (auto intro!: post_rest split: option.split)

lemma plain_fits:
  "reply_fits (Getattr i) (fst (fs_getattr E i s))" "reply_fits (Readlink i) (fst (fs_readlink E i s))"
  "reply_fits (Unlink i n) (fst (fs_unlink E i n s))" "reply_fits (Rmdir i n) (fst (fs_rmdir E i n s))"
  unfolding fs_getattr_def fs_readlink_def fs_unlink_def fs_rmdir_def Let_def
  by (intro answer_fits post_path_any post_rest, simp)+

lemma handle_fits:
  "reply_fits (Readdir fh off) (fst (fs_readdir full fh off s))" "reply_fits (Releasedir fh) (fst (fs_releasedir fh s))"
  "reply_fits (Flush fh) (fst (fs_flush E fh s))" "reply_fits (Release fh) (fst (fs_release fh s))"
  "reply_fits (Access i) (fst (fs_access E i s))"
  unfolding fs_readdir_def fs_releasedir_def fs_flush_def fs_release_def fs_access_def
  by (auto intro!: answer_fits post_rest split: option.split)


subsection \<open>The cache after a change\<close>

text \<open>The cache has for \<open>p\<close> what the device said last, and the reply has the same.\<close>

definition fresh_at :: "'d fs_env \<Rightarrow> 'd adb_fs \<Rightarrow> string \<Rightarrow> file_attr \<Rightarrow> bool" where
  "fresh_at E s p a = (\<exists>m w. get_metadata (e_ops E) p w = (Ok m, fs_world s)
     \<and> entries (fs_cache s) p = Some \<lparr>ce_meta = Some m, ce_inserted_at = e_instant_now E (fs_world s)\<rparr>
     \<and> a = meta_to_attr (e_opts E) (at_ino a) m)"

lemma entries_invalidate [simp]: "entries (fs_cache (invalidate p s)) q = (if q = p then None else entries (fs_cache s) q)"
  by (simp add: invalidate_def upd_cache_def cache_invalidate_def)

lemma entries_remember [simp]:
  "entries (fs_cache (remember E p m s)) q
     = (if q = p then Some \<lparr>ce_meta = m, ce_inserted_at = e_instant_now E (fs_world s)\<rparr> else entries (fs_cache s) q)"
  by (simp add: remember_def upd_cache_def cache_insert_def)

lemma entries_prefix [simp]:
  "entries (cache_invalidate_prefix p c) q = (if prefix_covers p q then None else entries c q)"
  by (simp add: cache_invalidate_prefix_def prefix_covers_def at_or_under_def)

lemma world_remember [simp]: "fs_world (remember E p m s) = fs_world s"
  by (simp add: remember_def upd_cache_def)

lemma at_ino_meta [simp]: "at_ino (meta_to_attr fo i m) = i"
  by (simp add: meta_to_attr_def Let_def split: prod.split)

lemma on_device_metadata:
  "on_device (get_metadata (e_ops E) p) s = (Ok m, t) \<Longrightarrow>
     get_metadata (e_ops E) p (fs_world s) = (Ok m, fs_world t) \<and> t = s\<lparr>fs_world := fs_world t\<rparr>"
  by (auto simp: on_device_def on_world_def split: prod.splits)

lemma assign_ino_rest: "assign_ino p s = (i, t) \<Longrightarrow> fs_world t = fs_world s \<and> fs_cache t = fs_cache s"
  by (auto simp: assign_ino_def split: prod.splits)

lemma answer_Ok: "answer r = (x, s) \<Longrightarrow> x \<noteq> NoReply \<Longrightarrow> (\<And>e. x \<noteq> ReplyError e) \<Longrightarrow> r = (Ok x, s)"
  by (cases r; cases "fst r") auto

lemma with_path_Ok: "with_path i k s = (Ok x, t) \<longleftrightarrow> (\<exists>p. ino_path i s = Some p \<and> k p s = (Ok x, t))"
  by (simp add: with_path_def split: option.split)

lemma new_entry_fresh:
  assumes "reply_new_entry E p s = (Ok (ReplyEntry t a g), s')"
  shows "fresh_at E s' p a"
proof -
  from assms obtain m u where q: "on_device (get_metadata (e_ops E) p) s = (Ok m, u)"
    and r: "(case assign_ino p u of (ino, s) \<Rightarrow>
         (Ok (ReplyEntry (entry_timeout (e_opts E)) (meta_to_attr (e_opts E) ino m) 0), remember E p (Some m) s))
       = (Ok (ReplyEntry t a g) :: (int, reply) res, s')"
    unfolding reply_new_entry_def try_res_Ok_iff by - (elim exE conjE, rule that)
  obtain i v where i: "assign_ino p u = (i, v)" by (cases "assign_ino p u")
  have a: "a = meta_to_attr (e_opts E) i m" and s': "s' = remember E p (Some m) v" using r by (simp_all add: i)
  show ?thesis
    unfolding fresh_at_def s' a using on_device_metadata[OF q] assign_ino_rest[OF i] by auto
qed

lemma unlink_forgets:
  assumes "fs_unlink E i n s = (ReplyOk, s')"
  shows "\<exists>p. ino_path i s = Some p \<and> entries (fs_cache s') (child_path p n) = None"
  using answer_Ok[OF assms[unfolded fs_unlink_def]] by (auto simp: with_path_Ok try_res_Ok_iff Let_def)

lemma rmdir_forgets:
  assumes "fs_rmdir E i n s = (ReplyOk, s')"
  shows "\<exists>p. ino_path i s = Some p \<and> (\<forall>q. prefix_covers (child_path p n) q \<longrightarrow> entries (fs_cache s') q = None)"
  using answer_Ok[OF assms[unfolded fs_rmdir_def]] by (auto simp: with_path_Ok try_res_Ok_iff Let_def)

lemma rename_forgets:
  assumes "fs_rename E i n j m s = (ReplyOk, s')"
  shows "\<exists>p q. ino_path i s = Some p \<and> ino_path j s = Some q \<and> (\<forall>x. prefix_covers (child_path p n) x
      \<or> prefix_covers (child_path q m) x \<longrightarrow> entries (fs_cache s') x = None)"
  using answer_Ok[OF assms[unfolded fs_rename_def Let_def]]
  by (auto simp: try_res_Ok_iff Let_def split: option.split_asm)

lemma mkdir_fresh:
  assumes "fs_mkdir E i n s = (ReplyEntry t a g, s')"
  shows "\<exists>p. ino_path i s = Some p \<and> fresh_at E s' (child_path p n) a"
  using answer_Ok[OF assms[unfolded fs_mkdir_def]]
  by (auto simp: with_path_Ok try_res_Ok_iff Let_def intro: new_entry_fresh)

lemma mknod_fresh:
  assumes "fs_mknod E i n s = (ReplyEntry t a g, s')"
  shows "\<exists>p. ino_path i s = Some p \<and> fresh_at E s' (child_path p n) a"
proof -
  from answer_Ok[OF assms[unfolded fs_mknod_def Let_def]] obtain p scratch s1 where p: "ino_path i s = Some p"
    and r: "(if CHR 0x00 \<in> set (utf8_lossy (path_join scratch ''node'')) then (Err EINVAL, drop_scratch E scratch s1)
       else case on_host_fs (host_mknod (utf8_lossy (path_join scratch ''node''))) s1 of
         (Err e, s) \<Rightarrow> (Err e, drop_scratch E scratch s)
       | (Panicked, s) \<Rightarrow> (Panicked, drop_scratch E scratch s)
       | (Ok _, s) \<Rightarrow>
           (case map_err_res device_err (push_and_sync E (path_join scratch ''node'') (child_path p n) s) of
              (Err e, s) \<Rightarrow> (Err e, drop_scratch E scratch s)
            | (Panicked, s) \<Rightarrow> (Panicked, drop_scratch E scratch s)
            | (Ok _, s) \<Rightarrow>
                reply_new_entry E (child_path p n) (drop_scratch E scratch (invalidate (child_path p n) s))))
       = (Ok (ReplyEntry t a g), s')"
    by (simp add: with_path_Ok try_res_Ok_iff) blast
  obtain x s2 where x: "on_host_fs (host_mknod (utf8_lossy (path_join scratch ''node''))) s1 = (x, s2)"
    by (cases "on_host_fs (host_mknod (utf8_lossy (path_join scratch ''node''))) s1")
  obtain y s3 where y: "map_err_res device_err (push_and_sync E (path_join scratch ''node'') (child_path p n) s2) = (y, s3)"
    by (cases "map_err_res device_err (push_and_sync E (path_join scratch ''node'') (child_path p n) s2)")
  have "reply_new_entry E (child_path p n) (drop_scratch E scratch (invalidate (child_path p n) s3)) = (Ok (ReplyEntry t a g), s')"
    using r by (cases x; cases y) (simp_all add: x y split: if_split_asm)
  then show ?thesis using p new_entry_fresh by blast
qed

lemma create_fresh:
  assumes "fs_create E i n s = (ReplyCreated t a g fh fl, s')"
  shows "\<exists>p. ino_path i s = Some p \<and> fresh_at E s' (child_path p n) a"
proof -
  from answer_Ok[OF assms[unfolded fs_create_def]] obtain p where p: "ino_path i s = Some p"
    and r: "(case assign_ino (child_path p n) s of (ino, s) \<Rightarrow>
       try_res (acquire_copy E ino (child_path p n) EmptyInit s) (\<lambda>c s.
         case create_opened E ino c (child_path p n) s of
           (Panicked, s) \<Rightarrow> (Panicked, s)
         | (Err e, s) \<Rightarrow> try_res (release_copy ino c s) (\<lambda>_ s. (Err e, s))
         | (Ok (f, meta), s) \<Rightarrow>
             (case insert_handle ino c f (remember E (child_path p n) (Some meta) s) of (fh, s) \<Rightarrow>
               (Ok (ReplyCreated (entry_timeout (e_opts E)) (meta_to_attr (e_opts E) ino meta) 0 fh
                     (file_open_flags (e_opts E))), s)))) = (Ok (ReplyCreated t a g fh fl), s')"
    by (auto simp: with_path_Ok Let_def)
  obtain ino s1 where i: "assign_ino (child_path p n) s = (ino, s1)" by (cases "assign_ino (child_path p n) s")
  obtain c s2 where r2: "(case create_opened E ino c (child_path p n) s2 of
           (Panicked, s) \<Rightarrow> (Panicked, s)
         | (Err e, s) \<Rightarrow> try_res (release_copy ino c s) (\<lambda>_ s. (Err e, s))
         | (Ok (f, meta), s) \<Rightarrow>
             (case insert_handle ino c f (remember E (child_path p n) (Some meta) s) of (fh, s) \<Rightarrow>
               (Ok (ReplyCreated (entry_timeout (e_opts E)) (meta_to_attr (e_opts E) ino meta) 0 fh
                     (file_open_flags (e_opts E))), s))) = (Ok (ReplyCreated t a g fh fl), s')"
    using r unfolding i prod.case try_res_Ok_iff by blast
  obtain x s3 where c: "create_opened E ino c (child_path p n) s2 = (x, s3)" by (cases "create_opened E ino c (child_path p n) s2")
  from r2 obtain f m where x: "x = Ok (f, m)" and h: "insert_handle ino c f (remember E (child_path p n) (Some m) s3) = (fh, s')"
    and a: "a = meta_to_attr (e_opts E) ino m"
    unfolding c by (cases x) (auto simp: try_res_Ok_iff split: prod.split_asm)
  note o = c[unfolded x]
  from o obtain u where "on_device (get_metadata (e_ops E) (child_path p n)) u = (Ok m, s3)"
    by (auto simp: create_opened_def try_res_Ok_iff)
  from on_device_metadata[OF this] have "fresh_at E s' (child_path p n) a"
    using h unfolding fresh_at_def a by (auto simp: insert_handle_def Let_def)
  with p show ?thesis by blast
qed

lemma setattr_fresh:
  assumes "fs_setattr E i z at mt s = (ReplyAttr t a, s')"
  shows "\<exists>p. ino_path i s = Some p \<and> fresh_at E s' p a"
proof -
  from answer_Ok[OF assms[unfolded fs_setattr_def Let_def]] obtain p u m s3 where p: "ino_path i s = Some p"
    and q: "on_device (get_metadata (e_ops E) p) u = (Ok m, s3)" and a: "a = meta_to_attr (e_opts E) i m"
    and s': "s' = remember E p (Some m) s3"
    by (auto simp: with_path_Ok try_res_Ok_iff)
  show ?thesis using on_device_metadata[OF q] p unfolding fresh_at_def s' a by auto
qed


text \<open>A rescan that fails makes a removal that was done look like a failure: the entry stays cached.\<close>

lemma failed_rescan_keeps_entry:
  assumes "ino_path i s = Some p" "d_rescan (e_ops E)"
    and "run_mutation (e_ops E) (rm_cmd (child_path p n)) (fs_world s) = (Ok (), w)"
    and "rescan_file (e_ops E) (child_path p n) w = (Err e, w')"
  shows "fs_unlink E i n s = (ReplyError (device_err e), s\<lparr>fs_world := w'\<rparr>)"
  using assms by (simp add: fs_unlink_def with_path_def Let_def on_device_def on_world_def dev_rm_def)


end
