(* ===== verification/FlushRace.thy ===== *)
theory FlushRace
  imports FsState
begin

text \<open>
  Writing back under concurrency (\<open>push_if_dirty\<close> and the requests that change a local copy,
  \<open>src/src/fs.rs\<close>). A request that changes the bytes of a copy (\<open>write\<close>, the truncation of
  \<open>setattr\<close>, the \<open>File::create\<close> of \<open>acquire_copy\<close>) sets the dirty flag in a second step, and
  \<open>push_if_dirty\<close> takes no lock: it swaps the flag, reads the local file, replaces the file of the
  device and syncs, and other threads run in between. The program counter says what a thread has
  done: \<open>Unmarked\<close> changed the bytes and not set the flag yet; \<open>Flushing\<close> called
  \<open>push_if_dirty\<close>, \<open>Swapped\<close> found the flag set and cleared it; \<open>Reading n\<close> is in the push, which
  started to read after \<open>n\<close> changes of the copy; \<open>Sending b\<close> has read the bytes \<open>b\<close>; \<open>Stored\<close>
  has replaced the bytes of the device; \<open>PushFailed\<close> has had an error, of the path, the push or the
  sync. The copy is one copy; its path on the device stays the same.
\<close>

subsection \<open>The steps\<close>

datatype change = Written u64 string | Resized u64 | Emptied

fun change_bytes :: "change \<Rightarrow> string \<Rightarrow> string" where
  "change_bytes (Written off d) b = write_bytes (unat off) d b"
| "change_bytes (Resized n) b = resize (unat n) b"
| "change_bytes Emptied b = []"

datatype fpc = Resting | Unmarked | Flushing | Swapped | Reading nat | Sending string | Stored | PushFailed

record flushing =
  fl_local :: string
  fl_changes :: nat
  fl_dirty :: bool
  fl_device :: string
  fl_pc :: "nat \<Rightarrow> fpc"

text \<open>A copy that was pulled.\<close>

definition flush_start :: "string \<Rightarrow> flushing" where
  "flush_start b = \<lparr>fl_local = b, fl_changes = 0, fl_dirty = False, fl_device = b, fl_pc = (\<lambda>_. Resting)\<rparr>"

definition turn :: "nat \<Rightarrow> fpc \<Rightarrow> flushing \<Rightarrow> flushing" where
  "turn t p s = s\<lparr>fl_pc := (fl_pc s)(t := p)\<rparr>"

text \<open>
  A push that is not alone with the local file may read a mixture of its versions, and one that
  fails may leave any bytes behind.
\<close>

inductive fstep :: "nat \<Rightarrow> flushing \<Rightarrow> flushing \<Rightarrow> bool" where
  put: "fl_pc s t = Resting \<Longrightarrow>
    fstep t s (turn t Unmarked (s\<lparr>fl_local := change_bytes c (fl_local s), fl_changes := Suc (fl_changes s)\<rparr>))"
| mark: "fl_pc s t = Unmarked \<Longrightarrow> fstep t s (turn t Resting (s\<lparr>fl_dirty := True\<rparr>))"
| flush: "fl_pc s t = Resting \<Longrightarrow> fstep t s (turn t Flushing s)"
| swap_clean: "fl_pc s t = Flushing \<Longrightarrow> \<not> fl_dirty s \<Longrightarrow> fstep t s (turn t Resting s)"
| swap_dirty: "fl_pc s t = Flushing \<Longrightarrow> fl_dirty s \<Longrightarrow> fstep t s (turn t Swapped (s\<lparr>fl_dirty := False\<rparr>))"
| no_path: "fl_pc s t = Swapped \<Longrightarrow> fstep t s (turn t PushFailed s)"
| start_push: "fl_pc s t = Swapped \<Longrightarrow> fstep t s (turn t (Reading (fl_changes s)) s)"
| read_copy: "fl_pc s t = Reading n \<Longrightarrow> n = fl_changes s \<longrightarrow> b = fl_local s \<Longrightarrow> fstep t s (turn t (Sending b) s)"
| arrive: "fl_pc s t = Sending b \<Longrightarrow> fstep t s (turn t Stored (s\<lparr>fl_device := b\<rparr>))"
| push_fails: "fl_pc s t = Sending b \<Longrightarrow> fstep t s (turn t PushFailed (s\<lparr>fl_device := b'\<rparr>))"
| sync_done: "fl_pc s t = Stored \<Longrightarrow> fstep t s (turn t Resting s)"
| sync_fails: "fl_pc s t = Stored \<Longrightarrow> fstep t s (turn t PushFailed s)"
| mark_again: "fl_pc s t = PushFailed \<Longrightarrow> fstep t s (turn t Resting (s\<lparr>fl_dirty := True\<rparr>))"

text \<open>The states of the runs whose every state satisfies a condition.\<close>

inductive freach :: "(flushing \<Rightarrow> bool) \<Rightarrow> string \<Rightarrow> flushing \<Rightarrow> bool" where
  freach_start: "freach ok b (flush_start b)"
| freach_step: "freach ok b s \<Longrightarrow> fstep t s s' \<Longrightarrow> ok s' \<Longrightarrow> freach ok b s'"

text \<open>At most one thread is between the swap and the end of its push.\<close>

fun pushing :: "fpc \<Rightarrow> bool" where
  "pushing Resting = False" | "pushing Unmarked = False" | "pushing Flushing = False" | "pushing _ = True"

definition one_push :: "flushing \<Rightarrow> bool" where
  "one_push s = (\<forall>t u. pushing (fl_pc s t) \<longrightarrow> pushing (fl_pc s u) \<longrightarrow> t = u)"

lemma turn_sel [simp]:
  "fl_local (turn t p s) = fl_local s" "fl_changes (turn t p s) = fl_changes s" "fl_dirty (turn t p s) = fl_dirty s"
  "fl_device (turn t p s) = fl_device s" "fl_pc (turn t p s) = (fl_pc s)(t := p)"
  by (simp_all add: turn_def)

subsection \<open>The invariant of pushes that do not overlap\<close>

definition unpushed :: "flushing \<Rightarrow> bool" where
  "unpushed s = (fl_dirty s \<or> (\<exists>t. fl_pc s t = Unmarked))"

fun on_course :: "flushing \<Rightarrow> fpc \<Rightarrow> bool" where
  "on_course s (Reading n) = (n = fl_changes s)"
| "on_course s (Sending b) = (b = fl_local s)"
| "on_course s Stored = (fl_device s = fl_local s)"
| "on_course s _ = True"

definition finv :: "flushing \<Rightarrow> bool" where
  "finv s = (unpushed s \<or> (\<forall>t. on_course s (fl_pc s t))
     \<and> ((\<forall>t. \<not> pushing (fl_pc s t)) \<longrightarrow> fl_device s = fl_local s))"

lemma finv_start: "finv (flush_start b)"
  by (simp add: finv_def flush_start_def)

lemma alone: "one_push s \<Longrightarrow> pushing (fl_pc s t) \<Longrightarrow> u \<noteq> t \<Longrightarrow> \<not> pushing (fl_pc s u)"
  by (auto simp: one_push_def)

lemma resting_on_course: "\<not> pushing p \<Longrightarrow> on_course s p"
  by (cases p) simp_all

text \<open>A thread that clears the flag is the only one that pushes.\<close>

lemma finv_taken:
  assumes "one_push s" "pushing (fl_pc s t)" "on_course s (fl_pc s t)"
  shows "finv s"
proof -
  have "on_course s (fl_pc s u)" for u
    using assms(3) resting_on_course alone[OF assms(1,2)] by (cases "u = t") auto
  then show ?thesis using assms(2) unfolding finv_def by blast
qed

lemma finv_kept:
  assumes "finv s" "\<not> unpushed s" shows "on_course s (fl_pc s t)"
    "(\<And>t. \<not> pushing (fl_pc s t)) \<Longrightarrow> fl_device s = fl_local s"
  using assms unfolding finv_def by blast+

lemma finv_ends:
  assumes "one_push s" "pushing (fl_pc s t)" "s' = turn t p s" "\<not> pushing p" "fl_device s = fl_local s"
  shows "finv s'"
proof -
  have "\<not> pushing (fl_pc s' u)" for u using alone[OF assms(1,2)] assms(3,4) by simp
  then have "on_course s' (fl_pc s' u)" for u by (rule resting_on_course)
  then show ?thesis using assms(3,5) unfolding finv_def by simp
qed

lemma unpushed_turn:
  "unpushed (turn t p s) \<longleftrightarrow> fl_dirty s \<or> p = Unmarked \<or> (\<exists>u. u \<noteq> t \<and> fl_pc s u = Unmarked)"
  by (auto simp: unpushed_def)

lemma unpushed_before: "fl_pc s t \<noteq> Unmarked \<Longrightarrow> unpushed s \<Longrightarrow> unpushed (turn t p s)"
  by (auto simp: unpushed_turn) (auto simp: unpushed_def)

lemma finv_idle:
  assumes "finv s" "\<not> pushing (fl_pc s t)" "\<not> pushing p" "fl_pc s t \<noteq> Unmarked"
  shows "finv (turn t p s)"
proof (cases "unpushed s")
  case True
  then have "unpushed (turn t p s)" using assms(4) by (simp add: unpushed_before)
  then show ?thesis by (simp add: finv_def)
next
  case False
  have c: "on_course (turn t p s) q = on_course s q" for q by (cases q) simp_all
  have "pushing (fl_pc (turn t p s) u) = pushing (fl_pc s u)" for u using assms(2,3) by simp
  then show ?thesis
    using finv_kept[OF assms(1) False] resting_on_course[OF assms(3)] unfolding finv_def c by simp
qed

lemma finv_step:
  assumes "finv s" "one_push s" "fstep t s s'" "one_push s'"
  shows "finv s'"
proof (cases "unpushed s'")
  case True
  then show ?thesis by (simp add: finv_def)
next
  case False
  note taken = finv_taken[OF assms(4), of t]
  show ?thesis
    using assms(3)
  proof cases
    case put
    then show ?thesis using False by (simp add: unpushed_turn)
  next
    case mark
    then show ?thesis using False by (simp add: unpushed_def)
  next
    case flush
    then show ?thesis using finv_idle[OF assms(1), of t Flushing] by simp
  next
    case swap_clean
    then show ?thesis using finv_idle[OF assms(1), of t Resting] by simp
  next
    case (read_copy n b)
    have "\<not> unpushed s" using False read_copy unpushed_before[of s t] by auto
    then have "n = fl_changes s" using finv_kept(1)[OF assms(1), of t] read_copy(2) by simp
    then show ?thesis using taken read_copy by simp
  next
    case (arrive b)
    have "\<not> unpushed s"
      using False arrive unpushed_before[of "s\<lparr>fl_device := b\<rparr>" t] by (auto simp: unpushed_def)
    then show ?thesis using finv_kept(1)[OF assms(1), of t] taken arrive by simp
  next
    case sync_done
    have "\<not> unpushed s" using False sync_done unpushed_before[of s t] by auto
    then show ?thesis
      using finv_kept(1)[OF assms(1), of t] finv_ends[OF assms(2), of t s' Resting] sync_done by simp
  next
    case mark_again
    then show ?thesis using False by (simp add: unpushed_def)
  qed (use taken in simp_all)
qed

lemma freach_inv: "freach one_push b s \<Longrightarrow> finv s \<and> one_push s"
proof (induction "one_push" b s rule: freach.induct)
  case (freach_start b)
  show ?case using finv_start by (simp add: one_push_def flush_start_def)
next
  case (freach_step b s t s')
  then show ?case using finv_step[of s t s'] by simp
qed

subsection \<open>Alone, the steps are the function\<close>

inductive fsteps :: "nat \<Rightarrow> flushing \<Rightarrow> flushing \<Rightarrow> bool" where
  fsteps_refl: "fsteps t s s"
| fsteps_step: "fsteps t s s' \<Longrightarrow> fstep t s' s'' \<Longrightarrow> fsteps t s s''"

lemma fsteps_pushed:
  assumes "fl_pc q t = Resting" "fl_dirty q"
  shows "\<exists>q'. fsteps t q q' \<and> fl_pc q' t = Stored \<and> \<not> fl_dirty q' \<and> fl_local q' = fl_local q \<and> fl_device q' = fl_local q"
    and "\<exists>q'. fsteps t q q' \<and> fl_pc q' t = Swapped \<and> fl_local q' = fl_local q"
proof -
  let ?q1 = "turn t Flushing q" let ?q2 = "turn t Swapped (?q1\<lparr>fl_dirty := False\<rparr>)"
  let ?q3 = "turn t (Reading (fl_changes ?q2)) ?q2" let ?q4 = "turn t (Sending (fl_local q)) ?q3"
  let ?q5 = "turn t Stored (?q4\<lparr>fl_device := fl_local q\<rparr>)"
  have "fsteps t q ?q1" by (rule fsteps_step[OF fsteps_refl flush[OF assms(1)]])
  then have 2: "fsteps t q ?q2" by (rule fsteps_step) (rule swap_dirty; use assms in simp)
  then have "fsteps t q ?q3" by (rule fsteps_step) (rule start_push; simp)
  then have "fsteps t q ?q4" by (rule fsteps_step) (rule read_copy[of _ _ "fl_changes ?q2"]; simp)
  then have "fsteps t q ?q5" by (rule fsteps_step) (rule arrive; simp)
  then show "\<exists>q'. fsteps t q q' \<and> fl_pc q' t = Stored \<and> \<not> fl_dirty q' \<and> fl_local q' = fl_local q \<and> fl_device q' = fl_local q"
    by (intro exI[of _ ?q5]) simp
  show "\<exists>q'. fsteps t q q' \<and> fl_pc q' t = Swapped \<and> fl_local q' = fl_local q" using 2 by (intro exI[of _ ?q2]) simp
qed

lemma on_world_frame: "on_world f s = (r, s') \<Longrightarrow> \<exists>w. s' = s\<lparr>fs_world := w\<rparr>"
  by (auto simp: on_world_def split: prod.splits)

lemma push_and_sync_copies: "push_and_sync E l p s = (r, s') \<Longrightarrow> copy_at s' = copy_at s"
  unfolding push_and_sync_def try_res_def
  by (auto split: prod.splits res.splits dest!: on_world_frame)

lemma push_if_dirty_is_run:
  assumes "push_if_dirty E ino c s = (r, s')" "r \<noteq> Panicked" "fl_pc q t = Resting" "fl_dirty q = lc_dirty (copy_at s c)"
  shows "\<exists>q'. fsteps t q q' \<and> fl_pc q' t = Resting \<and> fl_dirty q' = lc_dirty (copy_at s' c) \<and> fl_local q' = fl_local q
    \<and> (r = Ok () \<longrightarrow> fl_device q' = (if fl_dirty q then fl_local q else fl_device q))"
proof (cases "fl_dirty q")
  case False
  let ?q1 = "turn t Flushing q"
  have "fsteps t q ?q1" by (rule fsteps_step[OF fsteps_refl flush[OF assms(3)]])
  then have "fsteps t q (turn t Resting ?q1)" by (rule fsteps_step) (rule swap_clean; use False in simp)
  then show ?thesis using False assms(1,4) by (intro exI[of _ "turn t Resting ?q1"]) (auto simp: push_if_dirty_def)
next
  case True
  note run = fsteps_pushed[OF assms(3) True]
  show ?thesis
  proof (cases r)
    case (Ok u)
    then have d: "\<not> lc_dirty (copy_at s' c)"
      using assms(1,4) True by (auto simp: push_if_dirty_def Let_def mark_dirty_def set_copy_def invalidate_def upd_cache_def
          split: option.splits prod.splits res.splits dest!: push_and_sync_copies)
    obtain q' where q': "fsteps t q q'" "fl_pc q' t = Stored" "\<not> fl_dirty q'" "fl_local q' = fl_local q" "fl_device q' = fl_local q"
      using run(1) by blast
    have "fsteps t q (turn t Resting q')" using q'(1) sync_done[OF q'(2)] by (rule fsteps_step)
    then show ?thesis using q' d True by (intro exI[of _ "turn t Resting q'"]) simp
  next
    case (Err e)
    then have d: "lc_dirty (copy_at s' c)"
      using assms(1,4) True by (auto simp: push_if_dirty_def Let_def mark_dirty_def set_copy_def
          split: option.splits prod.splits res.splits)
    obtain q' where q': "fsteps t q q'" "fl_pc q' t = Swapped" "fl_local q' = fl_local q" using run(2) by blast
    let ?f = "turn t PushFailed q'" let ?r = "turn t Resting (?f\<lparr>fl_dirty := True\<rparr>)"
    have "fsteps t q ?f" using q'(1) no_path[OF q'(2)] by (rule fsteps_step)
    then have "fsteps t q ?r" by (rule fsteps_step) (rule mark_again; simp)
    then show ?thesis using q' d Err by (intro exI[of _ ?r]) simp
  next
    case Panicked
    then show ?thesis using assms(2) by simp
  qed
qed

subsection \<open>Properties\<close>

text \<open>C18. If no two pushes of a copy overlap, then whatever writes and truncations run beside them,
  and however pushes fail, no change is forgotten: a copy whose flag is clear, with no change still
  to be marked and no push going on, is on the device byte for byte.\<close>

theorem serial_pushes_keep_changes:
  assumes "freach one_push b s" "\<not> fl_dirty s" "\<forall>t. fl_pc s t \<in> {Resting, Flushing}"
  shows "fl_device s = fl_local s"
proof -
  have pc: "fl_pc s t = Resting \<or> fl_pc s t = Flushing" for t using assms(3) by simp
  have "\<not> pushing (fl_pc s t)" for t using pc[of t] by auto
  moreover have "\<not> unpushed s" using assms(2) pc by (metis fpc.distinct(1,15) unpushed_def)
  ultimately show ?thesis using freach_inv[OF assms(1)] finv_kept(2) by blast
qed

lemma freach_to: "freach ok b s \<Longrightarrow> fstep t s s' \<Longrightarrow> s' = s'' \<Longrightarrow> ok s'' \<Longrightarrow> freach ok b s''"
  using freach_step by blast


lemma write_over [simp]: "length d = length b \<Longrightarrow> write_bytes 0 d b = d"
  by (auto simp: write_bytes_def resize_def)

text \<open>Thread 0 writes \<open>x\<close>, marks the copy and gets as far as having read it for the push.\<close>

definition half_pushed :: "string \<Rightarrow> string \<Rightarrow> flushing" where
  "half_pushed b x = \<lparr>fl_local = x, fl_changes = 1, fl_dirty = False, fl_device = b,
     fl_pc = (\<lambda>_. Resting)(0 := Sending x)\<rparr>"

text \<open>Then thread 1 writes \<open>y\<close> and flushes it to the end.\<close>

definition overtaken :: "string \<Rightarrow> string \<Rightarrow> flushing" where
  "overtaken x y = \<lparr>fl_local = y, fl_changes = 2, fl_dirty = False, fl_device = y,
     fl_pc = (\<lambda>_. Resting)(0 := Sending x)\<rparr>"

text \<open>Then the push of thread 0 arrives.\<close>

definition reverted :: "string \<Rightarrow> string \<Rightarrow> flushing" where
  "reverted x y = \<lparr>fl_local = y, fl_changes = 2, fl_dirty = False, fl_device = x, fl_pc = (\<lambda>_. Resting)\<rparr>"

text \<open>One thread writes and flushes, up to having read the copy, and then to the end.\<close>

lemma write_and_read:
  assumes "freach ok b0 s" "fl_pc s t = Resting" "length d = length (fl_local s)"
    and ok: "\<And>s'. (\<And>u. u \<noteq> t \<Longrightarrow> fl_pc s' u = fl_pc s u) \<Longrightarrow> ok s'"
  shows "freach ok b0 (turn t (Sending d)
    (s\<lparr>fl_local := d, fl_changes := Suc (fl_changes s), fl_dirty := False\<rparr>))"
proof -
  let ?s1 = "turn t Unmarked (s\<lparr>fl_local := d, fl_changes := Suc (fl_changes s)\<rparr>)"
  let ?s2 = "turn t Resting (?s1\<lparr>fl_dirty := True\<rparr>)" let ?s3 = "turn t Flushing ?s2"
  let ?s4 = "turn t Swapped (?s3\<lparr>fl_dirty := False\<rparr>)" let ?s5 = "turn t (Reading (fl_changes ?s4)) ?s4"
  let ?s6 = "turn t (Sending d) ?s5"
  have "freach ok b0 ?s1"
    using freach_to[OF assms(1) put[OF assms(2), of "Written 0 d"]] assms(3) by (simp add: ok)
  then have "freach ok b0 ?s2" by (rule freach_step) (rule mark, simp, rule ok, simp)
  then have "freach ok b0 ?s3" by (rule freach_step) (rule flush, simp, rule ok, simp)
  then have "freach ok b0 ?s4" by (rule freach_step) (rule swap_dirty, simp, simp, rule ok, simp)
  then have "freach ok b0 ?s5" by (rule freach_step) (rule start_push, simp, rule ok, simp)
  then have "freach ok b0 ?s6"
    by (rule freach_step) (rule read_copy[of _ _ "fl_changes ?s4"], simp, simp, rule ok, simp)
  then show ?thesis by (rule back_subst[of "freach ok b0"]) (simp add: turn_def)
qed

lemma deliver:
  assumes "freach ok b0 s" "fl_pc s t = Sending d"
    and ok: "\<And>s'. (\<And>u. u \<noteq> t \<Longrightarrow> fl_pc s' u = fl_pc s u) \<Longrightarrow> ok s'"
  shows "freach ok b0 (turn t Resting (s\<lparr>fl_device := d\<rparr>))"
proof -
  let ?s1 = "turn t Stored (s\<lparr>fl_device := d\<rparr>)"
  have "freach ok b0 ?s1" by (rule freach_step[OF assms(1) arrive[OF assms(2)]]) (rule ok, simp)
  then have "freach ok b0 (turn t Resting ?s1)" by (rule freach_step) (rule sync_done, simp, rule ok, simp)
  then show ?thesis by (rule back_subst[of "freach ok b0"]) (simp add: turn_def)
qed

lemma reverted_run:
  assumes "length x = length b" "length y = length b"
  shows "freach (\<lambda>_. True) b (reverted x y)"
proof -
  have "freach (\<lambda>_. True) b (half_pushed b x)"
    using write_and_read[OF freach_start[of "\<lambda>_. True" b], of 0 x] assms(1) by (simp add: flush_start_def half_pushed_def turn_def)
  from write_and_read[OF this, of 1 y] assms
  have "freach (\<lambda>_. True) b ((half_pushed b x)\<lparr>fl_local := y, fl_changes := 2, fl_dirty := False,
      fl_pc := (fl_pc (half_pushed b x))(1 := Sending y)\<rparr>)"
    by (simp add: half_pushed_def turn_def numeral_2_eq_2)
  from deliver[OF this, of 1 y] have "freach (\<lambda>_. True) b (overtaken x y)"
    by (simp add: half_pushed_def overtaken_def turn_def fun_upd_idem fun_upd_twist)
  from deliver[OF this, of 0 x] show ?thesis
    by (simp add: overtaken_def reverted_def turn_def fun_upd_idem)
qed

text \<open>C19. Pushes of one copy that overlap can arrive in the wrong order: the older bytes then stay
  on the device although every request has ended without an error and the flag is clear, so that
  no later flush repairs them.\<close>

theorem overlapping_pushes_lose_a_write:
  assumes "length x = length b" "length y = length b" "x \<noteq> y"
  shows "\<exists>s. freach (\<lambda>_. True) b s \<and> (\<forall>t. fl_pc s t = Resting) \<and> \<not> fl_dirty s
    \<and> fl_local s = y \<and> fl_device s = x
    \<and> (\<forall>t s'. fsteps t s s' \<longrightarrow> fl_changes s' = fl_changes s \<longrightarrow> fl_device s' = x)"
proof -
  have "fl_changes s \<le> fl_changes s' \<and> (fl_changes s' = fl_changes s \<longrightarrow> fl_device s' = fl_device s
      \<and> \<not> fl_dirty s' \<and> fl_pc s' t \<in> {Resting, Flushing})"
    if "fsteps t s s'" "\<not> fl_dirty s" "fl_pc s t = Resting" for t s s'
    using that
  proof (induction rule: fsteps.induct)
    case (fsteps_step t s s' s'')
    then show ?case by (auto elim!: fstep.cases)
  qed simp
  then show ?thesis using reverted_run[OF assms(1,2)]
    by (intro exI[of _ "reverted x y"]) (auto simp: reverted_def)
qed

theorem overlapping_pushes_lose_a_write_witness:
  "\<exists>s. freach (\<lambda>_. True) ''a'' s \<and> (\<forall>t. fl_pc s t = Resting) \<and> \<not> fl_dirty s
    \<and> fl_local s = ''c'' \<and> fl_device s = ''b''"
  using overlapping_pushes_lose_a_write[of "''b''" "''a''" "''c''"] by auto

theorem serial_pushes_keep_changes_witness:
  "\<exists>s. freach one_push ''a'' s \<and> \<not> fl_dirty s \<and> fl_local s = ''b'' \<and> fl_device s = fl_local s"
proof -
  let ?s = "\<lparr>fl_local = ''b'', fl_changes = 1, fl_dirty = False, fl_device = ''b'', fl_pc = (\<lambda>_. Resting)\<rparr>"
  have ok: "one_push s" if r: "\<And>u. u \<noteq> 0 \<Longrightarrow> fl_pc s u = Resting" for s
  proof -
    have "u = 0" if "pushing (fl_pc s u)" for u using that r[of u] by (cases "u = 0") simp_all
    then show ?thesis by (metis one_push_def)
  qed
  have h: "freach one_push ''a'' (half_pushed ''a'' ''b'')"
    using write_and_read[OF freach_start[of one_push "''a''"], of 0 "''b''"] ok by (simp add: flush_start_def half_pushed_def turn_def)
  have "freach one_push ''a'' ?s"
    using deliver[OF h, of 0 "''b''"] ok by (simp add: half_pushed_def turn_def fun_upd_idem)
  from serial_pushes_keep_changes[OF this] this show ?thesis by (intro exI[of _ ?s]) simp
qed

end
