(* ===== verification/CacheRace.thy ===== *)
theory CacheRace
  imports FsState
begin

text \<open>
  The metadata cache under concurrency (\<open>fetch_meta\<close> and the requests that change the device,
  \<open>src/src/fs.rs\<close>, with \<open>src/src/cache.rs\<close>). Each access to the map is atomic, a request is not:
  \<open>get\<close> drops an expired entry in a second step, \<open>fetch_meta\<close> stores what the device said some
  time after the device said it, and a change of the device is followed by the invalidation in a
  later step. \<open>invalidate_prefix\<close> is a \<open>retain\<close>, which visits the map part by part. The program
  counter of a thread: \<open>Wanting p\<close> called \<open>fetch_meta\<close>, \<open>Outdated p\<close> saw an entry that is too old,
  \<open>Lacking p\<close> asks the device (a request that has changed \<open>p\<close> starts there, to read the metadata
  back), \<open>Told p m\<close> has its answer, \<open>Having p m\<close> has stored or found it and returns it;
  \<open>Listed ms\<close> is \<open>opendir\<close> with the entries of a listing it has still to store;
  \<open>Changed p\<close> has changed the device at \<open>p\<close>; \<open>Sweeping ps D\<close> has changed it below the prefixes \<open>ps\<close>,
  and is visiting the map for the first of them, the keys \<open>D\<close> being done. The device answers what it
  holds, or the request fails; a request that changes the device and then fails, and so does not
  invalidate, is in the theory Coherence.
\<close>

subsection \<open>The steps\<close>

datatype kpc =
    Pausing
  | Wanting string
  | Outdated string
  | Lacking string
  | Told string "file_meta option"
  | Having string "file_meta option"
  | Listed "(string \<times> file_meta) list"
  | Changed string
  | Sweeping "string list" "string set"

record caching =
  kr_cache :: metadata_cache
  kr_truth :: "string \<Rightarrow> file_meta option"
  kr_now :: nat
  kr_pc :: "nat \<Rightarrow> kpc"

definition cache_start :: "nat \<Rightarrow> (string \<Rightarrow> file_meta option) \<Rightarrow> caching" where
  "cache_start ttl T = \<lparr>kr_cache = cache_new ttl, kr_truth = T, kr_now = 0, kr_pc = (\<lambda>_. Pausing)\<rparr>"

definition proceed :: "nat \<Rightarrow> kpc \<Rightarrow> caching \<Rightarrow> caching" where
  "proceed t p s = s\<lparr>kr_pc := (kr_pc s)(t := p)\<rparr>"

definition sweep_keys :: "string \<Rightarrow> string set \<Rightarrow> metadata_cache \<Rightarrow> metadata_cache" where
  "sweep_keys p Q c = c\<lparr>entries := (\<lambda>q. if q \<in> Q \<and> prefix_covers p q then None else entries c q)\<rparr>"

definition outdated :: "nat \<Rightarrow> metadata_cache \<Rightarrow> cache_entry \<Rightarrow> bool" where
  "outdated now c e = (now - ce_inserted_at e > cache_ttl c)"

inductive kstep :: "nat \<Rightarrow> caching \<Rightarrow> caching \<Rightarrow> bool" where
  tick: "kstep t s (s\<lparr>kr_now := kr_now s + d\<rparr>)"
| want: "kr_pc s t = Pausing \<Longrightarrow> kstep t s (proceed t (Wanting p) s)"
| hit: "kr_pc s t = Wanting p \<Longrightarrow> entries (kr_cache s) p = Some e \<Longrightarrow> \<not> outdated (kr_now s) (kr_cache s) e \<Longrightarrow>
    kstep t s (proceed t (Having p (ce_meta e)) s)"
| miss: "kr_pc s t = Wanting p \<Longrightarrow> entries (kr_cache s) p = None \<Longrightarrow> kstep t s (proceed t (Lacking p) s)"
| too_old: "kr_pc s t = Wanting p \<Longrightarrow> entries (kr_cache s) p = Some e \<Longrightarrow> outdated (kr_now s) (kr_cache s) e \<Longrightarrow>
    kstep t s (proceed t (Outdated p) s)"
| drop_old: "kr_pc s t = Outdated p \<Longrightarrow>
    kstep t s (proceed t (Lacking p) (s\<lparr>kr_cache := cache_invalidate p (kr_cache s)\<rparr>))"
| query: "kr_pc s t = Lacking p \<Longrightarrow> kstep t s (proceed t (Told p (kr_truth s p)) s)"
| query_fails: "kr_pc s t = Lacking p \<Longrightarrow> kstep t s (proceed t Pausing s)"
| store: "kr_pc s t = Told p m \<Longrightarrow>
    kstep t s (proceed t (Having p m) (s\<lparr>kr_cache := cache_insert p m (kr_now s) (kr_cache s)\<rparr>))"
| reread: "kr_pc s t = Pausing \<Longrightarrow> kstep t s (proceed t (Lacking p) s)"
| list_all_of: "kr_pc s t = Pausing \<Longrightarrow> (\<And>p m. (p, m) \<in> set ms \<Longrightarrow> kr_truth s p = Some m) \<Longrightarrow>
    kstep t s (proceed t (Listed ms) s)"
| store_next: "kr_pc s t = Listed ((p, m) # ms) \<Longrightarrow>
    kstep t s (proceed t (Listed ms) (s\<lparr>kr_cache := cache_insert p (Some m) (kr_now s) (kr_cache s)\<rparr>))"
| listed: "kr_pc s t = Listed [] \<Longrightarrow> kstep t s (proceed t Pausing s)"
| answer: "kr_pc s t = Having p m \<Longrightarrow> kstep t s (proceed t Pausing s)"
| change_one: "kr_pc s t = Pausing \<Longrightarrow>
    kstep t s (proceed t (Changed p) (s\<lparr>kr_truth := (kr_truth s)(p := m)\<rparr>))"
| forget_one: "kr_pc s t = Changed p \<Longrightarrow>
    kstep t s (proceed t Pausing (s\<lparr>kr_cache := cache_invalidate p (kr_cache s)\<rparr>))"
| change_below: "kr_pc s t = Pausing \<Longrightarrow> (\<And>q. \<not> list_ex (\<lambda>p. prefix_covers p q) ps \<Longrightarrow> T q = kr_truth s q) \<Longrightarrow>
    kstep t s (proceed t (Sweeping ps {}) (s\<lparr>kr_truth := T\<rparr>))"
| sweep: "kr_pc s t = Sweeping (p # ps) D \<Longrightarrow>
    kstep t s (proceed t (Sweeping (p # ps) (D \<union> Q)) (s\<lparr>kr_cache := sweep_keys p Q (kr_cache s)\<rparr>))"
| next_prefix: "kr_pc s t = Sweeping (p # ps) UNIV \<Longrightarrow> kstep t s (proceed t (Sweeping ps {}) s)"
| swept: "kr_pc s t = Sweeping [] D \<Longrightarrow> kstep t s (proceed t Pausing s)"

text \<open>The states of the runs whose every step satisfies a condition.\<close>

inductive kreach :: "(caching \<Rightarrow> caching \<Rightarrow> bool) \<Rightarrow> nat \<Rightarrow> (string \<Rightarrow> file_meta option) \<Rightarrow> caching \<Rightarrow> bool" where
  kreach_start: "kreach ok ttl T (cache_start ttl T)"
| kreach_step: "kreach ok ttl T s \<Longrightarrow> kstep t s s' \<Longrightarrow> ok s s' \<Longrightarrow> kreach ok ttl T s'"

lemma proceed_sel [simp]:
  "kr_cache (proceed t p s) = kr_cache s" "kr_truth (proceed t p s) = kr_truth s" "kr_now (proceed t p s) = kr_now s"
  "kr_pc (proceed t p s) = (kr_pc s)(t := p)"
  by (simp_all add: proceed_def)

lemma sweep_all: "sweep_keys p UNIV c = cache_invalidate_prefix p c"
  by (simp add: sweep_keys_def cache_invalidate_prefix_def prefix_covers_def at_or_under_def fun_eq_iff)

subsection \<open>The invariant of steps that do not overlap\<close>

text \<open>The answers of the device a thread has still to store.\<close>

fun carries :: "kpc \<Rightarrow> string \<Rightarrow> file_meta option \<Rightarrow> bool" where
  "carries (Told p m) q n = (q = p \<and> n = m)"
| "carries (Listed ms) q n = (\<exists>m \<in> set ms. q = fst m \<and> n = Some (snd m))"
| "carries _ q n = False"

text \<open>The device does not change at a path while an answer about it is on its way to the cache.\<close>

definition no_overlap :: "caching \<Rightarrow> caching \<Rightarrow> bool" where
  "no_overlap s s' = (\<forall>t p m. carries (kr_pc s t) p m \<longrightarrow> kr_truth s' p = kr_truth s p)"

text \<open>The invalidation of a key is still to come.\<close>

fun to_forget :: "kpc \<Rightarrow> string \<Rightarrow> bool" where
  "to_forget (Changed p) q = (q = p)"
| "to_forget (Sweeping (p # ps) D) q = (prefix_covers p q \<and> q \<notin> D \<or> list_ex (\<lambda>p. prefix_covers p q) ps)"
| "to_forget _ q = False"

definition kinv :: "caching \<Rightarrow> bool" where
  "kinv s = ((\<forall>q e. entries (kr_cache s) q = Some e \<longrightarrow>
        ce_meta e = kr_truth s q \<or> (\<exists>t. to_forget (kr_pc s t) q))
     \<and> (\<forall>t p m. carries (kr_pc s t) p m \<longrightarrow> m = kr_truth s p))"

lemma kinv_start: "kinv (cache_start ttl T)"
  by (simp add: kinv_def cache_start_def cache_new_def)

lemma carried_step:
  assumes "kinv s" "kstep t s s'" "no_overlap s s'" "carries (kr_pc s' u) p m"
  shows "m = kr_truth s' p"
proof (cases "carries (kr_pc s u) p m")
  case True
  then show ?thesis using assms(1,3) unfolding kinv_def no_overlap_def by metis
next
  case False
  show ?thesis using assms(2) False assms(4) by cases (fastforce split: if_splits)+
qed

text \<open>A key that a step takes off the list of a thread has no entry any more.\<close>

lemma forgotten:
  assumes "kstep t s s'" "to_forget (kr_pc s u) q" "entries (kr_cache s') q \<noteq> None"
    and "entries (kr_cache s') q = entries (kr_cache s) q"
  shows "to_forget (kr_pc s' u) q"
proof (cases "u = t")
  case True
  have [simp]: "to_forget (Sweeping ps {}) r = list_ex (\<lambda>p. prefix_covers p r) ps" for ps r by (cases ps) auto
  show ?thesis using assms True
    by cases (auto simp: cache_invalidate_def sweep_keys_def split: if_splits)
next
  case False
  show ?thesis using assms(1) False assms(2) by cases auto
qed

text \<open>A step that changes the device at a key puts it on the list.\<close>

lemma changed_listed:
  assumes "kstep t s s'" "kr_truth s' q \<noteq> kr_truth s q"
  shows "to_forget (kr_pc s' t) q"
proof -
  have [simp]: "to_forget (Sweeping ps {}) r = list_ex (\<lambda>p. prefix_covers p r) ps" for ps r by (cases ps) auto
  show ?thesis using assms by cases (auto split: if_splits)
qed

lemma new_entry:
  assumes "kstep t s s'" "entries (kr_cache s') q = Some e" "entries (kr_cache s) q \<noteq> Some e"
  shows "carries (kr_pc s t) q (ce_meta e) \<and> kr_truth s' = kr_truth s"
  using assms by cases (auto simp: cache_invalidate_def sweep_keys_def cache_insert_def split: if_splits)

lemma kinv_step:
  assumes "kinv s" "kstep t s s'" "no_overlap s s'"
  shows "kinv s'"
proof -
  have "ce_meta e = kr_truth s' q \<or> (\<exists>t. to_forget (kr_pc s' t) q)" if e: "entries (kr_cache s') q = Some e" for q e
  proof (cases "entries (kr_cache s) q = Some e")
    case True
    then have "ce_meta e = kr_truth s q \<or> (\<exists>u. to_forget (kr_pc s u) q)" using assms(1) by (simp add: kinv_def)
    then show ?thesis
      using changed_listed[OF assms(2), of q] forgotten[OF assms(2), of _ q] e True
      by (cases "kr_truth s' q = kr_truth s q") auto
  next
    case False
    then show ?thesis using new_entry[OF assms(2) e] assms(1) unfolding kinv_def by metis
  qed
  then show ?thesis using carried_step[OF assms] unfolding kinv_def by blast
qed

lemma kreach_inv: "kreach no_overlap ttl T s \<Longrightarrow> kinv s"
proof (induction "no_overlap" ttl T s rule: kreach.induct)
  case (kreach_start ttl T)
  show ?case by (rule kinv_start)
next
  case (kreach_step ttl T s t s')
  then show ?case using kinv_step by blast
qed


subsection \<open>Alone, the steps are the function\<close>

inductive ksteps :: "nat \<Rightarrow> caching \<Rightarrow> caching \<Rightarrow> bool" where
  ksteps_refl: "ksteps t s s"
| ksteps_step: "ksteps t s s' \<Longrightarrow> kstep t s' s'' \<Longrightarrow> ksteps t s s''"

lemma ksteps_to: "ksteps t s s' \<Longrightarrow> kstep t s' s'' \<Longrightarrow> s'' = s3 \<Longrightarrow> ksteps t s s3"
  using ksteps_step by blast

text \<open>The answer of the device, when it is one that \<open>fetch_meta\<close> stores.\<close>

fun stored :: "(device_error, file_meta) res \<Rightarrow> file_meta option option" where
  "stored (Ok m) = Some (Some m)"
| "stored (Err (NotFound p)) = Some None"
| "stored _ = None"

lemma ksteps_lacking:
  assumes "kr_pc q t = Pausing"
    and r_def: "r = cache_get p (kr_now q) (kr_cache q)"
  shows "fst r = None \<Longrightarrow> ksteps t q (proceed t (Lacking p) (q\<lparr>kr_cache := snd r\<rparr>))"
    and "fst r = Some m \<Longrightarrow> ksteps t q (proceed t (Having p m) (q\<lparr>kr_cache := snd r\<rparr>))"
proof -
  let ?a = "proceed t (Wanting p) q"
  have a: "ksteps t q ?a" by (rule ksteps_step[OF ksteps_refl want[OF assms(1)]])
  have inv: "(kr_cache q)\<lparr>entries := (entries (kr_cache q))(p := None)\<rparr> = cache_invalidate p (kr_cache q)"
    by (simp add: cache_invalidate_def)
  show "ksteps t q (proceed t (Having p m) (q\<lparr>kr_cache := snd r\<rparr>))" if some: "fst r = Some m"
  proof -
    obtain e where e: "entries (kr_cache q) p = Some e" "\<not> outdated (kr_now q) (kr_cache q) e" "m = ce_meta e"
        "snd r = kr_cache q"
      using some unfolding r_def
      by (cases "entries (kr_cache q) p") (auto simp: cache_get_def outdated_def split: if_splits)
    show ?thesis using a by (rule ksteps_to) (rule hit[of ?a t p e], use e in \<open>auto simp: proceed_def\<close>)
  qed
  show "ksteps t q (proceed t (Lacking p) (q\<lparr>kr_cache := snd r\<rparr>))" if n: "fst r = None"
  proof (cases "entries (kr_cache q) p")
    case None
    then have "snd r = kr_cache q" unfolding r_def by (simp add: cache_get_def)
    with None show ?thesis
      using ksteps_to[OF a miss[of ?a t p]] by (simp add: proceed_def)
  next
    case (Some e)
    then have e: "outdated (kr_now q) (kr_cache q) e" "snd r = cache_invalidate p (kr_cache q)"
      using n unfolding r_def by (auto simp: cache_get_def outdated_def inv split: if_splits)
    have "ksteps t q (proceed t (Outdated p) ?a)" using a by (rule ksteps_step) (rule too_old, use Some e in auto)
    then show ?thesis
      by (rule ksteps_to) (rule drop_old, use e in \<open>auto simp: proceed_def\<close>)
  qed
qed

lemma fetch_meta_is_run:
  assumes "fetch_meta E p s = (r, s')" "kr_pc q t = Pausing"
    and cache: "kr_cache q = fs_cache s" and now: "kr_now q = e_instant_now E (fs_world s)"
    and truth: "\<And>a w. get_metadata (e_ops E) p (fs_world s) = (a, w) \<Longrightarrow> 
      (\<forall>m. stored a = Some m \<longrightarrow> kr_truth q p = m) \<and> kr_now q \<le> e_instant_now E w"
    and "stored r = Some m"
  shows "\<exists>q'. ksteps t q q' \<and> kr_pc q' t = Having p m \<and> kr_cache q' = fs_cache s' \<and> kr_truth q' = kr_truth q"
proof -
  obtain h c where g: "cache_get p (kr_now q) (kr_cache q) = (h, c)" by fastforce
  show ?thesis
  proof (cases h)
    case (Some m')
    then have "m' = m \<and> fs_cache s' = c"
      using assms(1,6) g cache now by (auto simp: fetch_meta_def Let_def split: option.splits)
    then show ?thesis
      using ksteps_lacking(2)[OF assms(2) refl, of p m] g Some
      by (intro exI[of _ "proceed t (Having p m) (q\<lparr>kr_cache := c\<rparr>)"]) simp
  next
    case None
    obtain a w where a: "get_metadata (e_ops E) p (fs_world s) = (a, w)" by fastforce
    let ?l = "proceed t (Lacking p) (q\<lparr>kr_cache := c\<rparr>)" let ?k = "proceed t (Told p (kr_truth q p)) ?l"
    let ?n = "e_instant_now E w" let ?m = "?k\<lparr>kr_now := ?n\<rparr>"
    let ?h = "proceed t (Having p m) (?m\<lparr>kr_cache := cache_insert p m ?n c\<rparr>)"
    have r: "stored a = Some m" "fs_cache s' = cache_insert p m ?n c"
      using assms(1,6) g cache now None a
      by (auto simp: fetch_meta_def Let_def on_world_def remember_def upd_cache_def
          split: res.splits device_error.splits)
    have "ksteps t q ?l" using ksteps_lacking(1)[OF assms(2) refl, of p] g None by simp
    then have "ksteps t q ?k" by (rule ksteps_to) (rule query[of ?l t p], simp_all)
    then have "ksteps t q ?m"
      by (rule ksteps_to) (rule tick[of t ?k "?n - kr_now q"], use truth[OF a] in simp)
    then have "ksteps t q ?h"
      by (rule ksteps_to) (rule store[of ?m t p m], use truth[OF a] r in simp_all)
    then show ?thesis using r by (intro exI[of _ ?h]) simp
  qed
qed

subsection \<open>Properties\<close>

lemma kreach_to: "kreach ok ttl T s \<Longrightarrow> kstep t s s' \<Longrightarrow> s' = s'' \<Longrightarrow> ok s s'' \<Longrightarrow> kreach ok ttl T s''"
  using kreach_step by blast

text \<open>Thread 0 has the old answer; thread 1 changes the file and invalidates; thread 0 stores it.\<close>

definition stale :: "nat \<Rightarrow> (string \<Rightarrow> file_meta option) \<Rightarrow> string \<Rightarrow> file_meta option \<Rightarrow> caching" where
  "stale ttl T p m = \<lparr>kr_cache = cache_insert p (T p) 0 (cache_new ttl), kr_truth = T(p := m), kr_now = 0,
     kr_pc = (\<lambda>_. Pausing)\<rparr>"

lemma stale_run: "kreach (\<lambda>_ _. True) ttl T (stale ttl T p m)"
proof -
  let ?R = "kreach (\<lambda>_ _. True) ttl T" let ?s0 = "cache_start ttl T"
  let ?s1 = "proceed 0 (Wanting p) ?s0" let ?s2 = "proceed 0 (Lacking p) ?s1"
  let ?s3 = "proceed 0 (Told p (T p)) ?s2" let ?s4 = "proceed 1 (Changed p) (?s3\<lparr>kr_truth := T(p := m)\<rparr>)"
  let ?s5 = "proceed 1 Pausing (?s4\<lparr>kr_cache := cache_invalidate p (kr_cache ?s4)\<rparr>)"
  let ?s6 = "proceed 0 (Having p (T p)) (?s5\<lparr>kr_cache := cache_insert p (T p) 0 (kr_cache ?s5)\<rparr>)"
  let ?s7 = "proceed 0 Pausing ?s6"
  note d = cache_start_def cache_new_def
  have "?R ?s1" by (rule kreach_step[OF kreach_start want]) (simp_all add: d)
  then have "?R ?s2" by (rule kreach_to) (rule miss, simp_all add: d)
  then have "?R ?s3" by (rule kreach_to) (rule query, simp_all add: d)
  then have "?R ?s4" by (rule kreach_to) (rule change_one[of _ 1 p m], simp_all add: d)
  then have "?R ?s5" by (rule kreach_to) (rule forget_one, simp_all)
  then have "?R ?s6" by (rule kreach_to) (rule store, simp_all add: d)
  then have "?R ?s7" by (rule kreach_to) (rule answer, simp_all)
  moreover have "?s7 = stale ttl T p m"
    by (simp add: stale_def d proceed_def cache_insert_def cache_invalidate_def fun_upd_twist fun_upd_idem)
  ultimately show ?thesis by simp
qed



end
